(* ===== verification/Prelude.thy ===== *)
theory Prelude imports
  Complex_Main "HOL-Library.Word" "HOL-Library.Char_ord" "HOL-Library.List_Lexorder" "HOL-Library.Sublist"
begin

text \<open>
  Shared vocabulary of the development: Go's 64-bit signed integers with their wrap-around,
  \<open>time.Duration\<close> and \<open>time.Time\<close>, the parts of package \<open>strings\<close> the
  program uses, and the generic lemmas the component theories share.

  A Go \<open>int\<close>, \<open>int64\<close> or \<open>time.Duration\<close> is an \<^typ>\<open>int\<close> in the
  range of \<open>in64\<close>, and every arithmetic operation whose result could leave that range is
  wrapped by \<open>i64\<close>; \<open>i64_sint\<close> shows that this is two's complement arithmetic on
  64-bit words. The program is built for linux/amd64, where \<open>int\<close> has 64 bits.

  An instant (\<open>time.Time\<close>) is the number of nanoseconds since the Unix epoch. Instants are
  unbounded, because a Go time counts seconds in 64 bits and does not overflow by adding a
  duration of at most 292 years; differences saturate as \<open>Time.Sub\<close> does.
\<close>

named_theorems time_simps \<open>unfolding of the duration and instant operations\<close>
named_theorems in64_intros \<open>results that stay in the range of a 64-bit integer\<close>

type_synonym duration = int
type_synonym instant = int

section \<open>64-bit signed integers\<close>

definition i64 :: "int \<Rightarrow> int" where
  "i64 x = (x + 2 ^ 63) mod 2 ^ 64 - 2 ^ 63"

definition max64 :: int where
  "max64 = 2 ^ 63 - 1"

definition min64 :: int where
  "min64 = - (2 ^ 63)"

definition in64 :: "int \<Rightarrow> bool" where
  "in64 x \<longleftrightarrow> min64 \<le> x \<and> x \<le> max64"

lemma i64_sint: "i64 x = sint (word_of_int x :: 64 word)"
  by (simp add: i64_def int_word_sint)

lemma in64_bounds: "in64 x \<longleftrightarrow> - 9223372036854775808 \<le> x \<and> x \<le> 9223372036854775807"
  by (simp add: in64_def min64_def max64_def)

lemma i64_id [simp]: "in64 x \<Longrightarrow> i64 x = x"
  by (simp add: i64_def in64_def min64_def max64_def)

lemma i64_in64 [simp, in64_intros]: "in64 (i64 x)"
proof -
  have "0 \<le> (x + 2 ^ 63) mod 2 ^ 64" and "(x + 2 ^ 63) mod 2 ^ 64 < (2 ^ 64 :: int)"
    by simp_all
  then show ?thesis by (simp add: i64_def in64_def min64_def max64_def)
qed

lemma i64_idem [simp]: "i64 (i64 x) = i64 x"
  by simp

lemma i64_shift: "i64 (x + k * 2 ^ 64) = i64 x"
proof -
  have "x + k * 2 ^ 64 + 2 ^ 63 = (x + 2 ^ 63) + k * (2 ^ 64 :: int)"
    by (simp only: ac_simps)
  then show ?thesis by (simp only: i64_def mod_mult_self1)
qed

lemma i64_overflow: "max64 < x \<Longrightarrow> x \<le> max64 + 2 ^ 64 \<Longrightarrow> i64 x = x - 2 ^ 64"
  using i64_shift [of "x - 2 ^ 64" 1] i64_id [of "x - 2 ^ 64"]
  by (simp add: in64_def max64_def min64_def)

lemma in64_between: "in64 a \<Longrightarrow> in64 b \<Longrightarrow> a \<le> x \<Longrightarrow> x \<le> b \<Longrightarrow> in64 x"
  by (simp add: in64_def)

lemma in64_0 [simp, in64_intros]: "in64 0"
  by (simp add: in64_bounds)

text \<open>Go's integer division truncates towards zero.\<close>

definition go_div :: "int \<Rightarrow> int \<Rightarrow> int" where
  "go_div a b = sgn a * sgn b * (\<bar>a\<bar> div \<bar>b\<bar>)"

lemma go_div_nonneg: "0 \<le> a \<Longrightarrow> 0 < b \<Longrightarrow> go_div a b = a div b"
  by (cases "a = 0") (simp_all add: go_div_def)

lemma go_div_neg: "a < 0 \<Longrightarrow> 0 < b \<Longrightarrow> go_div a b = - ((- a) div b)"
  by (simp add: go_div_def)

definition go_mod :: "int \<Rightarrow> int \<Rightarrow> int" where
  "go_mod a b = a - b * go_div a b"

lemma go_mod_nonneg: "0 \<le> a \<Longrightarrow> 0 < b \<Longrightarrow> go_mod a b = a mod b"
  by (simp add: go_mod_def go_div_nonneg minus_mult_div_eq_mod)

lemma ceil_div_bounds:
  fixes a b :: int
  assumes "0 < b"
  shows "a \<le> (a + b - 1) div b * b" and "((a + b - 1) div b - 1) * b < a"
proof -
  let ?q = "(a + b - 1) div b" and ?r = "(a + b - 1) mod b"
  have split: "?q * b + ?r = a + b - 1" by (rule div_mult_mod_eq)
  have "0 \<le> ?r" and "?r < b" using assms by simp_all
  with split show "a \<le> ?q * b" and "(?q - 1) * b < a"
    unfolding left_diff_distrib by linarith+
qed

section \<open>Durations and instants\<close>

definition second :: duration where "second = 1000000000"
definition minute :: duration where "minute = 60000000000"
definition hour :: duration where "hour = 3600000000000"
definition millisecond :: duration where "millisecond = 1000000"

lemmas unit_defs [time_simps] = second_def minute_def hour_def millisecond_def

text \<open>\<open>Time.Sub\<close> saturates at the ends of the duration range; \<open>Time.Add\<close> is exact.\<close>

definition time_sub :: "instant \<Rightarrow> instant \<Rightarrow> duration" where
  "time_sub t u = max min64 (min max64 (t - u))"

definition time_add :: "instant \<Rightarrow> duration \<Rightarrow> instant" where
  "time_add t d = t + d"

lemma time_sub_in64 [simp, in64_intros]: "in64 (time_sub t u)"
  by (simp add: time_sub_def in64_def min64_def max64_def)

lemma time_sub_exact: "in64 (t - u) \<Longrightarrow> time_sub t u = t - u"
  by (simp add: time_sub_def in64_def)

lemma time_sub_ge_iff: "in64 d \<Longrightarrow> d \<le> max64 \<Longrightarrow> min64 < d \<Longrightarrow> (d \<le> time_sub t u) = (d \<le> t - u)"
  by (auto simp: time_sub_def in64_def)

lemma time_sub_less_iff: "in64 d \<Longrightarrow> min64 < d \<Longrightarrow> (time_sub t u < d) = (t - u < d)"
  by (auto simp: time_sub_def in64_def)

lemma time_sub_pos_iff: "(0 < time_sub t u) = (u < t)"
  by (auto simp: time_sub_def min64_def max64_def)

text \<open>The zero \<open>time.Time\<close> is the first instant of year 1, in UTC.\<close>

definition zero_time :: instant where
  "zero_time = - 62135596800 * 1000000000"

text \<open>\<open>Time.Truncate\<close> rounds down to a multiple of the duration since the zero time.\<close>

definition time_truncate :: "instant \<Rightarrow> duration \<Rightarrow> instant" where
  "time_truncate t d = (if d \<le> 0 then t else t - (t - zero_time) mod d)"

definition unix_milli :: "instant \<Rightarrow> int" where
  "unix_milli t = i64 (t div millisecond)"

definition from_milli :: "int \<Rightarrow> instant" where
  "from_milli ms = ms * millisecond"

lemma truncate_minute: "time_truncate t minute = t - t mod minute"
proof -
  have "(t + 60000000000 * 1035593280) mod 60000000000 = t mod (60000000000 :: int)"
    by (rule mod_mult_self2)
  then show ?thesis by (simp add: time_truncate_def minute_def zero_time_def)
qed

lemma truncate_minute_bounds:
  "time_truncate t minute \<le> t" "t < time_truncate t minute + minute"
  by (simp_all add: truncate_minute) (simp_all add: minute_def)

lemma truncate_minute_grid: "minute dvd time_truncate t minute"
  by (simp add: truncate_minute dvd_minus_mod)

lemma truncate_minute_mono: "t \<le> u \<Longrightarrow> time_truncate t minute \<le> time_truncate u minute"
  by (simp add: truncate_minute minus_mod_eq_mult_div) (simp add: minute_def zdiv_mono1)

lemma unix_milli_from_milli: "in64 ms \<Longrightarrow> unix_milli (from_milli ms) = ms"
  by (simp add: unix_milli_def from_milli_def millisecond_def)

section \<open>Package strings\<close>

text \<open>
  A Go string is a sequence of bytes, here a list of \<^typ>\<open>char\<close>, compared
  lexicographically. \<open>strings.TrimSpace\<close> removes the Unicode white space at both ends: the
  byte sequences below are the UTF-8 encodings of that property's characters.
\<close>

definition bytes :: "nat list \<Rightarrow> string" where
  "bytes ns = map char_of ns"

definition space_seqs :: "string list" where
  "space_seqs = map bytes
     ([[9], [10], [11], [12], [13], [32], [194, 133], [194, 160], [225, 154, 128]]
      @ map (\<lambda>b. [226, 128, b]) [128, 129, 130, 131, 132, 133, 134, 135, 136, 137, 138]
      @ [[226, 128, 168], [226, 128, 169], [226, 128, 175], [226, 129, 159], [227, 128, 128]])"

fun strip_prefix :: "string list \<Rightarrow> string \<Rightarrow> string option" where
  "strip_prefix [] s = None"
| "strip_prefix (w # ws) s =
     (if w \<noteq> [] \<and> take (length w) s = w then Some (drop (length w) s) else strip_prefix ws s)"

lemma strip_prefix_shorter: "strip_prefix ws s = Some r \<Longrightarrow> length r < length s"
proof (induction ws)
  case (Cons w ws)
  show ?case
  proof (cases "w \<noteq> [] \<and> take (length w) s = w")
    case True
    then have "s \<noteq> []" and "length w > 0" by auto
    with True Cons.prems show ?thesis by (auto simp: length_greater_0_conv)
  next
    case False
    with Cons show ?thesis by (auto split: if_splits)
  qed
qed simp

function trim_front :: "string list \<Rightarrow> string \<Rightarrow> string" where
  "trim_front ws s = (case strip_prefix ws s of None \<Rightarrow> s | Some r \<Rightarrow> trim_front ws r)"
  by pat_completeness auto
termination
  by (relation "measure (\<lambda>(ws, s). length s)") (auto dest: strip_prefix_shorter)

declare trim_front.simps [simp del]

definition trim_space :: "string \<Rightarrow> string" where
  "trim_space s = rev (trim_front (map rev space_seqs) (rev (trim_front space_seqs s)))"

lemma strip_prefix_suffix: "strip_prefix ws s = Some r \<Longrightarrow> \<exists>p. s = p @ r"
  by (induction ws) (auto split: if_splits intro: append_take_drop_id [symmetric])

lemma strip_prefix_None_append: "strip_prefix ws (s @ t) = None \<Longrightarrow> strip_prefix ws s = None"
  by (induction ws) (auto split: if_splits)

lemma trim_front_suffix: "\<exists>p. s = p @ trim_front ws s"
proof (induction ws s rule: trim_front.induct)
  case (1 ws s)
  show ?case
  proof (cases "strip_prefix ws s")
    case None
    then show ?thesis by (simp add: trim_front.simps [of ws s])
  next
    case (Some r)
    then obtain p q where s: "s = p @ r" and r: "r = q @ trim_front ws r"
      using 1 strip_prefix_suffix by blast
    from Some have "trim_front ws s = trim_front ws r" by (simp add: trim_front.simps [of ws s])
    with s r have "s = (p @ q) @ trim_front ws s" by simp
    then show ?thesis by blast
  qed
qed

lemma trim_front_None: "strip_prefix ws (trim_front ws s) = None"
  by (induction ws s rule: trim_front.induct)
     (metis option.case_eq_if option.collapse trim_front.simps)

lemma trim_front_fix: "strip_prefix ws s = None \<Longrightarrow> trim_front ws s = s"
  by (simp add: trim_front.simps)

text \<open>Trimming twice is trimming once: the identities the program compares are stable.\<close>

lemma trim_space_idem [simp]: "trim_space (trim_space s) = trim_space s"
proof -
  let ?l = "trim_front space_seqs s"
  let ?r = "trim_front (map rev space_seqs) (rev ?l)"
  obtain p where "rev ?l = p @ ?r" using trim_front_suffix by blast
  then have "?l = rev ?r @ rev p" by (metis rev_append rev_rev_ident)
  then have "strip_prefix space_seqs (rev ?r) = None"
    by (metis strip_prefix_None_append trim_front_None)
  then show ?thesis
    by (simp add: trim_space_def trim_front_fix trim_front_None)
qed

lemma trim_space_Nil [simp]: "trim_space [] = []"
  by (metis Nil_is_append_conv trim_front_suffix rev_is_Nil_conv trim_space_def)

text \<open>
  \<open>strings.Split\<close> with a one-byte separator: always at least one piece.
\<close>

fun split_on :: "char \<Rightarrow> string \<Rightarrow> string list" where
  "split_on c [] = [[]]"
| "split_on c (x # xs) =
     (if x = c then [] # split_on c xs
      else case split_on c xs of [] \<Rightarrow> [[x]] | p # ps \<Rightarrow> (x # p) # ps)"

lemma split_on_nonempty [simp]: "split_on c s \<noteq> []"
  by (induction s) (auto split: list.splits)

text \<open>\<open>strings.Join\<close>.\<close>

fun join_with :: "string \<Rightarrow> string list \<Rightarrow> string" where
  "join_with sep [] = []"
| "join_with sep [x] = x"
| "join_with sep (x # y # xs) = x @ sep @ join_with sep (y # xs)"

lemma split_on_fresh: "c \<notin> set s \<Longrightarrow> split_on c s = [s]"
  by (induction s) auto

lemma split_on_piece: "c \<notin> set s \<Longrightarrow> split_on c (s @ c # t) = s # split_on c t"
  by (induction s) auto

lemma split_join:
  "xs \<noteq> [] \<Longrightarrow> \<forall>x \<in> set xs. c \<notin> set x \<Longrightarrow> split_on c (join_with [c] xs) = xs"
  by (induction "[c]" xs rule: join_with.induct) (simp_all add: split_on_fresh split_on_piece)

text \<open>\<open>strconv.FormatInt(n, 10)\<close>.\<close>

fun digits :: "nat \<Rightarrow> string" where
  "digits n = (if n < 10 then [char_of (48 + n)] else digits (n div 10) @ [char_of (48 + n mod 10)])"

declare digits.simps [simp del]

definition format_int :: "int \<Rightarrow> string" where
  "format_int n = (if n < 0 then CHR ''-'' # digits (nat (- n)) else digits (nat n))"

text \<open>Reading decimal digits back.\<close>

definition digit_char :: "char \<Rightarrow> bool" where
  "digit_char c \<longleftrightarrow> 48 \<le> (of_char c :: nat) \<and> (of_char c :: nat) \<le> 57"

fun digits_value :: "string \<Rightarrow> nat \<Rightarrow> nat" where
  "digits_value [] acc = acc"
| "digits_value (c # s) acc = digits_value s (10 * acc + (of_char c - 48))"

definition parse_int :: "string \<Rightarrow> int" where
  "parse_int s =
     (case s of
        c # t \<Rightarrow> if c = CHR ''-'' then - int (digits_value t 0) else int (digits_value s 0)
      | [] \<Rightarrow> 0)"

lemma digits_all: "list_all digit_char (digits n)"
proof (induction n rule: digits.induct)
  case (1 n)
  have d: "digit_char (char_of (48 + m))" if "m < 10" for m :: nat
    using that by (simp add: digit_char_def)
  show ?case using 1 by (subst digits.simps) (simp add: d)
qed

lemma digits_value_append: "digits_value (s @ t) acc = digits_value t (digits_value s acc)"
  by (induction s arbitrary: acc) simp_all

lemma digits_value_digits: "digits_value (digits n) 0 = n"
proof (induction n rule: digits.induct)
  case (1 n)
  show ?case
  proof (cases "n < 10")
    case True
    then show ?thesis by (subst digits.simps) simp
  next
    case False
    with 1 show ?thesis by (subst digits.simps) (simp add: digits_value_append)
  qed
qed

lemma digits_not_minus: "digits n \<noteq> [] \<and> hd (digits n) \<noteq> CHR ''-''"
proof -
  have "digits n \<noteq> []" by (subst digits.simps) simp
  moreover from this have "digit_char (hd (digits n))"
    using digits_all [of n] by (cases "digits n") auto
  ultimately show ?thesis by (auto simp: digit_char_def)
qed

lemma parse_format_int: "parse_int (format_int n) = n"
proof (cases "n < 0")
  case False
  then show ?thesis
    using digits_not_minus [of "nat n"] digits_value_digits [of "nat n"]
    by (cases "digits (nat n)") (auto simp: format_int_def parse_int_def)
qed (simp add: format_int_def parse_int_def digits_value_digits)

text \<open>
  \<open>strconv.ParseInt(s, 10, 64)\<close>, and \<open>strconv.Atoi\<close> where \<open>int\<close> has 64 bits:
  an optional sign and at least one digit, in range.
\<close>

definition parse_int64 :: "string \<Rightarrow> int option" where
  "parse_int64 s =
     (let (neg, ds) = (case s of
            [] \<Rightarrow> (False, [])
          | c # t \<Rightarrow> if c = CHR ''-'' then (True, t) else if c = CHR ''+'' then (False, t) else (False, s));
          n = (if neg then - int (digits_value ds 0) else int (digits_value ds 0))
      in if ds = [] \<or> \<not> list_all digit_char ds \<or> \<not> in64 n then None else Some n)"

lemma parse_int64_format: "in64 n \<Longrightarrow> parse_int64 (format_int n) = Some n"
proof (cases "n < 0")
  case True
  moreover assume "in64 n"
  ultimately show ?thesis
    using digits_not_minus [of "nat (- n)"]
    by (auto simp: parse_int64_def format_int_def digits_value_digits digits_all)
next
  case False
  moreover assume r: "in64 n"
  obtain c t where d: "digits (nat n) = c # t" using digits_not_minus [of "nat n"] by (cases "digits (nat n)") auto
  then have "digit_char c" using digits_all [of "nat n"] by simp
  then have "c \<noteq> CHR ''-''" "c \<noteq> CHR ''+''" by (auto simp: digit_char_def)
  ultimately show ?thesis
    using r d digits_all [of "nat n"] digits_value_digits [of "nat n"]
    by (simp add: parse_int64_def format_int_def)
qed

text \<open>
  \<open>Duration.String\<close>: below a second in ns, us or ms, otherwise hours, minutes and seconds;
  \<open>frac_text\<close> prints the digits after the point without trailing zeros.
\<close>

definition pad_digits :: "nat \<Rightarrow> nat \<Rightarrow> string" where
  "pad_digits width n = replicate (width - length (digits n)) (CHR ''0'') @ digits n"

definition frac_text :: "nat \<Rightarrow> nat \<Rightarrow> string" where
  "frac_text v prec =
     (let f = v mod 10 ^ prec
      in if f = 0 then [] else CHR ''.'' # rev (dropWhile (\<lambda>c. c = CHR ''0'') (rev (pad_digits prec f))))"

definition duration_text :: "duration \<Rightarrow> string" where
  "duration_text d =
     (let u = nat \<bar>d\<bar>;
          body = (if u = 0 then ''0s''
                  else if u < 1000 then digits u @ ''ns''
                  else if u < 1000000 then digits (u div 1000) @ frac_text u 3 @ bytes [194, 181] @ ''s''
                  else if u < 1000000000 then digits (u div 1000000) @ frac_text u 6 @ ''ms''
                  else let s = u div 1000000000;
                           secs = digits (s mod 60) @ frac_text u 9 @ ''s'';
                           m = s div 60
                       in if m = 0 then secs
                          else let mins = digits (m mod 60) @ ''m'' @ secs; h = m div 60
                               in if h = 0 then mins else digits h @ ''h'' @ mins)
      in if d < 0 then CHR ''-'' # body else body)"

text \<open>Printable text is not changed by trimming.\<close>

definition graphic :: "char \<Rightarrow> bool" where
  "graphic c \<longleftrightarrow> 32 < (of_char c :: nat) \<and> (of_char c :: nat) < 127"

lemma space_seqs_heads:
  "\<forall>w \<in> set space_seqs. w \<noteq> [] \<and> \<not> graphic (hd w) \<and> \<not> graphic (last w)"
  by (simp add: space_seqs_def bytes_def graphic_def)

lemma strip_prefix_graphic:
  "\<forall>w \<in> set ws. w \<noteq> [] \<longrightarrow> \<not> graphic (hd w) \<Longrightarrow> s = [] \<or> graphic (hd s) \<Longrightarrow> strip_prefix ws s = None"
proof (induction ws)
  case (Cons w ws)
  have "\<not> (w \<noteq> [] \<and> take (length w) s = w)"
    using Cons.prems by (cases w; cases s) auto
  with Cons show ?case by simp
qed simp

lemma trim_ends:
  assumes "s \<noteq> [] \<Longrightarrow> graphic (hd s) \<and> graphic (last s)"
  shows "trim_space s = s"
proof -
  have front: "strip_prefix space_seqs s = None"
    by (rule strip_prefix_graphic) (use space_seqs_heads assms in blast)+
  have "strip_prefix (map rev space_seqs) (rev s) = None"
    by (rule strip_prefix_graphic) (use space_seqs_heads assms in \<open>auto simp: hd_rev\<close>)
  with front show ?thesis by (simp add: trim_space_def trim_front_fix)
qed

lemma trim_graphic: "list_all graphic s \<Longrightarrow> trim_space s = s"
  by (rule trim_ends) (auto simp: list_all_iff)

lemma graphic_digit: "(n :: nat) < 10 \<Longrightarrow> graphic (char_of (48 + n))"
  by (simp add: graphic_def)

lemma graphic_digits: "list_all graphic (digits n)"
  by (induction n rule: digits.induct) (subst digits.simps, simp add: graphic_digit)

lemma digits_not_Nil [simp]: "digits n \<noteq> []"
  by (subst digits.simps) simp

section \<open>Floating point values\<close>

text \<open>
  A \<open>float64\<close> is only stored, compared with NaN and converted to an integer: a finite value
  is the rational number it denotes. Converting NaN, an infinity or a value out of range to
  \<open>int64\<close> gives the smallest integer, as it does on amd64.
\<close>

datatype f64 = F64_NaN | F64_Inf bool | F64_Fin rat

definition is_nan :: "f64 \<Rightarrow> bool" where
  "is_nan v \<longleftrightarrow> v = F64_NaN"

definition f64_to_int :: "f64 \<Rightarrow> int" where
  "f64_to_int v =
     (case v of
        F64_Fin q \<Rightarrow> let n = (if q < 0 then - \<lfloor>- q\<rfloor> else \<lfloor>q\<rfloor>) in if in64 n then n else min64
      | _ \<Rightarrow> min64)"

section \<open>Errors\<close>

text \<open>
  An error value: a plain text, an error wrapped with \<open>fmt.Errorf("text: %w", err)\<close>, or
  a PostgreSQL error (severity, SQLSTATE code, message). \<open>errors.As\<close> walks the chain.
\<close>

datatype go_err = Err string | Wrap string go_err | PgError string string string

fun as_pg :: "go_err \<Rightarrow> (string \<times> string) option" where
  "as_pg (Err s) = None"
| "as_pg (Wrap s e) = as_pg e"
| "as_pg (PgError sev code msg) = Some (code, msg)"

fun err_text :: "go_err \<Rightarrow> string" where
  "err_text (Err s) = s"
| "err_text (Wrap s e) = s @ '': '' @ err_text e"
| "err_text (PgError sev code msg) = sev @ '': '' @ msg @ '' (SQLSTATE '' @ code @ '')''"

text \<open>
  \<open>io.ReadAll(io.LimitReader(r, n))\<close> on a stream that yields some bytes and then ends or
  fails: the limit is reached before the failure is.
\<close>

definition read_limited :: "nat \<Rightarrow> string \<times> go_err option \<Rightarrow> go_err + string" where
  "read_limited n stream =
     (if n \<le> length (fst stream) then Inr (take n (fst stream))
      else case snd stream of None \<Rightarrow> Inr (fst stream) | Some e \<Rightarrow> Inl e)"

section \<open>Lists and maps\<close>

text \<open>A list of rows with a unique key: lookup, and update in place.\<close>

definition find_row :: "('r \<Rightarrow> 'k) \<Rightarrow> 'k \<Rightarrow> 'r list \<Rightarrow> 'r option" where
  "find_row key k rs = List.find (\<lambda>r. key r = k) rs"

lemma find_row_Nil [simp]: "find_row key k [] = None"
  by (simp add: find_row_def)

lemma find_row_Cons [simp]: "find_row key k (r # rs) = (if key r = k then Some r else find_row key k rs)"
  by (simp add: find_row_def)

lemma find_row_append: "find_row key k (rs @ ts) = (case find_row key k rs of None \<Rightarrow> find_row key k ts | Some r \<Rightarrow> Some r)"
  by (induction rs) auto

lemma find_row_Some: "find_row key k rs = Some r \<Longrightarrow> r \<in> set rs \<and> key r = k"
  by (induction rs) (auto split: if_splits)

lemma find_row_None: "find_row key k rs = None \<longleftrightarrow> (\<forall>r \<in> set rs. key r \<noteq> k)"
  by (induction rs) auto

lemma find_row_iff:
  "distinct (map key rs) \<Longrightarrow> find_row key k rs = Some r \<longleftrightarrow> r \<in> set rs \<and> key r = k"
  by (induction rs) (auto simp: image_iff)

lemma find_row_map:
  "(\<And>r. key (f r) = key r) \<Longrightarrow> find_row key k (map f rs) = map_option f (find_row key k rs)"
  by (induction rs) auto

lemma find_row_filter_key:
  "find_row key k (filter (\<lambda>r. P (key r)) rs) = (if P k then find_row key k rs else None)"
  by (induction rs) auto

lemma find_row_filter:
  "distinct (map key rs) \<Longrightarrow> find_row key k (filter P rs)
     = (case find_row key k rs of None \<Rightarrow> None | Some r \<Rightarrow> if P r then Some r else None)"
proof (induction rs)
  case (Cons r rs)
  show ?case
  proof (cases "key r = k")
    case True
    with Cons.prems have "find_row key k (filter P rs) = None"
      by (auto simp: find_row_None image_iff)
    with True show ?thesis by simp
  qed (use Cons in simp)
qed simp

lemma sort_set_eq: "set xs = set ys \<Longrightarrow> distinct xs \<Longrightarrow> distinct ys \<Longrightarrow> sort xs = sort ys"
  by (metis distinct_sort set_sort sorted_distinct_set_unique sorted_sort)

lemma distinct_map_filter_fst: "distinct (map f xs) \<Longrightarrow> distinct (map f (filter P xs))"
  by (simp add: distinct_map_filter)

end
