(* ===== verification/Shard.thy ===== *)
theory Shard imports Prelude
begin

text \<open>
  Ownership by rendezvous hashing (\<open>shard.go\<close>): the FNV-1a pair hash with the MurmurHash3
  finaliser on 64-bit words, the \<open>Owner\<close> loop over the peers, \<open>Owns\<close>, and
  \<open>normalizePeers\<close>. The interface \<open>rendezvous\<close> states what a choice of the
  best-scoring peer promises; its lemmas (set dependence, one owner per hash, minimal movement
  when a peer joins or leaves) are proved once there and instantiated with \<open>Owner\<close>.
\<close>

unbundle bit_operations_syntax

type_synonym u64 = "64 word"

section \<open>The pair hash\<close>

definition fnvOffset64 :: u64 where
  "fnvOffset64 = 14695981039346656037"

definition fnvPrime64 :: u64 where
  "fnvPrime64 = 1099511628211"

definition byte_word :: "char \<Rightarrow> u64" where
  "byte_word c = word_of_nat (of_char c)"

fun fnv1a :: "u64 \<Rightarrow> string \<Rightarrow> u64" where
  "fnv1a h [] = h"
| "fnv1a h (c # s) = fnv1a ((h XOR byte_word c) * fnvPrime64) s"

definition mix64 :: "u64 \<Rightarrow> u64" where
  "mix64 x =
     (let x = x XOR drop_bit 33 x;
          x = x * 0xff51afd7ed558ccd;
          x = x XOR drop_bit 33 x;
          x = x * 0xc4ceb9fe1a85ec53;
          x = x XOR drop_bit 33 x
      in x)"

definition pairHash :: "string \<Rightarrow> string \<Rightarrow> u64" where
  "pairHash hash peer =
     (let h = fnv1a fnvOffset64 hash;
          h = h XOR byte_word (CHR ''|'');
          h = h * fnvPrime64
      in mix64 (fnv1a h peer))"

text \<open>The hash of the pair is the hash of the joined string, which is never built.\<close>

lemma fnv1a_append: "fnv1a h (s @ t) = fnv1a (fnv1a h s) t"
  by (induction s arbitrary: h) simp_all

lemma pairHash_join: "pairHash hash peer = mix64 (fnv1a fnvOffset64 (hash @ ''|'' @ peer))"
  by (simp add: pairHash_def fnv1a_append Let_def)

text \<open>
  The finaliser loses nothing: each of its steps has an inverse, so it permutes the 64-bit
  words and two pairs collide only where FNV-1a itself collides.
\<close>

definition xorshift33 :: "u64 \<Rightarrow> u64" where
  "xorshift33 x = x XOR drop_bit 33 x"

lemma xorshift33_involution [simp]: "xorshift33 (xorshift33 x) = x"
  unfolding xorshift33_def
  by (rule bit_word_eqI) (auto simp: bit_xor_iff bit_drop_bit_eq dest: bit_imp_le_length)

definition unmix64 :: "u64 \<Rightarrow> u64" where
  "unmix64 y = xorshift33 (xorshift33 (xorshift33 y * 11291846944257947611) * 5725274745694666757)"

lemma mix64_steps:
  "mix64 x = xorshift33 (xorshift33 (xorshift33 x * 0xff51afd7ed558ccd) * 0xc4ceb9fe1a85ec53)"
  by (simp add: mix64_def xorshift33_def Let_def)

lemma mult_cancel_word:
  fixes x k k' :: u64
  assumes "k * k' = 1"
  shows "x * k * k' = x"
  using assms by (simp add: mult.assoc)

lemma unmix64_mix64: "unmix64 (mix64 x) = x"
  by (simp add: mix64_steps unmix64_def mult_cancel_word)

lemma mix64_unmix64: "mix64 (unmix64 y) = y"
  by (simp add: mix64_steps unmix64_def mult_cancel_word)

lemma fnvPrime64_inverse: "fnvPrime64 * 14886173955864302971 = 1"
  by (simp add: fnvPrime64_def)

lemma fnv1a_inject_state: "fnv1a h s = fnv1a h' s \<longleftrightarrow> h = h'"
proof (induction s arbitrary: h h')
  case (Cons c s)
  have cancel: "x * fnvPrime64 = y * fnvPrime64 \<longleftrightarrow> x = y" for x y :: u64
    using mult_cancel_word [OF fnvPrime64_inverse] by metis
  have undo: "(x XOR b) XOR b = x" for x b :: u64
    by (simp add: xor.assoc)
  have "(h XOR byte_word c = h' XOR byte_word c) = (h = h')"
    by (metis undo)
  then show ?case by (simp only: fnv1a.simps Cons.IH cancel)
qed simp

section \<open>Owner and Owns\<close>

text \<open>The loop's variables are \<open>best\<close>, \<open>bestScore\<close> and \<open>first\<close>.\<close>

fun owner_loop :: "string \<Rightarrow> string list \<Rightarrow> string \<times> u64 \<times> bool \<Rightarrow> string \<times> u64 \<times> bool" where
  "owner_loop hash [] st = st"
| "owner_loop hash (p # ps) (best, bestScore, first) =
     (let score = pairHash hash p in
      if first \<or> bestScore < score \<or> (score = bestScore \<and> p < best)
      then owner_loop hash ps (p, score, False)
      else owner_loop hash ps (best, bestScore, first))"

definition Owner :: "string \<Rightarrow> string list \<Rightarrow> string" where
  "Owner hash peers = fst (owner_loop hash peers ([], 0, True))"

definition Owns :: "string \<Rightarrow> string \<Rightarrow> string list \<Rightarrow> bool" where
  "Owns hash self peers \<longleftrightarrow> (if length peers \<le> 1 then True else Owner hash peers = self)"

section \<open>normalizePeers\<close>

text \<open>
  The closure \<open>add\<close> trims a peer, drops it when it is blank or already in \<open>seen\<close>, and
  appends it to \<open>out\<close> otherwise; \<open>seen\<close> always holds the elements of \<open>out\<close>.
\<close>

definition add_peer :: "string \<Rightarrow> string list \<Rightarrow> string list" where
  "add_peer p out =
     (let p = trim_space p in if p = [] then out else if p \<in> set out then out else out @ [p])"

definition normalizePeers :: "string list \<Rightarrow> string \<Rightarrow> string list" where
  "normalizePeers peers self = sort (add_peer self (fold add_peer peers []))"

lemma set_add_peer: "set (add_peer p out) = set out \<union> ({trim_space p} - {[]})"
  by (auto simp: add_peer_def Let_def)

lemma distinct_add_peer: "distinct out \<Longrightarrow> distinct (add_peer p out)"
  by (simp add: add_peer_def Let_def)

lemma set_fold_add_peer: "set (fold add_peer ps out) = set out \<union> (trim_space ` set ps - {[]})"
  by (induction ps arbitrary: out) (auto simp: set_add_peer)

lemma distinct_fold_add_peer: "distinct out \<Longrightarrow> distinct (fold add_peer ps out)"
  by (induction ps arbitrary: out) (simp_all add: distinct_add_peer)

lemma set_normalizePeers:
  "set (normalizePeers peers self) = trim_space ` (insert self (set peers)) - {[]}"
  by (auto simp: normalizePeers_def set_add_peer set_fold_add_peer)

lemma sorted_normalizePeers: "sorted (normalizePeers peers self)"
  by (simp add: normalizePeers_def)

lemma distinct_normalizePeers: "distinct (normalizePeers peers self)"
  by (simp add: normalizePeers_def distinct_add_peer distinct_fold_add_peer)

lemma normalizePeers_cong:
  "trim_space ` insert self (set ps) - {[]} = trim_space ` insert self' (set qs) - {[]}
   \<Longrightarrow> normalizePeers ps self = normalizePeers qs self'"
  by (metis set_normalizePeers sorted_normalizePeers distinct_normalizePeers
      sorted_distinct_set_unique)

lemma self_in_normalizePeers: "trim_space self \<noteq> [] \<Longrightarrow> trim_space self \<in> set (normalizePeers ps self)"
  by (simp add: set_normalizePeers)

lemma normalizePeers_not_empty: "trim_space self \<noteq> [] \<Longrightarrow> normalizePeers ps self \<noteq> []"
  by (metis empty_iff list.set(1) self_in_normalizePeers)

section \<open>The contract of a rendezvous choice\<close>

text \<open>
  \<open>pick\<close> chooses a peer for a hash and never one that another peer beats: a higher score
  wins, and equal scores are decided by the peer's name.
\<close>

locale rendezvous =
  fixes score :: "'h \<Rightarrow> 'p :: linorder \<Rightarrow> 's :: linorder"
    and pick :: "'h \<Rightarrow> 'p list \<Rightarrow> 'p"
  assumes pick_member: "ps \<noteq> [] \<Longrightarrow> pick h ps \<in> set ps"
    and pick_best: "p \<in> set ps \<Longrightarrow> score h p < score h (pick h ps)
                      \<or> (score h p = score h (pick h ps) \<and> pick h ps \<le> p)"
begin

definition beats :: "'h \<Rightarrow> 'p \<Rightarrow> 'p \<Rightarrow> bool" where
  "beats h p q \<longleftrightarrow> score h q < score h p \<or> (score h q = score h p \<and> p \<le> q)"

lemma beats_antisym: "beats h p q \<Longrightarrow> beats h q p \<Longrightarrow> p = q"
  by (auto simp: beats_def)

lemma pick_beats: "p \<in> set ps \<Longrightarrow> beats h (pick h ps) p"
  using pick_best by (auto simp: beats_def)

lemma pick_unique: "q \<in> set ps \<Longrightarrow> (\<And>p. p \<in> set ps \<Longrightarrow> beats h q p) \<Longrightarrow> pick h ps = q"
  by (metis beats_antisym empty_iff list.set(1) pick_beats pick_member)

lemma pick_set_cong: "set ps = set qs \<Longrightarrow> pick h ps = pick h qs"
  by (metis pick_beats pick_member pick_unique set_empty)

lemma pick_join:
  assumes "set qs = insert p (set ps)" "ps \<noteq> []"
  shows "pick h qs = p \<or> pick h qs = pick h ps"
proof (cases "pick h qs = p")
  case False
  have "pick h qs \<in> set qs" using assms by (intro pick_member) auto
  with False assms have "pick h qs \<in> set ps" by auto
  then have "pick h ps = pick h qs"
    using assms by (intro pick_unique) (auto intro: pick_beats)
  then show ?thesis by simp
qed simp

lemma pick_leave:
  assumes "set qs = set ps - {p}" "qs \<noteq> []" "pick h ps \<noteq> p"
  shows "pick h qs = pick h ps"
proof -
  have "ps \<noteq> []" using assms(1,2) by fastforce
  then have "pick h ps \<in> set qs" using assms(1,3) pick_member [of ps h] by blast
  moreover have "beats h (pick h ps) q" if "q \<in> set qs" for q
    using that assms(1) pick_beats by blast
  ultimately show ?thesis by (rule pick_unique)
qed

end

text \<open>Past the first peer the loop keeps the best peer seen and its score.\<close>

definition hash_beats :: "string \<Rightarrow> string \<Rightarrow> string \<Rightarrow> bool" where
  "hash_beats h p q \<longleftrightarrow>
     pairHash h q < pairHash h p \<or> (pairHash h q = pairHash h p \<and> p \<le> q)"

lemma hash_beats_refl: "hash_beats h p p"
  by (simp add: hash_beats_def)

lemma hash_beats_trans: "hash_beats h p q \<Longrightarrow> hash_beats h q r \<Longrightarrow> hash_beats h p r"
  by (auto simp: hash_beats_def)

lemma hash_beats_total: "hash_beats h p q \<or> hash_beats h q p"
  by (auto simp: hash_beats_def)

lemma owner_loop_best:
  "\<exists>b. owner_loop h ps (best, pairHash h best, False) = (b, pairHash h b, False)
     \<and> b \<in> insert best (set ps) \<and> (\<forall>p \<in> insert best (set ps). hash_beats h b p)"
proof (induction ps arbitrary: best)
  case Nil
  show ?case by (simp add: hash_beats_refl)
next
  case (Cons p ps)
  define w where "w = (if pairHash h best < pairHash h p
      \<or> (pairHash h p = pairHash h best \<and> p < best) then p else best)"
  have step: "owner_loop h (p # ps) (best, pairHash h best, False)
      = owner_loop h ps (w, pairHash h w, False)"
    by (simp add: w_def Let_def)
  have w: "hash_beats h w p" "hash_beats h w best" "w \<in> {best, p}"
    by (auto simp: w_def hash_beats_def)
  obtain b where b: "owner_loop h ps (w, pairHash h w, False) = (b, pairHash h b, False)"
      "b \<in> insert w (set ps)" "\<forall>q \<in> insert w (set ps). hash_beats h b q"
    using Cons.IH by blast
  then have "hash_beats h b p" "hash_beats h b best"
    using w hash_beats_trans by blast+
  with b w step show ?case by auto
qed

lemma Owner_best: "ps \<noteq> [] \<Longrightarrow> Owner h ps \<in> set ps \<and> (\<forall>p \<in> set ps. hash_beats h (Owner h ps) p)"
proof (cases ps)
  case (Cons p qs)
  then have "Owner h ps = fst (owner_loop h qs (p, pairHash h p, False))"
    by (simp add: Owner_def Let_def)
  with Cons owner_loop_best [of h qs p] show ?thesis by auto
qed simp

interpretation rv: rendezvous pairHash Owner
proof
  fix ps :: "string list" and h p :: string
  show "Owner h ps \<in> set ps" if "ps \<noteq> []"
    using that Owner_best by blast
  show "pairHash h p < pairHash h (Owner h ps)
      \<or> (pairHash h p = pairHash h (Owner h ps) \<and> Owner h ps \<le> p)" if "p \<in> set ps"
  proof -
    have "ps \<noteq> []" using that by auto
    then show ?thesis using that Owner_best [of ps h] by (auto simp: hash_beats_def)
  qed
qed

lemma Owns_normalized:
  assumes "self \<in> set peers" "distinct peers"
  shows "Owns hash self peers \<longleftrightarrow> Owner hash peers = self"
proof (cases "length peers \<le> 1")
  case True
  with assms(1) have "peers = [self]" by (cases peers) auto
  then have "Owner hash peers = self" using rv.pick_member [of peers hash] by simp
  with True show ?thesis by (simp add: Owns_def)
qed (simp add: Owns_def)

section \<open>Properties\<close>

lemma unique_owner:
  assumes "trim_space self \<noteq> []"
  shows "\<exists>!w. w \<in> set (normalizePeers ids self) \<and> Owns hash w (normalizePeers ids self)"
proof -
  let ?ps = "normalizePeers ids self"
  have "Owner hash ?ps \<in> set ?ps"
    using assms by (intro rv.pick_member normalizePeers_not_empty)
  then show ?thesis
    by (intro ex1I [of _ "Owner hash ?ps"]) (auto simp: Owns_normalized distinct_normalizePeers)
qed

text \<open>
  In every peer set \<open>normalizePeers\<close> returns for a worker with a non-blank identity, each
  metric hash is owned, in the sense of \<open>Owns\<close>, by exactly one peer of the set: no hash is
  published twice and none is left out.
\<close>

theorem one_owner_per_hash:
  assumes "trim_space self \<noteq> []"
  shows "\<exists>!w. w \<in> set (normalizePeers ids self) \<and> Owns hash w (normalizePeers ids self)"
  using assms by (rule unique_owner)

theorem one_owner_per_hash_witness:
  "\<exists>!w. w \<in> set (normalizePeers ['' b '', ''a''] ''c'') \<and> Owns ''m1'' w (normalizePeers ['' b '', ''a''] ''c'')"
  by (rule one_owner_per_hash) code_simp

text \<open>
  C20: Minimal movement: when the peer set changes by one peer (it joins or, read from right to left, it
  leaves), a hash either moves to or from that very peer or keeps its owner.
\<close>

theorem minimal_movement:
  assumes "set qs = insert p (set ps)" "ps \<noteq> []" "Owner hash qs \<noteq> p"
  shows "Owner hash qs = Owner hash ps"
  using rv.pick_join [OF assms(1,2)] assms(3) by blast

lemmas hash_eval = pairHash_def mix64_def fnvPrime64_def fnvOffset64_def byte_word_def Let_def

theorem minimal_movement_witness:
  "Owner ''abc'' [''w2'', ''w0'', ''w1''] = Owner ''abc'' [''w0'', ''w1'']"
proof (rule minimal_movement [of _ "''w2''"])
  show "Owner ''abc'' [''w2'', ''w0'', ''w1''] \<noteq> ''w2''"
    by (simp add: Owner_def hash_eval)
qed auto

text \<open>
  C21: The owner is the peer with the highest pair hash, ties going to the smaller identity, and it
  depends only on the set of peers, not on their order or multiplicity.
\<close>

theorem owner_is_argmax:
  assumes "ps \<noteq> []" "set qs = set ps"
  shows "Owner hash ps \<in> set ps \<and> (\<forall>p \<in> set ps. hash_beats hash (Owner hash ps) p)
    \<and> Owner hash qs = Owner hash ps"
  using Owner_best [OF assms(1)] rv.pick_set_cong [OF assms(2)] by auto

theorem owner_is_argmax_witness:
  "Owner ''abc'' [''w0'', ''w1''] \<in> {''w0'', ''w1''} \<and> Owner ''abc'' [''w1'', ''w0'', ''w1''] = Owner ''abc'' [''w0'', ''w1'']"
  using owner_is_argmax [of "[''w0'', ''w1'']" "[''w1'', ''w0'', ''w1'']" "''abc''"] by auto

text \<open>
  The finaliser \<open>mix64\<close> is a bijection on 64-bit words with the inverse \<open>unmix64\<close>, so it
  merges no two pair hashes.
\<close>

theorem mix64_bijective: "bij mix64 \<and> inv mix64 = unmix64"
proof -
  have "bij mix64"
    by (rule o_bij [of unmix64]) (simp_all add: fun_eq_iff unmix64_mix64 mix64_unmix64)
  moreover have "inv mix64 = unmix64"
    by (rule inv_equality) (simp_all add: unmix64_mix64 mix64_unmix64)
  ultimately show ?thesis ..
qed

text \<open>
  \<open>normalizePeers\<close> returns, in ascending order and without duplicates, exactly the trimmed
  non-blank identities of its argument and of the worker itself; the order in which the peers are
  listed does not matter.
\<close>

theorem normalizePeers_spec:
  "sorted (normalizePeers ids self) \<and> distinct (normalizePeers ids self)
   \<and> set (normalizePeers ids self) = trim_space ` (insert self (set ids)) - {[]}
   \<and> normalizePeers (rev ids) self = normalizePeers ids self"
  using normalizePeers_cong [of self ids self "rev ids"]
  by (simp add: sorted_normalizePeers distinct_normalizePeers set_normalizePeers)

end
