(* ===== verification/HostIdentity.thy ===== *)
theory HostIdentity imports Prelude
begin

text \<open>
  The worker's identity (\<open>ShardID\<close> and \<open>localIP\<close> in \<open>shard.go\<close>).
  The operating system is the argument: the interfaces \<open>net.Interfaces\<close> reports (or its
  error) and the result of \<open>os.Hostname\<close>. A \<open>net.IP\<close> is a list of 4 or 16 bytes,
  classified and printed as package \<open>net\<close> does.
\<close>

unbundle bit_operations_syntax

type_synonym ip = "8 word list"

datatype net_addr = IPNet ip | OtherAddr

record iface =
  flag_up :: bool
  flag_loopback :: bool
  iface_addrs :: "net_addr list option"

record host =
  host_ifaces :: "iface list option"
  host_name :: "string option"

section \<open>net.IP\<close>

definition To4 :: "ip \<Rightarrow> ip option" where
  "To4 a =
     (if length a = 4 then Some a
      else if length a = 16 \<and> take 12 a = replicate 10 0 @ [255, 255] then Some (drop 12 a)
      else None)"

definition IsLoopback :: "ip \<Rightarrow> bool" where
  "IsLoopback a = (case To4 a of Some v4 \<Rightarrow> hd v4 = 127 | None \<Rightarrow> a = replicate 15 0 @ [1])"

definition IsLinkLocalUnicast :: "ip \<Rightarrow> bool" where
  "IsLinkLocalUnicast a =
     (case To4 a of
        Some v4 \<Rightarrow> take 2 v4 = [169, 254]
      | None \<Rightarrow> length a = 16 \<and> hd a = 254 \<and> a ! 1 AND 192 = 128)"

definition IsLinkLocalMulticast :: "ip \<Rightarrow> bool" where
  "IsLinkLocalMulticast a =
     (case To4 a of
        Some v4 \<Rightarrow> take 3 v4 = [224, 0, 0]
      | None \<Rightarrow> length a = 16 \<and> hd a = 255 \<and> a ! 1 AND 15 = 2)"

definition hex_digit :: "nat \<Rightarrow> char" where
  "hex_digit n = (if n < 10 then char_of (48 + n) else char_of (87 + n))"

fun hex :: "nat \<Rightarrow> string" where
  "hex n = (if n < 16 then [hex_digit n] else hex (n div 16) @ [hex_digit (n mod 16)])"

declare hex.simps [simp del]

definition ipv4_text :: "ip \<Rightarrow> string" where
  "ipv4_text a = join_with ''.'' (map (\<lambda>b. digits (unat b)) a)"

fun groups16 :: "ip \<Rightarrow> nat list" where
  "groups16 (h # l # a) = (256 * unat h + unat l) # groups16 a"
| "groups16 a = []"

text \<open>
  The first longest run of at least two zero groups is printed as a double colon
  (\<open>netip.Addr.string6\<close>): \<open>zero_run\<close> is the run's start and length.
\<close>

definition zeros_at :: "nat list \<Rightarrow> nat \<Rightarrow> nat" where
  "zeros_at gs i = length (takeWhile (\<lambda>g. g = 0) (drop i gs))"

fun zero_run_loop :: "nat list \<Rightarrow> nat list \<Rightarrow> nat \<times> nat \<Rightarrow> nat \<times> nat" where
  "zero_run_loop gs [] best = best"
| "zero_run_loop gs (i # is) best =
     zero_run_loop gs is
       (if 2 \<le> zeros_at gs i \<and> snd best < zeros_at gs i then (i, zeros_at gs i) else best)"

definition ipv6_text :: "ip \<Rightarrow> string" where
  "ipv6_text a =
     (let gs = groups16 a; (i, n) = zero_run_loop gs [0..<8] (0, 0)
      in if n = 0 then join_with '':'' (map hex gs)
         else join_with '':'' (map hex (take i gs)) @ ''::'' @ join_with '':'' (map hex (drop (i + n) gs)))"

definition hex_byte :: "8 word \<Rightarrow> string" where
  "hex_byte b = [hex_digit (unat b div 16), hex_digit (unat b mod 16)]"

definition ip_text :: "ip \<Rightarrow> string" where
  "ip_text a =
     (if a = [] then ''<nil>''
      else if length a \<noteq> 4 \<and> length a \<noteq> 16 then ''?'' @ concat (map hex_byte a)
      else case To4 a of Some v4 \<Rightarrow> ipv4_text v4 | None \<Rightarrow> ipv6_text a)"

section \<open>localIP and ShardID\<close>

text \<open>
  The inner loop over the addresses of one interface: \<open>Inl\<close> is the \<open>return\<close> of an IPv4
  address, \<open>Inr\<close> the fallback carried on.
\<close>

fun scan_addrs :: "net_addr list \<Rightarrow> string \<Rightarrow> string + string" where
  "scan_addrs [] fallback = Inr fallback"
| "scan_addrs (OtherAddr # as) fallback = scan_addrs as fallback"
| "scan_addrs (IPNet a # as) fallback =
     (if IsLoopback a \<or> IsLinkLocalUnicast a \<or> IsLinkLocalMulticast a then scan_addrs as fallback
      else case To4 a of
             Some v4 \<Rightarrow> Inl (ip_text v4)
           | None \<Rightarrow> scan_addrs as (if fallback = [] then ip_text a else fallback))"

fun scan_ifaces :: "iface list \<Rightarrow> string \<Rightarrow> string" where
  "scan_ifaces [] fallback = fallback"
| "scan_ifaces (i # is) fallback =
     (if \<not> flag_up i \<or> flag_loopback i then scan_ifaces is fallback
      else case iface_addrs i of
             None \<Rightarrow> scan_ifaces is fallback
           | Some as \<Rightarrow>
               (case scan_addrs as fallback of
                  Inl v4 \<Rightarrow> v4
                | Inr fallback' \<Rightarrow> scan_ifaces is fallback'))"

definition localIP :: "host \<Rightarrow> string" where
  "localIP h = (case host_ifaces h of None \<Rightarrow> [] | Some is \<Rightarrow> scan_ifaces is [])"

definition shardID :: "host \<Rightarrow> string \<Rightarrow> string" where
  "shardID h explicit =
     (let v = trim_space explicit in
      if v \<noteq> [] then v
      else if localIP h \<noteq> [] then localIP h
      else case host_name h of
             Some n \<Rightarrow> if trim_space n \<noteq> [] then n else ''worker''
           | None \<Rightarrow> ''worker'')"

section \<open>Lemmas\<close>

lemma graphic_hex_digit: "n < 16 \<Longrightarrow> graphic (hex_digit n)"
  by (simp add: graphic_def hex_digit_def)

lemma graphic_hex: "list_all graphic (hex n)"
  by (induction n rule: hex.induct) (subst hex.simps, simp add: graphic_hex_digit)

lemma graphic_join:
  "list_all graphic sep \<Longrightarrow> \<forall>x \<in> set xs. list_all graphic x \<Longrightarrow> list_all graphic (join_with sep xs)"
  by (induction sep xs rule: join_with.induct) auto

lemma graphic_ip_text: "list_all graphic (ip_text a)"
proof -
  have v4: "list_all graphic (ipv4_text b)" for b
    unfolding ipv4_text_def by (rule graphic_join) (auto simp: graphic_digits graphic_def)
  have v6: "list_all graphic (ipv6_text b)" for b
    unfolding ipv6_text_def Let_def
    by (auto split: prod.split intro!: graphic_join simp: graphic_hex) (auto simp: graphic_def)
  have h: "list_all graphic (hex_byte b)" for b
  proof -
    have "unat b < 2 ^ LENGTH(8)" by (rule unsigned_less)
    then have "unat b div 16 < 16" by simp
    then show ?thesis by (simp add: hex_byte_def graphic_hex_digit)
  qed
  have hs: "list_all graphic (concat (map hex_byte bs))" for bs
    by (induction bs) (simp_all add: h)
  have "list_all graphic ''<nil>''" "graphic (CHR ''?'')"
    by (simp_all add: graphic_def)
  with v4 v6 hs show ?thesis by (simp add: ip_text_def split: option.split)
qed

lemma graphic_localIP: "list_all graphic (localIP h)"
proof -
  have addrs: "list_all graphic f \<Longrightarrow>
      (case scan_addrs as f of Inl s \<Rightarrow> list_all graphic s | Inr s \<Rightarrow> list_all graphic s)" for as f
    by (induction as f rule: scan_addrs.induct) (auto simp: graphic_ip_text split: option.splits)
  have "list_all graphic f \<Longrightarrow> list_all graphic (scan_ifaces is f)" for "is" f
  proof (induction "is" arbitrary: f)
    case (Cons i "is")
    show ?case
    proof (cases "flag_up i \<and> \<not> flag_loopback i \<and> iface_addrs i \<noteq> None")
      case True
      then obtain as where as: "iface_addrs i = Some as" by blast
      from addrs [OF Cons.prems, of as] Cons.IH True as show ?thesis
        by (auto split: sum.splits)
    next
      case False
      with Cons show ?thesis by (auto split: option.split)
    qed
  qed simp
  then show ?thesis by (simp add: localIP_def split: option.split)
qed

lemma shardID_not_blank: "trim_space (shardID h explicit) \<noteq> []"
proof -
  have "trim_space (localIP h) = localIP h" and "trim_space ''worker'' = ''worker''"
    by (rule trim_graphic, rule graphic_localIP) (rule trim_graphic, simp add: graphic_def)
  then show ?thesis by (auto simp: shardID_def Let_def split: option.split)
qed

end
