(* ===== verification/Config.thy ===== *)
theory Config imports Prelude
begin

text \<open>
  Configuration (\<open>config.go\<close>): the \<open>Config\<close> struct, \<open>Validate\<close>,
  \<open>normalized\<close>, the claim lease \<open>workLease\<close> and the retry backoff
  \<open>retryDelay\<close>, with every duration sum and product wrapped to 64 bits.

  Two library calls are parameters: \<open>cron_parse\<close> is \<open>cronv3.ParseStandard\<close>, whose
  schedules are represented by their \<open>Next\<close> function of a time zone and an instant, and \<open>url_parse\<close> is
  \<open>url.Parse\<close> reduced to the scheme and the host of an accepted URL.
\<close>

record Config =
  DruidBroker :: string
  DruidDatasource :: string
  KafkaBrokers :: "string list"
  KafkaTopic :: string
  Lookback :: duration
  AheadMinutes :: int
  Interval :: duration
  Calendar :: string
  DruidMaxRange :: duration
  DruidTimeout :: duration
  DruidRetries :: int
  DruidMaxRPS :: int
  DruidMaxInflight :: int
  DruidAuthHeader :: string
  DruidAuthValue :: string
  HashScanTTL :: duration
  ScanRange :: duration
  TrainConcurrency :: int
  SnapshotCacheTTL :: duration
  RetrainRetry :: duration
  RetrainLease :: duration
  RetrainRetryMax :: duration
  WorkerTTL :: duration
  DefaultRetrainCron :: string
  StoreDSN :: string
  SnapshotTTL :: duration
  StaleAfter :: duration
  ShardID :: string
  ShardPeers :: "string list"
  ShardDNS :: string
  ShardMembership :: string
  LogLevel :: string

section \<open>Defaults\<close>

definition defaultLookback :: duration where "defaultLookback = 336 * hour"
definition defaultAheadMinutes :: int where "defaultAheadMinutes = 1"
definition defaultInterval :: duration where "defaultInterval = minute"
definition maxAheadMinutes :: int where "maxAheadMinutes = 10080"
definition defaultDatasource :: string where "defaultDatasource = ''metrics''"
definition defaultTopic :: string where "defaultTopic = ''baselines''"
definition defaultDruidTimeout :: duration where "defaultDruidTimeout = 60 * second"
definition defaultDruidRetries :: int where "defaultDruidRetries = 2"
definition defaultDruidRPS :: int where "defaultDruidRPS = 4"
definition defaultDruidInflight :: int where "defaultDruidInflight = 4"
definition defaultHashScanTTL :: duration where "defaultHashScanTTL = 5 * minute"
definition defaultTrainConcurrency :: int where "defaultTrainConcurrency = 2"
definition defaultSnapshotCacheTTL :: duration where "defaultSnapshotCacheTTL = 60 * second"
definition defaultWorkerTTL :: duration where "defaultWorkerTTL = 30 * second"
definition defaultRetrainCron :: string where "defaultRetrainCron = ''0 3 * * *''"
definition defaultRetrainRetry :: duration where "defaultRetrainRetry = 5 * minute"
definition defaultRetrainRetryMax :: duration where "defaultRetrainRetryMax = hour"
definition defaultSnapshotTTL :: duration where "defaultSnapshotTTL = 72 * hour"
definition defaultStaleAfter :: duration where "defaultStaleAfter = 24 * hour"

lemmas default_defs =
  defaultDruidTimeout_def defaultDruidInflight_def defaultHashScanTTL_def
  defaultTrainConcurrency_def defaultSnapshotCacheTTL_def defaultWorkerTTL_def
  defaultRetrainCron_def defaultRetrainRetry_def defaultRetrainRetryMax_def

section \<open>Lease and backoff\<close>

definition retryBase :: "Config \<Rightarrow> duration" where
  "retryBase c = (if RetrainRetry c \<le> 0 then defaultRetrainRetry else RetrainRetry c)"

definition work_slices :: "Config \<Rightarrow> int" where
  "work_slices c =
     (if 0 < DruidMaxRange c \<and> 0 < Lookback c
      then let slices = go_div (i64 (i64 (Lookback c + DruidMaxRange c) - 1)) (DruidMaxRange c)
           in if slices < 1 then 1 else slices
      else 1)"

definition workLease :: "Config \<Rightarrow> duration" where
  "workLease c =
     (let lease = i64 (i64 (work_slices c * DruidTimeout c) + minute);
          base = retryBase c
      in if lease < base then base else lease)"

fun retry_loop :: "nat \<Rightarrow> duration \<Rightarrow> duration \<Rightarrow> duration" where
  "retry_loop 0 mx d = (if mx < d then mx else d)"
| "retry_loop (Suc n) mx d =
     (let d = i64 (d * 2) in if d \<le> 0 \<or> mx \<le> d then mx else retry_loop n mx d)"

definition retryDelay :: "duration \<Rightarrow> duration \<Rightarrow> int \<Rightarrow> duration" where
  "retryDelay base mx attempt =
     (let attempt = (if attempt < 1 then 1 else attempt)
      in retry_loop (nat (attempt - 1)) mx base)"

section \<open>normalized\<close>

text \<open>
  The first nine conditional assignments read only the field they default and fields no
  assignment changes, so they are one record update; the cap, the lease and the cron follow.
\<close>

definition or_default :: "int \<Rightarrow> int \<Rightarrow> int" where
  "or_default v d = (if v \<le> 0 then d else v)"

definition norm_defaults :: "Config \<Rightarrow> Config" where
  "norm_defaults c = c
     \<lparr>DruidTimeout := or_default (DruidTimeout c) defaultDruidTimeout,
      DruidMaxInflight := or_default (DruidMaxInflight c) defaultDruidInflight,
      HashScanTTL := or_default (HashScanTTL c) defaultHashScanTTL,
      ScanRange := or_default (ScanRange c) (max (i64 (2 * Lookback c)) (24 * hour)),
      TrainConcurrency := or_default (TrainConcurrency c) defaultTrainConcurrency,
      SnapshotCacheTTL := or_default (SnapshotCacheTTL c) defaultSnapshotCacheTTL,
      WorkerTTL := or_default (WorkerTTL c) (max defaultWorkerTTL (i64 (2 * Interval c))),
      RetrainRetry := or_default (RetrainRetry c) defaultRetrainRetry,
      RetrainRetryMax := or_default (RetrainRetryMax c) defaultRetrainRetryMax\<rparr>"

definition norm_cap :: "Config \<Rightarrow> Config" where
  "norm_cap c = (if RetrainRetryMax c \<le> RetrainRetry c
                 then c\<lparr>RetrainRetryMax := i64 (2 * RetrainRetry c)\<rparr> else c)"

definition norm_lease :: "Config \<Rightarrow> Config" where
  "norm_lease c = (if RetrainLease c \<le> 0 then c\<lparr>RetrainLease := workLease c\<rparr> else c)"

definition norm_cron :: "Config \<Rightarrow> Config" where
  "norm_cron c = (if DefaultRetrainCron c = [] then c\<lparr>DefaultRetrainCron := defaultRetrainCron\<rparr> else c)"

definition normalized :: "Config \<Rightarrow> Config" where
  "normalized c = norm_cron (norm_lease (norm_cap (norm_defaults c)))"

section \<open>Validate\<close>

datatype config_error =
    BrokerRequired | BrokerNotAbsolute | BadDatasource | BrokersRequired | TopicRequired
  | LookbackTooShort | AheadOutOfRange | IntervalTooShort | MaxRangeNegative | MaxRangeTooShort
  | RetriesNegative | RPSNegative | ScanRangeTooShort duration | ConcurrencyTooSmall
  | LeaseNegative | RetryMaxTooShort duration | WorkerTTLTooShort | CronInvalid go_err
  | SnapshotTTLBelowGap duration duration | SnapshotTTLTooShort | StaleAfterNegative
  | StaleAfterTooShort duration duration | BadLogLevel | PeersAndDNS | StoreRequired
  | BadMembership

type_synonym schedule = "string \<Rightarrow> instant \<Rightarrow> instant"
type_synonym cron_parser = "string \<Rightarrow> go_err + schedule"
type_synonym url_parser = "string \<Rightarrow> (string \<times> string) option"

text \<open>The regular expression \<open>^[A-Za-z0-9_]+$\<close>.\<close>

definition datasource_char :: "char \<Rightarrow> bool" where
  "datasource_char c \<longleftrightarrow>
     (CHR ''A'' \<le> c \<and> c \<le> CHR ''Z'') \<or> (CHR ''a'' \<le> c \<and> c \<le> CHR ''z'')
     \<or> (CHR ''0'' \<le> c \<and> c \<le> CHR ''9'') \<or> c = CHR ''_''"

definition datasourceName :: "string \<Rightarrow> bool" where
  "datasourceName s \<longleftrightarrow> s \<noteq> [] \<and> list_all datasource_char s"

text \<open>
  Each check is a function from the configuration to the error it returns, and
  \<open>Validate\<close> returns the first error in the order of the source.
\<close>

definition guard_err :: "bool \<Rightarrow> config_error \<Rightarrow> config_error option" where
  "guard_err bad e = (if bad then Some e else None)"

fun first_error :: "config_error option list \<Rightarrow> config_error option" where
  "first_error [] = None"
| "first_error (None # es) = first_error es"
| "first_error (Some e # es) = Some e"

definition check_broker :: "url_parser \<Rightarrow> Config \<Rightarrow> config_error option" where
  "check_broker url_parse c =
     (if trim_space (DruidBroker c) = [] then Some BrokerRequired
      else case url_parse (DruidBroker c) of
             None \<Rightarrow> Some BrokerNotAbsolute
           | Some (sch, host) \<Rightarrow> guard_err (sch = [] \<or> host = []) BrokerNotAbsolute)"

definition check_workerTTL :: "Config \<Rightarrow> config_error option" where
  "check_workerTTL c =
     (let ttl = WorkerTTL c;
          ttl = (if ttl \<le> 0 then max defaultWorkerTTL (i64 (2 * Interval c)) else ttl)
      in guard_err (ttl \<le> Interval c) WorkerTTLTooShort)"

definition check_cron :: "cron_parser \<Rightarrow> instant \<Rightarrow> Config \<Rightarrow> config_error option" where
  "check_cron cron_parse now c =
     (if DefaultRetrainCron c \<noteq> []
      then case cron_parse (DefaultRetrainCron c) of
             Inl e \<Rightarrow> Some (CronInvalid e)
           | Inr sched \<Rightarrow>
               (if 0 < SnapshotTTL c
                then let nxt = sched ''Local'' now; gap = time_sub (sched ''Local'' nxt) nxt
                     in guard_err (SnapshotTTL c \<le> gap) (SnapshotTTLBelowGap (SnapshotTTL c) gap)
                else None)
      else None)"

definition check_staleAfter :: "Config \<Rightarrow> config_error option" where
  "check_staleAfter c =
     (if StaleAfter c < 0 then Some StaleAfterNegative
      else if 0 < StaleAfter c
      then let scanTTL = HashScanTTL c;
               scanTTL = (if scanTTL \<le> 0 then defaultHashScanTTL else scanTTL);
               mn = i64 (scanTTL + Interval c)
           in guard_err (StaleAfter c < mn) (StaleAfterTooShort (StaleAfter c) mn)
      else None)"

definition check_membership :: "Config \<Rightarrow> config_error option" where
  "check_membership c =
     (if ShardMembership c \<in> {'''', ''auto'', ''peers'', ''dns''} then None
      else if ShardMembership c = ''store''
      then guard_err (StoreDSN c = []) StoreRequired
      else Some BadMembership)"

definition Validate :: "url_parser \<Rightarrow> cron_parser \<Rightarrow> instant \<Rightarrow> Config \<Rightarrow> config_error option" where
  "Validate url_parse cron_parse now c = first_error
     [check_broker url_parse c,
      guard_err (\<not> datasourceName (DruidDatasource c)) BadDatasource,
      guard_err (KafkaBrokers c = []) BrokersRequired,
      guard_err (KafkaTopic c = []) TopicRequired,
      guard_err (Lookback c < minute) LookbackTooShort,
      guard_err (AheadMinutes c < 1 \<or> maxAheadMinutes < AheadMinutes c) AheadOutOfRange,
      guard_err (Interval c < second) IntervalTooShort,
      guard_err (DruidMaxRange c < 0) MaxRangeNegative,
      guard_err (0 < DruidMaxRange c \<and> DruidMaxRange c < minute) MaxRangeTooShort,
      guard_err (DruidRetries c < 0) RetriesNegative,
      guard_err (DruidMaxRPS c < 0) RPSNegative,
      guard_err (0 < ScanRange c \<and> ScanRange c < i64 (Lookback c + i64 (2 * Interval c)))
        (ScanRangeTooShort (i64 (Lookback c + i64 (2 * Interval c)))),
      guard_err (TrainConcurrency c < 1) ConcurrencyTooSmall,
      guard_err (RetrainLease c < 0) LeaseNegative,
      guard_err (0 < RetrainRetryMax c \<and> RetrainRetryMax c \<le> retryBase c)
        (RetryMaxTooShort (retryBase c)),
      check_workerTTL c,
      check_cron cron_parse now c,
      guard_err (0 < SnapshotTTL c \<and> SnapshotTTL c < hour) SnapshotTTLTooShort,
      check_staleAfter c,
      guard_err (LogLevel c \<noteq> [] \<and> LogLevel c \<noteq> ''info'' \<and> LogLevel c \<noteq> ''debug'') BadLogLevel,
      guard_err (ShardPeers c \<noteq> [] \<and> ShardDNS c \<noteq> []) PeersAndDNS,
      check_membership c]"

datatype log_level = LevelDebug | LevelInfo

definition SlogLevel :: "Config \<Rightarrow> log_level" where
  "SlogLevel c = (if LogLevel c = ''debug'' then LevelDebug else LevelInfo)"

text \<open>A comma-separated list: trimmed pieces, blank ones dropped.\<close>

definition splitList :: "string \<Rightarrow> string list" where
  "splitList s = filter (\<lambda>p. p \<noteq> []) (map trim_space (split_on (CHR '','') s))"

section \<open>Lemmas: the backoff\<close>

lemma i64_double: "0 < d \<Longrightarrow> in64 d \<Longrightarrow> i64 (d * 2) = (if d * 2 \<le> max64 then d * 2 else d * 2 - 2 ^ 64)"
  by (auto simp: i64_overflow in64_def max64_def min64_def)

lemma retry_loop_closed:
  "0 < d \<Longrightarrow> in64 d \<Longrightarrow> 0 < mx \<Longrightarrow> in64 mx \<Longrightarrow> retry_loop n mx d = min mx (d * 2 ^ n)"
proof (induction n arbitrary: d)
  case (Suc n)
  have grow: "d * 2 \<le> d * 2 ^ Suc n"
    using Suc.prems(1) by simp
  show ?case
  proof (cases "d * 2 \<le> max64 \<and> d * 2 < mx")
    case True
    then have fits: "i64 (d * 2) = d * 2" "in64 (d * 2)"
      using Suc.prems by (auto simp: i64_double in64_def max64_def min64_def)
    with Suc.IH [of "d * 2"] Suc.prems True show ?thesis
      by (simp add: Let_def mult.assoc)
  next
    case False
    then have "mx \<le> d * 2" using Suc.prems(4) by (auto simp: in64_def)
    with grow have "min mx (d * 2 ^ Suc n) = mx" by linarith
    moreover have "i64 (d * 2) \<le> 0 \<or> mx \<le> i64 (d * 2)"
      using False Suc.prems by (auto simp: i64_double in64_def max64_def min64_def)
    ultimately show ?thesis by (simp add: Let_def)
  qed
qed simp

lemma retryDelay_closed:
  "0 < base \<Longrightarrow> in64 base \<Longrightarrow> 0 < mx \<Longrightarrow> in64 mx
   \<Longrightarrow> retryDelay base mx attempt = min mx (base * 2 ^ nat (attempt - 1))"
  by (simp add: retryDelay_def retry_loop_closed Let_def)

lemma retryDelay_at_most: "retryDelay base mx attempt \<le> mx"
proof -
  have "retry_loop n mx d \<le> mx" for n d
    by (induction n arbitrary: d) (auto simp: Let_def)
  then show ?thesis by (simp add: retryDelay_def Let_def)
qed

section \<open>Lemmas: the lease\<close>

lemma work_slices_ceil:
  assumes "0 < DruidMaxRange c" "0 < Lookback c" "in64 (Lookback c + DruidMaxRange c)"
  shows "Lookback c \<le> work_slices c * DruidMaxRange c"
    and "(work_slices c - 1) * DruidMaxRange c < Lookback c"
proof -
  have "in64 (Lookback c + DruidMaxRange c - 1)"
    using assms by (auto simp: in64_def min64_def)
  then have raw: "go_div (i64 (i64 (Lookback c + DruidMaxRange c) - 1)) (DruidMaxRange c)
      = (Lookback c + DruidMaxRange c - 1) div DruidMaxRange c"
    using assms by (simp add: go_div_nonneg)
  have "1 \<le> (Lookback c + DruidMaxRange c - 1) div DruidMaxRange c"
    using assms by (simp add: pos_imp_zdiv_pos_iff int_one_le_iff_zero_less)
  then have "work_slices c = (Lookback c + DruidMaxRange c - 1) div DruidMaxRange c"
    using assms raw by (simp add: work_slices_def Let_def)
  then show "Lookback c \<le> work_slices c * DruidMaxRange c"
    and "(work_slices c - 1) * DruidMaxRange c < Lookback c"
    using ceil_div_bounds [OF assms(1)] by simp_all
qed

lemma work_slices_pos: "1 \<le> work_slices c"
  by (simp add: work_slices_def Let_def)

lemma retryBase_pos: "0 < retryBase c"
  by (simp add: retryBase_def defaultRetrainRetry_def minute_def)

lemma workLease_ge_base: "retryBase c \<le> workLease c"
  by (simp add: workLease_def Let_def)

lemma workLease_pos: "0 < workLease c"
  using retryBase_pos [of c] workLease_ge_base [of c] by linarith

lemma workLease_exact:
  assumes "in64 (work_slices c * DruidTimeout c)" "in64 (work_slices c * DruidTimeout c + minute)"
  shows "workLease c = max (retryBase c) (work_slices c * DruidTimeout c + minute)"
  using assms by (simp add: workLease_def Let_def)

section \<open>Lemmas: normalized\<close>

lemma or_default_pos: "0 < d \<Longrightarrow> 0 < or_default v d"
  by (simp add: or_default_def)

lemma or_default_id [simp]: "0 < v \<Longrightarrow> or_default v d = v"
  by (simp add: or_default_def)

lemma norm_cron_kept [simp]:
  "DruidTimeout (norm_cron c) = DruidTimeout c"
  "DruidMaxInflight (norm_cron c) = DruidMaxInflight c"
  "HashScanTTL (norm_cron c) = HashScanTTL c"
  "ScanRange (norm_cron c) = ScanRange c"
  "TrainConcurrency (norm_cron c) = TrainConcurrency c"
  "SnapshotCacheTTL (norm_cron c) = SnapshotCacheTTL c"
  "WorkerTTL (norm_cron c) = WorkerTTL c"
  "RetrainRetry (norm_cron c) = RetrainRetry c"
  "RetrainRetryMax (norm_cron c) = RetrainRetryMax c"
  "RetrainLease (norm_cron c) = RetrainLease c"
  "Lookback (norm_cron c) = Lookback c"
  "Interval (norm_cron c) = Interval c"
  "AheadMinutes (norm_cron c) = AheadMinutes c"
  "DruidMaxRange (norm_cron c) = DruidMaxRange c"
  "DruidRetries (norm_cron c) = DruidRetries c"
  "DruidMaxRPS (norm_cron c) = DruidMaxRPS c"
  "SnapshotTTL (norm_cron c) = SnapshotTTL c"
  "StaleAfter (norm_cron c) = StaleAfter c"
  "LogLevel (norm_cron c) = LogLevel c"
  "ShardMembership (norm_cron c) = ShardMembership c"
  "ShardPeers (norm_cron c) = ShardPeers c"
  "ShardDNS (norm_cron c) = ShardDNS c"
  "ShardID (norm_cron c) = ShardID c"
  "StoreDSN (norm_cron c) = StoreDSN c"
  "DruidBroker (norm_cron c) = DruidBroker c"
  "DruidDatasource (norm_cron c) = DruidDatasource c"
  "KafkaBrokers (norm_cron c) = KafkaBrokers c"
  "KafkaTopic (norm_cron c) = KafkaTopic c"
  "Calendar (norm_cron c) = Calendar c"
  "DruidAuthHeader (norm_cron c) = DruidAuthHeader c"
  "DruidAuthValue (norm_cron c) = DruidAuthValue c"
  by (simp_all add: norm_cron_def)

lemma norm_lease_kept [simp]:
  "DruidTimeout (norm_lease c) = DruidTimeout c"
  "DruidMaxInflight (norm_lease c) = DruidMaxInflight c"
  "HashScanTTL (norm_lease c) = HashScanTTL c"
  "ScanRange (norm_lease c) = ScanRange c"
  "TrainConcurrency (norm_lease c) = TrainConcurrency c"
  "SnapshotCacheTTL (norm_lease c) = SnapshotCacheTTL c"
  "WorkerTTL (norm_lease c) = WorkerTTL c"
  "RetrainRetry (norm_lease c) = RetrainRetry c"
  "RetrainRetryMax (norm_lease c) = RetrainRetryMax c"
  "DefaultRetrainCron (norm_lease c) = DefaultRetrainCron c"
  "Lookback (norm_lease c) = Lookback c"
  "Interval (norm_lease c) = Interval c"
  "AheadMinutes (norm_lease c) = AheadMinutes c"
  "DruidMaxRange (norm_lease c) = DruidMaxRange c"
  "DruidRetries (norm_lease c) = DruidRetries c"
  "DruidMaxRPS (norm_lease c) = DruidMaxRPS c"
  "SnapshotTTL (norm_lease c) = SnapshotTTL c"
  "StaleAfter (norm_lease c) = StaleAfter c"
  "LogLevel (norm_lease c) = LogLevel c"
  "ShardMembership (norm_lease c) = ShardMembership c"
  "ShardPeers (norm_lease c) = ShardPeers c"
  "ShardDNS (norm_lease c) = ShardDNS c"
  "ShardID (norm_lease c) = ShardID c"
  "StoreDSN (norm_lease c) = StoreDSN c"
  "DruidBroker (norm_lease c) = DruidBroker c"
  "DruidDatasource (norm_lease c) = DruidDatasource c"
  "KafkaBrokers (norm_lease c) = KafkaBrokers c"
  "KafkaTopic (norm_lease c) = KafkaTopic c"
  "Calendar (norm_lease c) = Calendar c"
  "DruidAuthHeader (norm_lease c) = DruidAuthHeader c"
  "DruidAuthValue (norm_lease c) = DruidAuthValue c"
  by (simp_all add: norm_lease_def)

lemma norm_cap_kept [simp]:
  "DruidTimeout (norm_cap c) = DruidTimeout c"
  "DruidMaxInflight (norm_cap c) = DruidMaxInflight c"
  "HashScanTTL (norm_cap c) = HashScanTTL c"
  "ScanRange (norm_cap c) = ScanRange c"
  "TrainConcurrency (norm_cap c) = TrainConcurrency c"
  "SnapshotCacheTTL (norm_cap c) = SnapshotCacheTTL c"
  "WorkerTTL (norm_cap c) = WorkerTTL c"
  "RetrainRetry (norm_cap c) = RetrainRetry c"
  "RetrainLease (norm_cap c) = RetrainLease c"
  "DefaultRetrainCron (norm_cap c) = DefaultRetrainCron c"
  "Lookback (norm_cap c) = Lookback c"
  "Interval (norm_cap c) = Interval c"
  "AheadMinutes (norm_cap c) = AheadMinutes c"
  "DruidMaxRange (norm_cap c) = DruidMaxRange c"
  "DruidRetries (norm_cap c) = DruidRetries c"
  "DruidMaxRPS (norm_cap c) = DruidMaxRPS c"
  "SnapshotTTL (norm_cap c) = SnapshotTTL c"
  "StaleAfter (norm_cap c) = StaleAfter c"
  "LogLevel (norm_cap c) = LogLevel c"
  "ShardMembership (norm_cap c) = ShardMembership c"
  "ShardPeers (norm_cap c) = ShardPeers c"
  "ShardDNS (norm_cap c) = ShardDNS c"
  "ShardID (norm_cap c) = ShardID c"
  "StoreDSN (norm_cap c) = StoreDSN c"
  "DruidBroker (norm_cap c) = DruidBroker c"
  "DruidDatasource (norm_cap c) = DruidDatasource c"
  "KafkaBrokers (norm_cap c) = KafkaBrokers c"
  "KafkaTopic (norm_cap c) = KafkaTopic c"
  "Calendar (norm_cap c) = Calendar c"
  "DruidAuthHeader (norm_cap c) = DruidAuthHeader c"
  "DruidAuthValue (norm_cap c) = DruidAuthValue c"
  by (simp_all add: norm_cap_def)

lemma norm_defaults_kept [simp]:
  "RetrainLease (norm_defaults c) = RetrainLease c"
  "DefaultRetrainCron (norm_defaults c) = DefaultRetrainCron c"
  "Lookback (norm_defaults c) = Lookback c"
  "Interval (norm_defaults c) = Interval c"
  "AheadMinutes (norm_defaults c) = AheadMinutes c"
  "DruidMaxRange (norm_defaults c) = DruidMaxRange c"
  "DruidRetries (norm_defaults c) = DruidRetries c"
  "DruidMaxRPS (norm_defaults c) = DruidMaxRPS c"
  "SnapshotTTL (norm_defaults c) = SnapshotTTL c"
  "StaleAfter (norm_defaults c) = StaleAfter c"
  "LogLevel (norm_defaults c) = LogLevel c"
  "ShardMembership (norm_defaults c) = ShardMembership c"
  "ShardPeers (norm_defaults c) = ShardPeers c"
  "ShardDNS (norm_defaults c) = ShardDNS c"
  "ShardID (norm_defaults c) = ShardID c"
  "StoreDSN (norm_defaults c) = StoreDSN c"
  "DruidBroker (norm_defaults c) = DruidBroker c"
  "DruidDatasource (norm_defaults c) = DruidDatasource c"
  "KafkaBrokers (norm_defaults c) = KafkaBrokers c"
  "KafkaTopic (norm_defaults c) = KafkaTopic c"
  "Calendar (norm_defaults c) = Calendar c"
  "DruidAuthHeader (norm_defaults c) = DruidAuthHeader c"
  "DruidAuthValue (norm_defaults c) = DruidAuthValue c"
  by (simp_all add: norm_defaults_def)

lemma norm_defaults_fields [simp]:
  "DruidTimeout (norm_defaults c) = or_default (DruidTimeout c) defaultDruidTimeout"
  "DruidMaxInflight (norm_defaults c) = or_default (DruidMaxInflight c) defaultDruidInflight"
  "HashScanTTL (norm_defaults c) = or_default (HashScanTTL c) defaultHashScanTTL"
  "ScanRange (norm_defaults c) = or_default (ScanRange c) (max (i64 (2 * Lookback c)) (24 * hour))"
  "TrainConcurrency (norm_defaults c) = or_default (TrainConcurrency c) defaultTrainConcurrency"
  "SnapshotCacheTTL (norm_defaults c) = or_default (SnapshotCacheTTL c) defaultSnapshotCacheTTL"
  "WorkerTTL (norm_defaults c) = or_default (WorkerTTL c) (max defaultWorkerTTL (i64 (2 * Interval c)))"
  "RetrainRetry (norm_defaults c) = or_default (RetrainRetry c) defaultRetrainRetry"
  "RetrainRetryMax (norm_defaults c) = or_default (RetrainRetryMax c) defaultRetrainRetryMax"
  by (simp_all add: norm_defaults_def)

lemma workLease_cong:
  "DruidMaxRange c = DruidMaxRange d \<Longrightarrow> Lookback c = Lookback d \<Longrightarrow> DruidTimeout c = DruidTimeout d
   \<Longrightarrow> RetrainRetry c = RetrainRetry d \<Longrightarrow> workLease c = workLease d"
  by (simp add: workLease_def work_slices_def retryBase_def)

lemma normalized_kept [simp]:
  "Lookback (normalized c) = Lookback c"
  "Interval (normalized c) = Interval c"
  "AheadMinutes (normalized c) = AheadMinutes c"
  "DruidMaxRange (normalized c) = DruidMaxRange c"
  "DruidRetries (normalized c) = DruidRetries c"
  "DruidMaxRPS (normalized c) = DruidMaxRPS c"
  "SnapshotTTL (normalized c) = SnapshotTTL c"
  "StaleAfter (normalized c) = StaleAfter c"
  "LogLevel (normalized c) = LogLevel c"
  "ShardMembership (normalized c) = ShardMembership c"
  "ShardPeers (normalized c) = ShardPeers c"
  "ShardDNS (normalized c) = ShardDNS c"
  "ShardID (normalized c) = ShardID c"
  "StoreDSN (normalized c) = StoreDSN c"
  "DruidBroker (normalized c) = DruidBroker c"
  "DruidDatasource (normalized c) = DruidDatasource c"
  "KafkaBrokers (normalized c) = KafkaBrokers c"
  "KafkaTopic (normalized c) = KafkaTopic c"
  "Calendar (normalized c) = Calendar c"
  "DruidAuthHeader (normalized c) = DruidAuthHeader c"
  "DruidAuthValue (normalized c) = DruidAuthValue c"
  by (simp_all add: normalized_def)

lemma normalized_fields:
  "DruidTimeout (normalized c) = or_default (DruidTimeout c) defaultDruidTimeout"
  "DruidMaxInflight (normalized c) = or_default (DruidMaxInflight c) defaultDruidInflight"
  "HashScanTTL (normalized c) = or_default (HashScanTTL c) defaultHashScanTTL"
  "ScanRange (normalized c) = or_default (ScanRange c) (max (i64 (2 * Lookback c)) (24 * hour))"
  "TrainConcurrency (normalized c) = or_default (TrainConcurrency c) defaultTrainConcurrency"
  "SnapshotCacheTTL (normalized c) = or_default (SnapshotCacheTTL c) defaultSnapshotCacheTTL"
  "WorkerTTL (normalized c) = or_default (WorkerTTL c) (max defaultWorkerTTL (i64 (2 * Interval c)))"
  "RetrainRetry (normalized c) = or_default (RetrainRetry c) defaultRetrainRetry"
  "DefaultRetrainCron (normalized c)
     = (if DefaultRetrainCron c = [] then defaultRetrainCron else DefaultRetrainCron c)"
  by (simp_all add: normalized_def norm_cron_def [of "norm_lease _"])

lemma normalized_retryMax:
  "RetrainRetryMax (normalized c) =
     (if or_default (RetrainRetryMax c) defaultRetrainRetryMax \<le> RetrainRetry (normalized c)
      then i64 (2 * RetrainRetry (normalized c))
      else or_default (RetrainRetryMax c) defaultRetrainRetryMax)"
  by (simp add: normalized_def norm_cap_def [of "norm_defaults c"])

lemma normalized_lease:
  "RetrainLease (normalized c) = (if RetrainLease c \<le> 0 then workLease (normalized c) else RetrainLease c)"
proof -
  have "workLease (norm_cap (norm_defaults c)) = workLease (normalized c)"
    by (rule workLease_cong) (simp_all add: normalized_fields)
  moreover have "RetrainLease (normalized c)
      = (if RetrainLease c \<le> 0 then workLease (norm_cap (norm_defaults c)) else RetrainLease c)"
    by (simp add: normalized_def norm_lease_def)
  ultimately show ?thesis by simp
qed

lemmas normalized_simps = normalized_fields normalized_retryMax normalized_lease

section \<open>Lemmas: Validate\<close>

lemma first_error_None: "first_error es = None \<longleftrightarrow> (\<forall>e \<in> set es. e = None)"
  by (induction es rule: first_error.induct) auto

lemma guard_err_None [simp]: "guard_err bad e = None \<longleftrightarrow> \<not> bad"
  by (simp add: guard_err_def)

section \<open>Properties\<close>

text \<open>
  C40: The retry backoff has the closed form \<open>min max (base * 2 ^ (attempt - 1))\<close> for every attempt
  number, however large: the 64-bit doubling never overflows into a wrong delay, and the delay is
  positive and never exceeds the cap.
\<close>

theorem retryDelay_backoff:
  assumes "0 < base" "in64 base" "0 < mx" "in64 mx"
  shows "retryDelay base mx attempt = min mx (base * 2 ^ nat (attempt - 1))
    \<and> 0 < retryDelay base mx attempt \<and> retryDelay base mx attempt \<le> mx"
  using assms by (simp add: retryDelay_closed)

theorem retryDelay_backoff_witness:
  "retryDelay (5 * minute) hour 3 = 20 * minute \<and> retryDelay (5 * minute) hour 100 = hour"
proof -
  have h: "0 < 5 * minute" "in64 (5 * minute)" "0 < hour" "in64 hour"
    by (simp_all add: unit_defs in64_bounds)
  show ?thesis
    using retryDelay_backoff [OF h, of 3] retryDelay_backoff [OF h, of 100]
    by (simp add: unit_defs)
qed

text \<open>A configuration built in code, for concrete inputs.\<close>

definition sample_config :: Config where
  "sample_config =
     \<lparr>DruidBroker = ''http://broker:8082'', DruidDatasource = ''metrics'', KafkaBrokers = [''kafka:9092''],
      KafkaTopic = ''baselines'', Lookback = 336 * hour, AheadMinutes = 1, Interval = minute,
      Calendar = [], DruidMaxRange = 100 * hour, DruidTimeout = 60 * second, DruidRetries = 2,
      DruidMaxRPS = 4, DruidMaxInflight = 4, DruidAuthHeader = [], DruidAuthValue = [],
      HashScanTTL = 5 * minute, ScanRange = 672 * hour, TrainConcurrency = 2,
      SnapshotCacheTTL = 60 * second, RetrainRetry = 5 * minute, RetrainLease = 0,
      RetrainRetryMax = hour, WorkerTTL = 120 * second, DefaultRetrainCron = [], StoreDSN = [],
      SnapshotTTL = 72 * hour, StaleAfter = 24 * hour, ShardID = ''w0'', ShardPeers = [], ShardDNS = [],
      ShardMembership = [], LogLevel = ''info''\<rparr>"

text \<open>
  The default claim lease covers the work it is taken for: the slices a full-lookback fetch
  needs cover LOOKBACK and are the fewest that do, and the lease is at least one request timeout per
  slice plus a minute, and at least the retry base.
\<close>

theorem workLease_covers_fetch:
  assumes "0 < DruidMaxRange c" "0 < Lookback c" "in64 (Lookback c + DruidMaxRange c)"
    and "in64 (work_slices c * DruidTimeout c)" "in64 (work_slices c * DruidTimeout c + minute)"
  shows "Lookback c \<le> work_slices c * DruidMaxRange c
    \<and> (work_slices c - 1) * DruidMaxRange c < Lookback c
    \<and> work_slices c * DruidTimeout c + minute \<le> workLease c \<and> retryBase c \<le> workLease c"
  using work_slices_ceil [OF assms(1-3)] workLease_exact [OF assms(4,5)] workLease_ge_base by auto

theorem workLease_covers_fetch_witness:
  "work_slices sample_config = 4 \<and> 4 * (60 * second) + minute \<le> workLease sample_config"
proof -
  have s: "work_slices sample_config = 4"
    by (simp add: work_slices_def sample_config_def unit_defs go_div_def Let_def in64_bounds)
  have "work_slices sample_config * DruidTimeout sample_config + minute \<le> workLease sample_config"
    using workLease_covers_fetch [of sample_config]
    unfolding s by (simp add: sample_config_def unit_defs in64_bounds)
  with s show ?thesis by (simp add: sample_config_def)
qed

text \<open>
  \<open>normalized\<close> is idempotent, as a configuration that is normalised by both
  \<open>NewPublisher\<close> and \<open>newPublisher\<close> needs it to be, for every configuration whose retry base
  can be doubled in 64 bits.
\<close>

theorem normalized_idempotent:
  assumes "2 * RetrainRetry c \<le> max64"
  shows "normalized (normalized c) = normalized c"
proof -
  have d: "0 < max (i64 (2 * Lookback c)) (24 * hour)" "0 < max defaultWorkerTTL (i64 (2 * Interval c))"
    by (simp_all add: less_max_iff_disj unit_defs default_defs)
  have r: "0 < RetrainRetry (normalized c)" "i64 (2 * RetrainRetry (normalized c)) = 2 * RetrainRetry (normalized c)"
    using assms by (auto simp: normalized_fields or_default_def default_defs unit_defs in64_def min64_def max64_def intro!: i64_id)
  have m: "0 < RetrainRetryMax (normalized c)" "RetrainRetry (normalized c) < RetrainRetryMax (normalized c)"
    using r by (auto simp: normalized_retryMax or_default_def default_defs unit_defs)
  have mx: "RetrainRetryMax (normalized (normalized c)) = RetrainRetryMax (normalized c)"
    using r m by (simp add: normalized_retryMax [of "normalized c"] normalized_fields(8) [of "normalized c"])
  have "workLease (normalized (normalized c)) = workLease (normalized c)"
    using r by (intro workLease_cong) (auto simp: normalized_fields or_default_def default_defs unit_defs)
  then have ls: "RetrainLease (normalized (normalized c)) = RetrainLease (normalized c)"
    using workLease_pos [of "normalized c"] by (simp add: normalized_lease [of "normalized c"]) (simp add: normalized_lease)
  show ?thesis
    by (rule Config.equality)
      (use d mx ls in \<open>auto simp: normalized_fields or_default_def default_defs unit_defs\<close>)
qed

theorem normalized_idempotent_witness:
  "normalized (normalized sample_config) = normalized sample_config"
  by (rule normalized_idempotent) (simp add: sample_config_def unit_defs max64_def)

lemma Validate_checks:
  assumes "Validate url_parse cron_parse now c = None"
  shows "minute \<le> Lookback c" "1 \<le> AheadMinutes c" "AheadMinutes c \<le> maxAheadMinutes"
    "second \<le> Interval c" "0 \<le> DruidMaxRange c" "\<not> (0 < DruidMaxRange c \<and> DruidMaxRange c < minute)"
    "1 \<le> TrainConcurrency c" "0 \<le> RetrainLease c"
    "0 < RetrainRetryMax c \<Longrightarrow> retryBase c < RetrainRetryMax c"
    "check_workerTTL c = None" "check_staleAfter c = None" "check_membership c = None"
    "check_cron cron_parse now c = None"
    "DruidBroker c \<noteq> []" "KafkaBrokers c \<noteq> []" "KafkaTopic c \<noteq> []"
proof -
  have "DruidBroker c \<noteq> []" if "check_broker url_parse c = None"
    using that by (auto simp: check_broker_def)
  then show "minute \<le> Lookback c" "1 \<le> AheadMinutes c" "AheadMinutes c \<le> maxAheadMinutes"
    "second \<le> Interval c" "0 \<le> DruidMaxRange c" "\<not> (0 < DruidMaxRange c \<and> DruidMaxRange c < minute)"
    "1 \<le> TrainConcurrency c" "0 \<le> RetrainLease c"
    "0 < RetrainRetryMax c \<Longrightarrow> retryBase c < RetrainRetryMax c"
    "check_workerTTL c = None" "check_staleAfter c = None" "check_membership c = None"
    "check_cron cron_parse now c = None"
    "DruidBroker c \<noteq> []" "KafkaBrokers c \<noteq> []" "KafkaTopic c \<noteq> []"
    using assms unfolding Validate_def first_error_None by simp_all
qed

text \<open>
  A configuration that \<open>Validate\<close> accepts normalises to one the worker can run: every period,
  timeout and limit is positive, the membership TTL and the retry cap are above the period and the
  base they must exceed, the horizon and the sliced range are in bounds, and a freshness window, when
  set, is longer than a cached scan and a tick.
\<close>

theorem Validate_sound:
  assumes "Validate url_parse cron_parse now c = None" "2 * RetrainRetry c \<le> max64"
    and "or_default (HashScanTTL c) defaultHashScanTTL + Interval c \<le> max64"
  shows "second \<le> Interval (normalized c) \<and> Interval (normalized c) < WorkerTTL (normalized c)
    \<and> minute \<le> Lookback (normalized c) \<and> 0 < ScanRange (normalized c)
    \<and> 1 \<le> AheadMinutes (normalized c) \<and> AheadMinutes (normalized c) \<le> maxAheadMinutes
    \<and> (if DruidMaxRange (normalized c) = 0 then True else minute \<le> DruidMaxRange (normalized c))
    \<and> 1 \<le> TrainConcurrency (normalized c) \<and> 0 < DruidTimeout (normalized c)
    \<and> 0 < RetrainLease (normalized c) \<and> 0 < RetrainRetry (normalized c)
    \<and> RetrainRetry (normalized c) < RetrainRetryMax (normalized c)
    \<and> (if StaleAfter (normalized c) = 0 then True
       else HashScanTTL (normalized c) + Interval (normalized c) \<le> StaleAfter (normalized c))"
proof -
  note ok = Validate_checks [OF assms(1)]
  have ttl: "Interval c < WorkerTTL (normalized c)"
    using ok(10) by (auto simp: check_workerTTL_def normalized_fields or_default_def Let_def)
  have scan: "0 < or_default (ScanRange c) (max (i64 (2 * Lookback c)) (24 * hour))"
    by (rule or_default_pos) (simp add: less_max_iff_disj unit_defs)
  have retry: "0 < RetrainRetry (normalized c)" "RetrainRetry (normalized c) = retryBase c"
    "i64 (2 * RetrainRetry (normalized c)) = 2 * RetrainRetry (normalized c)"
    using assms(2) by (auto simp: normalized_fields or_default_def retryBase_def default_defs unit_defs
        in64_def min64_def max64_def intro!: i64_id)
  then have cap: "RetrainRetry (normalized c) < RetrainRetryMax (normalized c)"
    by (simp add: normalized_retryMax)
  have lease: "0 < RetrainLease (normalized c)"
    using workLease_pos [of "normalized c"] by (simp add: normalized_lease)
  have "0 < or_default (HashScanTTL c) defaultHashScanTTL"
    by (rule or_default_pos) (simp add: default_defs unit_defs)
  then have "in64 (or_default (HashScanTTL c) defaultHashScanTTL + Interval c)"
    using assms(3) ok(4) by (simp add: in64_def min64_def unit_defs)
  then have stale: "StaleAfter c = 0 \<or> HashScanTTL (normalized c) + Interval c \<le> StaleAfter c"
    using ok(11) by (auto simp: check_staleAfter_def normalized_fields or_default_def Let_def split: if_splits)
  show ?thesis
    using ok(1-7) ttl scan retry(1) cap lease stale
    by (auto simp: normalized_fields or_default_def default_defs unit_defs)
qed

theorem Validate_sound_witness:
  "Validate (\<lambda>u. Some (''http'', ''broker:8082'')) (\<lambda>s. Inr (\<lambda>z t. t + 24 * hour)) 0 sample_config = None
   \<and> Interval (normalized sample_config) < WorkerTTL (normalized sample_config)"
proof -
  have "trim_space ''http://broker:8082'' \<noteq> []" "datasourceName ''metrics''" by code_simp+
  then have v: "Validate (\<lambda>u. Some (''http'', ''broker:8082'')) (\<lambda>s. Inr (\<lambda>z t. t + 24 * hour)) 0 sample_config = None"
    by (simp add: Validate_def check_broker_def guard_err_def check_workerTTL_def check_cron_def
        check_staleAfter_def check_membership_def retryBase_def sample_config_def unit_defs maxAheadMinutes_def i64_def)
  from Validate_sound [OF v] v show ?thesis
    by (simp add: sample_config_def or_default_def default_defs unit_defs max64_def)
qed

end
