(* ===== verification/Membership.thy ===== *)
theory Membership imports Shard HostIdentity Config
begin

text \<open>
  The peer set of one worker (\<open>membership.go\<close>): \<open>membershipMode\<close>, the
  \<open>peerSource\<close> and its \<open>peers\<close> and \<open>keep\<close> methods. The name resolver and the
  membership table are arguments, each returning an error or a list of identities; a missing
  one is \<open>None\<close>. The interface \<open>peer_view\<close> is what the publisher relies on.
\<close>

definition membershipMode :: "Config \<Rightarrow> bool \<Rightarrow> string" where
  "membershipMode cfg hasStore =
     (if ShardMembership cfg = ''peers'' \<or> ShardMembership cfg = ''dns'' then ShardMembership cfg
      else if ShardMembership cfg = ''store'' then (if hasStore then ''store'' else ''self'')
      else if ShardPeers cfg \<noteq> [] then ''peers''
      else if ShardDNS cfg \<noteq> [] then ''dns''
      else if hasStore then ''store''
      else ''self'')"

record peer_source =
  ps_self :: string
  ps_mode :: string
  ps_static :: "string list"
  ps_dnsName :: string
  ps_ttl :: duration
  ps_last :: "string list"
  ps_warned :: bool

type_synonym lookup = "string + string list"
type_synonym resolver = "string \<Rightarrow> lookup"
type_synonym peer_table = "duration \<Rightarrow> lookup"

datatype peer_warning = KeepingLast | RunningUnsharded

definition newPeerSource :: "host \<Rightarrow> Config \<Rightarrow> bool \<Rightarrow> peer_source" where
  "newPeerSource h cfg hasStore =
     \<lparr>ps_self = shardID h (ShardID cfg), ps_mode = membershipMode cfg hasStore,
      ps_static = ShardPeers cfg, ps_dnsName = ShardDNS cfg, ps_ttl = WorkerTTL cfg,
      ps_last = [], ps_warned = False\<rparr>"

text \<open>
  \<open>keep\<close> returns the peer set, the warning it logs (if any) and the new state.
\<close>

definition keep :: "lookup \<Rightarrow> peer_source \<Rightarrow> string list \<times> peer_warning option \<times> peer_source" where
  "keep res s =
     (case res of
        Inr (i # ids) \<Rightarrow>
          let s' = s\<lparr>ps_warned := False, ps_last := normalizePeers (i # ids) (ps_self s)\<rparr>
          in (ps_last s', None, s')
      | _ \<Rightarrow>
          if ps_last s \<noteq> []
          then (ps_last s, if ps_warned s then None else Some KeepingLast, s\<lparr>ps_warned := True\<rparr>)
          else (normalizePeers [] (ps_self s),
                if ps_warned s then None else Some RunningUnsharded, s\<lparr>ps_warned := True\<rparr>))"

definition peers :: "resolver option \<Rightarrow> peer_table option \<Rightarrow> peer_source
    \<Rightarrow> string list \<times> peer_warning option \<times> peer_source" where
  "peers resolver store s =
     (if ps_mode s = ''peers'' then (normalizePeers (ps_static s) (ps_self s), None, s)
      else if ps_mode s = ''dns'' then
        (case resolver of
           None \<Rightarrow> (normalizePeers (ps_static s) (ps_self s), None, s)
         | Some look \<Rightarrow>
             if ps_dnsName s = [] then (normalizePeers (ps_static s) (ps_self s), None, s)
             else keep (look (ps_dnsName s)) s)
      else if ps_mode s = ''store'' then
        (case store of
           None \<Rightarrow> (normalizePeers [] (ps_self s), None, s)
         | Some table \<Rightarrow>
             (case table (ps_ttl s) of
                Inl e \<Rightarrow> keep (Inl e) s
              | Inr ids \<Rightarrow>
                  let s' = s\<lparr>ps_warned := False, ps_last := normalizePeers ids (ps_self s)\<rparr>
                  in (ps_last s', None, s')))
      else (normalizePeers [] (ps_self s), None, s))"

section \<open>Invariant\<close>

text \<open>
  A normalised peer set: sorted, without duplicates, every peer trimmed and not blank, the worker's
  trimmed identity among them. The worker's identity is not blank, and the last good set, once there is
  one, is normalised.
\<close>

definition peer_set_ok :: "string \<Rightarrow> string list \<Rightarrow> bool" where
  "peer_set_ok self ps \<longleftrightarrow> sorted ps \<and> distinct ps \<and> list_all (\<lambda>p. p \<noteq> [] \<and> trim_space p = p) ps
     \<and> trim_space self \<in> set ps"

definition peer_inv :: "peer_source \<Rightarrow> bool" where
  "peer_inv s \<longleftrightarrow> trim_space (ps_self s) \<noteq> [] \<and> (ps_last s = [] \<or> peer_set_ok (ps_self s) (ps_last s))"

lemma normalizePeers_ok: "trim_space self \<noteq> [] \<Longrightarrow> peer_set_ok self (normalizePeers ids self)"
  by (auto simp: peer_set_ok_def sorted_normalizePeers distinct_normalizePeers self_in_normalizePeers
      set_normalizePeers list_all_iff)

lemma newPeerSource_inv: "peer_inv (newPeerSource h cfg hasStore)"
  by (simp add: peer_inv_def newPeerSource_def shardID_not_blank)

lemma keep_cases:
  "keep (Inl e) s = (if ps_last s \<noteq> []
     then (ps_last s, if ps_warned s then None else Some KeepingLast, s\<lparr>ps_warned := True\<rparr>)
     else (normalizePeers [] (ps_self s),
           if ps_warned s then None else Some RunningUnsharded, s\<lparr>ps_warned := True\<rparr>))"
  "keep (Inr []) s = keep (Inl e) s"
  "ids \<noteq> [] \<Longrightarrow> keep (Inr ids) s = (normalizePeers ids (ps_self s), None,
     s\<lparr>ps_warned := False, ps_last := normalizePeers ids (ps_self s)\<rparr>)"
  by (simp_all add: keep_def split: list.split)

lemma keep_ok:
  assumes "peer_inv s"
  shows "peer_set_ok (ps_self s) (fst (keep res s))" "peer_inv (snd (snd (keep res s)))"
    "ps_self (snd (snd (keep res s))) = ps_self s" "ps_mode (snd (snd (keep res s))) = ps_mode s"
  using assms
  by (auto simp: keep_def peer_inv_def normalizePeers_ok Let_def split: sum.split list.split)

lemma peers_self: "ps_self (snd (snd (peers r t s))) = ps_self s"
  by (simp add: peers_def keep_def Let_def split: option.split sum.split list.split)

lemma peers_ok:
  assumes "peer_inv s"
  shows "peer_set_ok (ps_self s) (fst (peers r t s))" "peer_inv (snd (snd (peers r t s)))"
    "ps_self (snd (snd (peers r t s))) = ps_self s" "ps_mode (snd (snd (peers r t s))) = ps_mode s"
proof -
  have n: "peer_set_ok (ps_self s) (normalizePeers ids (ps_self s))" for ids
    using assms by (simp add: peer_inv_def normalizePeers_ok)
  show "peer_set_ok (ps_self s) (fst (peers r t s))"
    using assms n keep_ok(1) by (simp add: peers_def Let_def split: option.split sum.split)
  show "peer_inv (snd (snd (peers r t s)))"
    using assms n keep_ok(2) by (simp add: peers_def Let_def peer_inv_def split: option.split sum.split)
  show "ps_self (snd (snd (peers r t s))) = ps_self s"
    using assms keep_ok(3) by (simp add: peers_def Let_def split: option.split sum.split)
  show "ps_mode (snd (snd (peers r t s))) = ps_mode s"
    using assms keep_ok(4) by (simp add: peers_def Let_def split: option.split sum.split)
qed

section \<open>The contract of a peer view\<close>

text \<open>
  What sharding needs of a membership source: every answer is a sorted, duplicate-free set
  that holds the worker itself, and the source stays in its invariant.
\<close>

locale peer_view =
  fixes view :: "'i \<Rightarrow> 's \<Rightarrow> string list \<times> 'l \<times> 's"
    and self :: "'s \<Rightarrow> string"
    and invar :: "'s \<Rightarrow> bool"
  assumes view_sorted: "invar s \<Longrightarrow> sorted (fst (view i s))"
    and view_distinct: "invar s \<Longrightarrow> distinct (fst (view i s))"
    and view_self: "invar s \<Longrightarrow> trim_space (self s) \<in> set (fst (view i s))"
    and view_invar: "invar s \<Longrightarrow> invar (snd (snd (view i s)))"
    and view_same: "invar s \<Longrightarrow> self (snd (snd (view i s))) = self s"
begin

lemma view_owner_in: "invar s \<Longrightarrow> Owner h (fst (view i s)) \<in> set (fst (view i s))"
  using view_self rv.pick_member by (metis empty_iff list.set(1))

lemma view_owns:
  "invar s \<Longrightarrow> trim_space (self s) = self s \<Longrightarrow>
   Owns h (self s) (fst (view i s)) \<longleftrightarrow> Owner h (fst (view i s)) = self s"
  using Owns_normalized view_distinct view_self by metis

text \<open>Two workers that see the same set never both own a hash.\<close>

lemma same_view_disjoint:
  assumes "invar s" "invar t" "trim_space (self s) = self s" "trim_space (self t) = self t"
    and "set (fst (view i s)) = set (fst (view j t))" "self s \<noteq> self t"
  shows "\<not> (Owns h (self s) (fst (view i s)) \<and> Owns h (self t) (fst (view j t)))"
  using assms view_owns rv.pick_set_cong [OF assms(5)] by metis

end

interpretation pv: peer_view "\<lambda>(r, t). peers r t" ps_self peer_inv
  by unfold_locales (auto simp: peers_ok peers_ok(1) [unfolded peer_set_ok_def])

section \<open>Sequences of lookups\<close>

text \<open>
  One worker's peer sets over its lifetime: each tick has its own resolver and table.
\<close>

type_synonym peer_input = "resolver option \<times> peer_table option"

fun peer_run :: "peer_input list \<Rightarrow> peer_source \<Rightarrow> (string list \<times> peer_warning option) list \<times> peer_source" where
  "peer_run [] s = ([], s)"
| "peer_run ((r, t) # is) s =
     (let (ps, warning, s) = peers r t s; (out, s) = peer_run is s in ((ps, warning) # out, s))"

lemma peer_run_ok:
  "peer_inv s \<Longrightarrow> list_all (\<lambda>(ps, warning). peer_set_ok (ps_self s) ps) (fst (peer_run is s)) \<and> peer_inv (snd (peer_run is s))"
proof (induction "is" arbitrary: s)
  case (Cons i "is")
  obtain r t where i: "i = (r, t)" by (cases i)
  obtain ps wn s' where p: "peers r t s = (ps, wn, s')" by (rule prod_cases3)
  with peers_ok [OF Cons.prems, of r t] have "peer_set_ok (ps_self s) ps" "peer_inv s'" "ps_self s' = ps_self s"
    by simp_all
  with Cons.IH [of s'] i p show ?case by (simp add: case_prod_beta)
qed simp

lemma failing_lookup:
  "ps_mode s = ''store'' \<Longrightarrow> ps_last s \<noteq> [] \<Longrightarrow>
   peers r (Some (\<lambda>_. Inl e)) s = (ps_last s, if ps_warned s then None else Some KeepingLast, s\<lparr>ps_warned := True\<rparr>)"
  by (simp add: peers_def keep_def)

lemma warned_outage:
  "ps_mode s = ''store'' \<Longrightarrow> ps_last s \<noteq> [] \<Longrightarrow> ps_warned s \<Longrightarrow>
   peer_run (replicate n (r, Some (\<lambda>_. Inl e))) s = (replicate n (ps_last s, None), s)"
proof (induction n)
  case (Suc n)
  have "s\<lparr>ps_warned := True\<rparr> = s" using Suc.prems(3) by (cases s) simp
  with failing_lookup [OF Suc.prems(1,2), of r e] Suc.prems(3)
  have "peers r (Some (\<lambda>_. Inl e)) s = (ps_last s, None, s)" by (simp only: if_True)
  with Suc show ?case by simp
qed simp

section \<open>Properties\<close>

text \<open>
  C39: Whatever its resolver and membership table answer, fail or return, every peer set a worker
  ever uses is sorted, free of duplicates, made of trimmed names that are not blank, and contains the
  worker's trimmed identity, in every membership mode. (The identity itself is only in the set when it
  has no white space around it: \<open>ShardID\<close> does not trim a host name.)
\<close>

theorem peer_sets_always_ok:
  "list_all (\<lambda>(ps, warning). sorted ps \<and> distinct ps \<and> list_all (\<lambda>p. p \<noteq> [] \<and> trim_space p = p) ps
       \<and> trim_space (shardID h (ShardID cfg)) \<in> set ps)
     (fst (peer_run is (newPeerSource h cfg hasStore)))"
  using peer_run_ok [OF newPeerSource_inv [of h cfg hasStore], of "is"]
  by (simp add: newPeerSource_def peer_set_ok_def [abs_def])

text \<open>
  An outage of the membership table after a good answer, however long, keeps the last good peer
  set on every tick and warns exactly once.
\<close>

theorem outage_keeps_last_set:
  assumes "ps_mode s = ''store''" "ps_last s \<noteq> []" "\<not> ps_warned s"
  shows "fst (peer_run (replicate (Suc n) (r, Some (\<lambda>_. Inl e))) s)
    = (ps_last s, Some KeepingLast) # replicate n (ps_last s, None)"
proof -
  have "peer_run (replicate n (r, Some (\<lambda>_. Inl e))) (s\<lparr>ps_warned := True\<rparr>)
      = (replicate n (ps_last s, None), s\<lparr>ps_warned := True\<rparr>)"
    using warned_outage [of "s\<lparr>ps_warned := True\<rparr>" n r e] assms by simp
  then show ?thesis using failing_lookup [OF assms(1,2), of r e] assms(3) by simp
qed

theorem outage_keeps_last_set_witness:
  "fst (peer_run [(None, Some (\<lambda>_. Inl ''down'')), (None, Some (\<lambda>_. Inl ''down''))]
     \<lparr>ps_self = ''a'', ps_mode = ''store'', ps_static = [], ps_dnsName = [], ps_ttl = 30,
      ps_last = [''a'', ''b''], ps_warned = False\<rparr>)
   = [([''a'', ''b''], Some KeepingLast), ([''a'', ''b''], None)]"
  using outage_keeps_last_set [of "\<lparr>ps_self = ''a'', ps_mode = ''store'', ps_static = [], ps_dnsName = [],
      ps_ttl = 30, ps_last = [''a'', ''b''], ps_warned = False\<rparr>" 1 None "''down''"]
  by (simp add: numeral_2_eq_2)

end
