(* ===== verification/Spans.thy ===== *)
theory Spans imports Membership
begin

text \<open>
  The scan's spans and the decisions the tick takes on them (\<open>publisher.go\<close>):
  \<open>eligible\<close>, \<open>alive\<close>, \<open>ownedSpans\<close>, \<open>ownedKeys\<close>, \<open>readyKeys\<close> and
  \<open>retiredKeys\<close>.
\<close>

record metricSpan =
  sp_Hash :: string
  sp_Min :: instant
  sp_Max :: instant

definition eligible :: "metricSpan \<Rightarrow> duration \<Rightarrow> bool" where
  "eligible sp lookback \<longleftrightarrow> lookback \<le> time_sub (sp_Max sp) (sp_Min sp)"

definition alive :: "metricSpan \<Rightarrow> duration \<Rightarrow> duration \<Rightarrow> instant \<Rightarrow> bool" where
  "alive sp lookback staleAfter now \<longleftrightarrow>
     (if \<not> eligible sp lookback then False
      else staleAfter \<le> 0 \<or> \<not> sp_Max sp < time_add now (i64 (- staleAfter)))"

definition ownedSpans :: "metricSpan list \<Rightarrow> string \<Rightarrow> string list \<Rightarrow> bool list" where
  "ownedSpans spans self ps = map (\<lambda>sp. Owns (sp_Hash sp) self ps) spans"

fun ownedKeys :: "metricSpan list \<Rightarrow> bool list \<Rightarrow> string list" where
  "ownedKeys (sp # spans) (o1 # owned) =
     (if o1 then sp_Hash sp # ownedKeys spans owned else ownedKeys spans owned)"
| "ownedKeys spans owned = []"

fun readyKeys :: "metricSpan list \<Rightarrow> bool list \<Rightarrow> duration \<Rightarrow> duration \<Rightarrow> instant \<Rightarrow> string list" where
  "readyKeys (sp # spans) (o1 # owned) lookback staleAfter now =
     (if o1 \<and> alive sp lookback staleAfter now
      then sp_Hash sp # readyKeys spans owned lookback staleAfter now
      else readyKeys spans owned lookback staleAfter now)"
| "readyKeys spans owned lookback staleAfter now = []"

text \<open>The map \<open>seen\<close> holds the last span of each hash.\<close>

definition seen_map :: "metricSpan list \<Rightarrow> (string \<rightharpoonup> metricSpan)" where
  "seen_map spans = fold (\<lambda>sp m. m(sp_Hash sp \<mapsto> sp)) spans Map.empty"

definition retiredKeys :: "metricSpan list \<Rightarrow> string list \<Rightarrow> duration \<Rightarrow> duration \<Rightarrow> instant \<Rightarrow> string list" where
  "retiredKeys spans existing lookback staleAfter now =
     (let seen = seen_map spans
      in filter (\<lambda>key. \<not> (case seen key of None \<Rightarrow> False
            | Some sp \<Rightarrow> alive sp lookback staleAfter now)) existing)"

section \<open>Lemmas\<close>

lemma ownedKeys_filter:
  "ownedKeys spans (ownedSpans spans self ps)
     = map sp_Hash (filter (\<lambda>s. Owns (sp_Hash s) self ps) spans)"
  by (induction spans) (simp_all add: ownedSpans_def)

lemma readyKeys_filter:
  "readyKeys spans (ownedSpans spans self ps) lb sa now
     = map sp_Hash (filter (\<lambda>s. Owns (sp_Hash s) self ps \<and> alive s lb sa now) spans)"
  by (induction spans) (simp_all add: ownedSpans_def)

lemma readyKeys_subset: "set (readyKeys spans owned lb sa now) \<subseteq> sp_Hash ` set spans"
  by (induction spans owned lb sa now rule: readyKeys.induct) auto

lemma length_ownedSpans [simp]: "length (ownedSpans spans self ps) = length spans"
  by (simp add: ownedSpans_def)

lemma seen_map_find:
  "distinct (map sp_Hash spans) \<Longrightarrow> seen_map spans k = find_row sp_Hash k spans"
proof -
  have gen: "distinct (map sp_Hash spans) \<Longrightarrow> fold (\<lambda>sp m. m(sp_Hash sp \<mapsto> sp)) spans m k
      = (case find_row sp_Hash k spans of None \<Rightarrow> m k | Some s \<Rightarrow> Some s)" for m
  proof (induction spans arbitrary: m)
    case (Cons s spans)
    then have "find_row sp_Hash (sp_Hash s) spans = None"
      by (auto simp: find_row_None image_iff)
    with Cons show ?case by (auto split: option.split)
  qed simp
  assume "distinct (map sp_Hash spans)"
  from gen [OF this, of Map.empty] show ?thesis by (simp add: seen_map_def split: option.split)
qed

lemma alive_iff:
  "in64 staleAfter \<Longrightarrow> 0 < staleAfter \<Longrightarrow> min64 < lookback \<Longrightarrow> in64 lookback \<Longrightarrow>
   alive s lookback staleAfter now \<longleftrightarrow> lookback \<le> sp_Max s - sp_Min s \<and> now - staleAfter \<le> sp_Max s"
proof -
  assume h: "in64 staleAfter" "0 < staleAfter" "min64 < lookback" "in64 lookback"
  then have "i64 (- staleAfter) = - staleAfter"
    by (intro i64_id) (auto simp: in64_def min64_def max64_def)
  moreover have "lookback \<le> max64" using h by (simp add: in64_def)
  ultimately show ?thesis
    using h time_sub_ge_iff [of lookback "sp_Max s" "sp_Min s"]
    by (auto simp: alive_def eligible_def time_add_def)
qed

section \<open>Properties\<close>

text \<open>
  A tick never retires what it schedules and publishes: with one span per hash, the keys it
  retires and the keys it finds ready are disjoint, and an existing key is retired exactly when its
  hash is not alive in the scan.
\<close>

theorem retired_never_ready:
  assumes "distinct (map sp_Hash spans)"
  shows "set (retiredKeys spans existing lb sa now) \<inter> set (readyKeys spans (ownedSpans spans self ps) lb sa now) = {}
    \<and> set (retiredKeys spans existing lb sa now)
      = {k \<in> set existing. \<not> (\<exists>sp \<in> set spans. sp_Hash sp = k \<and> alive sp lb sa now)}"
proof -
  have dead: "set (retiredKeys spans existing lb sa now)
      = {k \<in> set existing. \<not> (\<exists>sp \<in> set spans. sp_Hash sp = k \<and> alive sp lb sa now)}"
    (is "?L = ?R")
  proof -
    have "(case seen_map spans k of None \<Rightarrow> False | Some sp \<Rightarrow> alive sp lb sa now)
        = (\<exists>sp \<in> set spans. sp_Hash sp = k \<and> alive sp lb sa now)" for k
    proof (cases "seen_map spans k")
      case None
      then have "find_row sp_Hash k spans = None" by (simp add: seen_map_find [OF assms])
      with None show ?thesis by (auto simp: find_row_None)
    next
      case (Some sp)
      then have "sp \<in> set spans \<and> sp_Hash sp = k" by (simp add: seen_map_find [OF assms] find_row_iff [OF assms])
      moreover have "sp' = sp" if "sp' \<in> set spans" "sp_Hash sp' = k" for sp'
        using that Some find_row_iff [OF assms, of k sp'] by (simp add: seen_map_find [OF assms])
      ultimately show ?thesis using Some by auto
    qed
    then show ?thesis by (simp add: retiredKeys_def)
  qed
  then show ?thesis by (auto simp: readyKeys_filter)
qed

theorem retired_never_ready_witness:
  "set (retiredKeys [\<lparr>sp_Hash = ''a'', sp_Min = 0, sp_Max = 100\<rparr>, \<lparr>sp_Hash = ''b'', sp_Min = 0, sp_Max = 5\<rparr>]
       [''a'', ''b'', ''c''] 50 0 200)
   = {k \<in> {''a'', ''b'', ''c''}. \<not> (\<exists>sp \<in> {\<lparr>sp_Hash = ''a'', sp_Min = 0, sp_Max = 100\<rparr>,
       \<lparr>sp_Hash = ''b'', sp_Min = 0, sp_Max = 5\<rparr>}. sp_Hash sp = k \<and> alive sp 50 0 200)}"
  using retired_never_ready [of "[\<lparr>sp_Hash = ''a'', sp_Min = 0, sp_Max = 100\<rparr>, \<lparr>sp_Hash = ''b'', sp_Min = 0, sp_Max = 5\<rparr>]"
      "[''a'', ''b'', ''c'']" 50 0 200]
  by simp

text \<open>
  C11: The fleet covers its metrics: when the workers of a normalised peer set see the same spans, every
  alive hash is ready on exactly one of them, so the fleet schedules and publishes each metric once.
\<close>

theorem fleet_partition:
  assumes "trim_space self \<noteq> []" "sp \<in> set spans" "alive sp lb sa now"
  shows "\<exists>!w. w \<in> set (normalizePeers ids self)
    \<and> sp_Hash sp \<in> set (readyKeys spans (ownedSpans spans w (normalizePeers ids self)) lb sa now)"
proof -
  have "sp_Hash sp \<in> set (readyKeys spans (ownedSpans spans w ps) lb sa now) \<longleftrightarrow> Owns (sp_Hash sp) w ps" for w ps
    using assms(2,3) by (auto simp: readyKeys_filter)
  then show ?thesis using unique_owner [OF assms(1)] by simp
qed

theorem fleet_partition_witness:
  "\<exists>!w. w \<in> set (normalizePeers [''b''] ''a'') \<and> ''m'' \<in> set (readyKeys [\<lparr>sp_Hash = ''m'', sp_Min = 0, sp_Max = 9\<rparr>]
     (ownedSpans [\<lparr>sp_Hash = ''m'', sp_Min = 0, sp_Max = 9\<rparr>] w (normalizePeers [''b''] ''a'')) 5 0 10)"
proof -
  have "trim_space ''a'' \<noteq> []" by code_simp
  from fleet_partition [OF this, of "\<lparr>sp_Hash = ''m'', sp_Min = 0, sp_Max = 9\<rparr>"
      "[\<lparr>sp_Hash = ''m'', sp_Min = 0, sp_Max = 9\<rparr>]" 5 0 10 "[''b'']"]
  show ?thesis by (simp add: alive_def eligible_def time_sub_def min64_def max64_def)
qed

end
