(* ===== verification/Schedule.thy ===== *)
theory Schedule imports Config
begin

text \<open>
  The next fire time of a cron expression (\<open>schedule.go\<close>). The cron library, the zone
  database behind \<open>time.LoadLocation\<close> and the quoting of \<open>%q\<close> are parameters; a location
  is represented by the name it was loaded with.
\<close>

definition nextRun :: "(string \<Rightarrow> string) \<Rightarrow> cron_parser \<Rightarrow> (string \<Rightarrow> go_err option)
    \<Rightarrow> string \<Rightarrow> string \<Rightarrow> instant \<Rightarrow> go_err + instant" where
  "nextRun quote cron_parse load_location cron tz now =
     (case cron_parse cron of
        Inl e \<Rightarrow> Inl (Wrap (''cron '' @ quote cron) e)
      | Inr sched \<Rightarrow>
          (case load_location tz of
             Some e \<Rightarrow> Inl (Wrap (''timezone '' @ quote tz) e)
           | None \<Rightarrow> Inr (sched tz now)))"

end
