(* ===== verification/Kafka.thy ===== *)
theory Kafka imports Prelude
begin

text \<open>
  The published message (\<open>kafka.go\<close>): \<open>BaselineMessage\<close>, its record key and the sink.
  The JSON encoder and the writer of the kafka-go library are parameters.
\<close>

record BaselineMessage =
  MetricHash :: string
  MetricTS :: int
  BaselineValue :: f64

definition messageKey :: "BaselineMessage \<Rightarrow> string" where
  "messageKey msg = MetricHash msg @ ''|'' @ format_int (MetricTS msg)"

definition kafka_Publish :: "(BaselineMessage \<Rightarrow> go_err + string)
    \<Rightarrow> (string \<Rightarrow> string \<Rightarrow> 'w \<Rightarrow> go_err option \<times> 'w) \<Rightarrow> BaselineMessage \<Rightarrow> 'w \<Rightarrow> go_err option \<times> 'w" where
  "kafka_Publish marshal_msg write msg w =
     (case marshal_msg msg of
        Inl e \<Rightarrow> (Some e, w)
      | Inr b \<Rightarrow> write (messageKey msg) b w)"

section \<open>One point, one key\<close>

text \<open>The key can be read back: the timestamp is what follows the last bar.\<close>

definition parse_key :: "string \<Rightarrow> string \<times> int" where
  "parse_key k =
     (let ts = rev (takeWhile (\<lambda>c. c \<noteq> CHR ''|'') (rev k))
      in (take (length k - length ts - 1) k, parse_int ts))"

lemma format_int_no_bar: "CHR ''|'' \<notin> set (format_int n)"
proof -
  have "CHR ''|'' \<notin> set (digits m)" for m
    using digits_all [of m] by (auto simp: list_all_iff digit_char_def)
  then show ?thesis by (simp add: format_int_def)
qed

lemma parse_messageKey: "parse_key (messageKey msg) = (MetricHash msg, MetricTS msg)"
proof -
  let ?t = "format_int (MetricTS msg)"
  have "takeWhile (\<lambda>c. c \<noteq> CHR ''|'') (rev ?t @ CHR ''|'' # rev (MetricHash msg)) = rev ?t"
    using format_int_no_bar [of "MetricTS msg"] by (subst takeWhile_append2) auto
  then have "rev (takeWhile (\<lambda>c. c \<noteq> CHR ''|'') (rev (messageKey msg))) = ?t"
    by (simp add: messageKey_def)
  then show ?thesis by (simp add: parse_key_def Let_def parse_format_int) (simp add: messageKey_def)
qed

section \<open>Properties\<close>

text \<open>
  One point, one key: two messages have the same Kafka key exactly when they carry the same
  metric hash and the same timestamp, even for hashes that contain the separator, so a compacted
  topic keeps one record per point.
\<close>

theorem messageKey_injective:
  "messageKey m = messageKey m' \<longleftrightarrow> MetricHash m = MetricHash m' \<and> MetricTS m = MetricTS m'"
proof
  assume "messageKey m = messageKey m'"
  then have "parse_key (messageKey m) = parse_key (messageKey m')" by simp
  then show "MetricHash m = MetricHash m' \<and> MetricTS m = MetricTS m'" by (simp add: parse_messageKey)
qed (simp add: messageKey_def)

end
