(* ===== verification/StoreModel.thy ===== *)
theory StoreModel imports Prelude
begin

text \<open>
  The tables the worker reads and writes, and the SQL statements of
  \<open>store_postgres.go\<close> as functions on them: \<open>baselines.snapshots\<close>,
  \<open>baselines.workers\<close> and \<open>forecast.retrain\<close>. A table is a list of rows; its natural
  key is unique (\<open>db_inv\<close>), which is what the unique constraints of the migrations and of
  the plugin's table say. A statement is atomic and reads one \<open>now()\<close>, its argument
  \<open>now\<close>; timestamps are exact. SQL's \<open>NULL\<close> is \<open>None\<close>.
\<close>

record snap_row =
  sn_hash :: string
  sn_model :: string
  sn_season :: string
  sn_calendar :: string
  sn_lookback_ms :: int
  sn_trained_at :: instant
  sn_body :: string
  sn_updated_at :: instant

record worker_row =
  wk_id :: string
  wk_started :: instant
  wk_last_seen :: instant
  wk_owned :: int
  wk_peers :: int

record retrain_row =
  rt_scope :: string
  rt_org :: int
  rt_key :: string
  rt_cron :: string
  rt_tz :: string
  rt_enabled :: bool
  rt_next :: "instant option"
  rt_last_run :: "instant option"
  rt_status :: "string option"
  rt_attempts :: int
  rt_superseded :: "instant option"
  rt_claimed_by :: "string option"
  rt_claimed_until :: "instant option"

record pg_db =
  db_snaps :: "snap_row list"
  db_workers :: "worker_row list"
  db_retrain :: "retrain_row list"

type_synonym row_key = "string \<times> int \<times> string"

definition rt_pk :: "retrain_row \<Rightarrow> row_key" where
  "rt_pk r = (rt_scope r, rt_org r, rt_key r)"

definition baseline_pk :: "string \<Rightarrow> row_key" where
  "baseline_pk key = (''baseline'', 0, key)"

definition db_inv :: "pg_db \<Rightarrow> bool" where
  "db_inv db \<longleftrightarrow> distinct (map sn_hash (db_snaps db)) \<and> distinct (map wk_id (db_workers db))
     \<and> distinct (map rt_pk (db_retrain db))"

text \<open>The metadata of one trained model and one due row (\<open>store.go\<close>).\<close>

record snapshotRecord =
  sr_Model :: string
  sr_Season :: string
  sr_Calendar :: string
  sr_Lookback :: duration
  sr_TrainedAt :: instant

record retrainClaim =
  rc_OrgID :: int
  rc_Key :: string
  rc_Cron :: string
  rc_Timezone :: string
  rc_Attempts :: int

section \<open>baselines.snapshots\<close>

definition snap_of :: "instant \<Rightarrow> string \<Rightarrow> snapshotRecord \<Rightarrow> string \<Rightarrow> snap_row" where
  "snap_of now key rec body =
     \<lparr>sn_hash = key, sn_model = sr_Model rec, sn_season = sr_Season rec,
      sn_calendar = sr_Calendar rec, sn_lookback_ms = go_div (sr_Lookback rec) millisecond,
      sn_trained_at = sr_TrainedAt rec, sn_body = body, sn_updated_at = now\<rparr>"

definition sql_put :: "instant \<Rightarrow> string \<Rightarrow> snapshotRecord \<Rightarrow> string \<Rightarrow> pg_db \<Rightarrow> pg_db" where
  "sql_put now key rec body db =
     (if key \<in> sn_hash ` set (db_snaps db)
      then db\<lparr>db_snaps := map (\<lambda>r. if sn_hash r = key then snap_of now key rec body else r) (db_snaps db)\<rparr>
      else db\<lparr>db_snaps := db_snaps db @ [snap_of now key rec body]\<rparr>)"

definition sql_get :: "string \<Rightarrow> pg_db \<Rightarrow> string option" where
  "sql_get key db = map_option sn_body (find_row sn_hash key (db_snaps db))"

definition sql_fresh :: "string list \<Rightarrow> pg_db \<Rightarrow> (string \<times> instant) list" where
  "sql_fresh keys db =
     map (\<lambda>r. (sn_hash r, sn_updated_at r)) (filter (\<lambda>r. sn_hash r \<in> set keys) (db_snaps db))"

definition row_idle :: "instant \<Rightarrow> duration \<Rightarrow> string \<Rightarrow> retrain_row list \<Rightarrow> bool" where
  "row_idle now ttl key rs = (\<not> (\<exists>r \<in> set rs. rt_pk r = baseline_pk key
     \<and> (case rt_last_run r of None \<Rightarrow> False | Some t \<Rightarrow> now - ttl < t)))"

definition swept :: "instant \<Rightarrow> duration \<Rightarrow> pg_db \<Rightarrow> snap_row \<Rightarrow> bool" where
  "swept now ttl db r \<longleftrightarrow>
     sn_updated_at r < now - ttl \<and> row_idle now ttl (sn_hash r) (db_retrain db)"

definition sql_sweep :: "instant \<Rightarrow> duration \<Rightarrow> pg_db \<Rightarrow> int \<times> pg_db" where
  "sql_sweep now ttl db =
     (int (length (filter (swept now ttl db) (db_snaps db))),
      db\<lparr>db_snaps := filter (\<lambda>r. \<not> swept now ttl db r) (db_snaps db)\<rparr>)"

section \<open>baselines.workers\<close>

definition sql_heartbeat :: "instant \<Rightarrow> string \<Rightarrow> int \<Rightarrow> int \<Rightarrow> pg_db \<Rightarrow> pg_db" where
  "sql_heartbeat now wid owned peers db =
     (if wid \<in> wk_id ` set (db_workers db)
      then db\<lparr>db_workers := map (\<lambda>r. if wk_id r = wid
             then r\<lparr>wk_last_seen := now, wk_owned := owned, wk_peers := peers\<rparr> else r) (db_workers db)\<rparr>
      else db\<lparr>db_workers := db_workers db @ [\<lparr>wk_id = wid, wk_started = now, wk_last_seen = now,
             wk_owned = owned, wk_peers = peers\<rparr>]\<rparr>)"

definition sql_peers :: "instant \<Rightarrow> duration \<Rightarrow> pg_db \<Rightarrow> string list" where
  "sql_peers now ttl db =
     sort (map wk_id (filter (\<lambda>r. now - ttl < wk_last_seen r) (db_workers db)))"

section \<open>forecast.retrain\<close>

text \<open>
  A scheduled row: the columns the insert does not name get the defaults of the plugin's table
  (org 0, no attempts, not claimed, never run).
\<close>

definition new_row :: "instant \<Rightarrow> string \<Rightarrow> string \<Rightarrow> string \<Rightarrow> retrain_row" where
  "new_row now key cron tz =
     \<lparr>rt_scope = ''baseline'', rt_org = 0, rt_key = key, rt_cron = cron, rt_tz = tz,
      rt_enabled = True, rt_next = Some now, rt_last_run = None, rt_status = None,
      rt_attempts = 0, rt_superseded = None, rt_claimed_by = None, rt_claimed_until = None\<rparr>"

fun schedule_rows :: "instant \<Rightarrow> string list \<Rightarrow> string \<Rightarrow> string \<Rightarrow> retrain_row list \<Rightarrow> retrain_row list" where
  "schedule_rows now [] cron tz rs = rs"
| "schedule_rows now (k # ks) cron tz rs =
     schedule_rows now ks cron tz
       (if baseline_pk k \<in> rt_pk ` set rs then rs else rs @ [new_row now k cron tz])"

definition sql_schedule :: "instant \<Rightarrow> string list \<Rightarrow> string \<Rightarrow> string \<Rightarrow> pg_db \<Rightarrow> pg_db" where
  "sql_schedule now keys cron tz db =
     db\<lparr>db_retrain := schedule_rows now keys cron tz (db_retrain db)\<rparr>"

definition sql_baseline_keys :: "pg_db \<Rightarrow> string list" where
  "sql_baseline_keys db =
     map rt_key (filter (\<lambda>r. rt_scope r = ''baseline'' \<and> rt_org r = 0) (db_retrain db))"

definition retired_row :: "string list \<Rightarrow> retrain_row \<Rightarrow> bool" where
  "retired_row keys r \<longleftrightarrow> rt_scope r = ''baseline'' \<and> rt_org r = 0 \<and> rt_key r \<in> set keys"

definition sql_retire :: "string list \<Rightarrow> pg_db \<Rightarrow> (int \<times> int) \<times> pg_db" where
  "sql_retire keys db =
     ((int (length (filter (\<lambda>r. sn_hash r \<in> set keys) (db_snaps db))),
       int (length (filter (retired_row keys) (db_retrain db)))),
      db\<lparr>db_snaps := filter (\<lambda>r. sn_hash r \<notin> set keys) (db_snaps db),
         db_retrain := filter (\<lambda>r. \<not> retired_row keys r) (db_retrain db)\<rparr>)"

text \<open>
  The rows a claim may take. \<open>locked\<close> are the rows another transaction holds, which
  \<open>SKIP LOCKED\<close> passes over.
\<close>

definition due :: "instant \<Rightarrow> (row_key \<Rightarrow> bool) \<Rightarrow> retrain_row \<Rightarrow> bool" where
  "due now locked r \<longleftrightarrow>
     rt_scope r = ''baseline'' \<and> rt_org r = 0 \<and> rt_enabled r
     \<and> (case rt_next r of None \<Rightarrow> False | Some t \<Rightarrow> t \<le> now)
     \<and> rt_superseded r = None
     \<and> (case rt_claimed_until r of None \<Rightarrow> True | Some u \<Rightarrow> u < now)
     \<and> \<not> locked (rt_pk r)"

definition due_rows :: "instant \<Rightarrow> (row_key \<Rightarrow> bool) \<Rightarrow> int \<Rightarrow> pg_db \<Rightarrow> retrain_row list" where
  "due_rows now locked limit db =
     take (nat limit) (sort_key (\<lambda>r. case rt_next r of None \<Rightarrow> 0 | Some t \<Rightarrow> t)
       (filter (due now locked) (db_retrain db)))"

text \<open>
  The claims are listed by due time; PostgreSQL leaves the order of \<open>RETURNING\<close> open, and nothing rests on it.
\<close>

definition claim_of :: "retrain_row \<Rightarrow> retrainClaim" where
  "claim_of r = \<lparr>rc_OrgID = rt_org r, rc_Key = rt_key r, rc_Cron = rt_cron r,
     rc_Timezone = rt_tz r, rc_Attempts = rt_attempts r\<rparr>"

definition lease_row :: "string \<Rightarrow> instant \<Rightarrow> retrain_row \<Rightarrow> retrain_row" where
  "lease_row owner until r = r\<lparr>rt_claimed_by := Some owner, rt_claimed_until := Some until\<rparr>"

definition sql_claim :: "instant \<Rightarrow> (row_key \<Rightarrow> bool) \<Rightarrow> string \<Rightarrow> duration \<Rightarrow> int \<Rightarrow> pg_db
    \<Rightarrow> retrainClaim list \<times> pg_db" where
  "sql_claim now locked owner lease limit db =
     (let taken = due_rows now locked limit db
      in (map claim_of taken,
          db\<lparr>db_retrain := map (\<lambda>r. if rt_pk r \<in> rt_pk ` set taken
               then lease_row owner (now + lease) r else r) (db_retrain db)\<rparr>))"

text \<open>The owner guard of a finish and of an extension.\<close>

definition held_row :: "string \<Rightarrow> int \<Rightarrow> string \<Rightarrow> retrain_row \<Rightarrow> bool" where
  "held_row owner org key r \<longleftrightarrow>
     rt_scope r = ''baseline'' \<and> rt_org r = org \<and> rt_key r = key \<and> rt_claimed_by r = Some owner"

definition finish_row :: "instant \<Rightarrow> instant \<Rightarrow> string \<Rightarrow> int \<Rightarrow> retrain_row \<Rightarrow> retrain_row" where
  "finish_row now nxt status attempts r =
     r\<lparr>rt_next := Some nxt, rt_last_run := Some now, rt_status := Some status,
       rt_attempts := attempts, rt_claimed_by := None, rt_claimed_until := None\<rparr>"

definition sql_done :: "instant \<Rightarrow> string \<Rightarrow> int \<Rightarrow> string \<Rightarrow> instant \<Rightarrow> string \<Rightarrow> int \<Rightarrow> pg_db
    \<Rightarrow> int \<times> pg_db" where
  "sql_done now owner org key nxt status attempts db =
     (int (length (filter (held_row owner org key) (db_retrain db))),
      db\<lparr>db_retrain := map (\<lambda>r. if held_row owner org key r
           then finish_row now nxt status attempts r else r) (db_retrain db)\<rparr>)"

definition sql_extend :: "instant \<Rightarrow> string \<Rightarrow> int \<Rightarrow> string \<Rightarrow> duration \<Rightarrow> pg_db \<Rightarrow> int \<times> pg_db" where
  "sql_extend now owner org key lease db =
     (int (length (filter (held_row owner org key) (db_retrain db))),
      db\<lparr>db_retrain := map (\<lambda>r. if held_row owner org key r
           then r\<lparr>rt_claimed_until := Some (now + lease)\<rparr> else r) (db_retrain db)\<rparr>)"

section \<open>Lemmas: the invariant\<close>

lemma map_map_key: "(\<And>r. key (f r) = key r) \<Longrightarrow> map key (map f rs) = map key rs"
  by simp

lemma finish_row_pk [simp]: "rt_pk (finish_row now nxt status attempts r) = rt_pk r"
  by (simp add: finish_row_def rt_pk_def)

lemma lease_row_pk [simp]: "rt_pk (lease_row owner until r) = rt_pk r"
  by (simp add: lease_row_def rt_pk_def)

lemma until_pk [simp]: "rt_pk (r\<lparr>rt_claimed_until := u\<rparr>) = rt_pk r"
  by (simp add: rt_pk_def)

lemma new_row_pk [simp]: "rt_pk (new_row now k cron tz) = baseline_pk k"
  by (simp add: new_row_def rt_pk_def baseline_pk_def)

lemma snap_of_hash [simp]: "sn_hash (snap_of now key rec body) = key"
  by (simp add: snap_of_def)

lemma baseline_pk_iff: "rt_pk r = baseline_pk k \<longleftrightarrow> rt_scope r = ''baseline'' \<and> rt_org r = 0 \<and> rt_key r = k"
  by (auto simp: rt_pk_def baseline_pk_def)

lemma schedule_rows_pk:
  "rt_pk ` set (schedule_rows now ks cron tz rs) = rt_pk ` set rs \<union> baseline_pk ` set ks"
  by (induction ks arbitrary: rs) auto

lemma schedule_rows_distinct:
  "distinct (map rt_pk rs) \<Longrightarrow> distinct (map rt_pk (schedule_rows now ks cron tz rs))"
  by (induction ks arbitrary: rs) auto

lemma map_if_pk:
  "(\<And>r. rt_pk (f r) = rt_pk r) \<Longrightarrow> map rt_pk (map (\<lambda>r. if P r then f r else r) rs) = map rt_pk rs"
  by simp

lemma sql_put_inv: "db_inv db \<Longrightarrow> db_inv (sql_put now key rec body db)"
proof -
  have "map sn_hash (map (\<lambda>r. if sn_hash r = key then snap_of now key rec body else r) rs)
      = map sn_hash rs" for rs
    by simp
  then show "db_inv db \<Longrightarrow> ?thesis" by (auto simp: db_inv_def sql_put_def simp del: map_map)
qed

lemma sql_sweep_inv: "db_inv db \<Longrightarrow> db_inv (snd (sql_sweep now ttl db))"
  by (simp add: db_inv_def sql_sweep_def distinct_map_filter)

lemma sql_heartbeat_inv: "db_inv db \<Longrightarrow> db_inv (sql_heartbeat now w owned peers db)"
proof -
  have upd: "map wk_id (map (\<lambda>r. if wk_id r = w then r\<lparr>wk_last_seen := now, wk_owned := owned,
      wk_peers := peers\<rparr> else r) rs) = map wk_id rs" for rs :: "worker_row list"
    by simp
  assume inv: "db_inv db"
  show ?thesis
  proof (cases "w \<in> wk_id ` set (db_workers db)")
    case True
    with inv upd show ?thesis by (simp add: db_inv_def sql_heartbeat_def del: map_map)
  next
    case False
    with inv show ?thesis by (simp add: db_inv_def sql_heartbeat_def)
  qed
qed

lemma sql_schedule_inv: "db_inv db \<Longrightarrow> db_inv (sql_schedule now keys cron tz db)"
  by (simp add: db_inv_def sql_schedule_def schedule_rows_distinct)

lemma sql_retire_inv: "db_inv db \<Longrightarrow> db_inv (snd (sql_retire keys db))"
  by (simp add: db_inv_def sql_retire_def distinct_map_filter)

lemma sql_claim_inv: "db_inv db \<Longrightarrow> db_inv (snd (sql_claim now locked owner lease limit db))"
  by (simp add: db_inv_def sql_claim_def Let_def map_if_pk del: map_map)

lemma sql_done_inv: "db_inv db \<Longrightarrow> db_inv (snd (sql_done now owner org key nxt status attempts db))"
  by (simp add: db_inv_def sql_done_def map_if_pk del: map_map)

lemma sql_extend_inv: "db_inv db \<Longrightarrow> db_inv (snd (sql_extend now owner org key lease db))"
  by (simp add: db_inv_def sql_extend_def map_if_pk del: map_map)

lemmas sql_inv = sql_put_inv sql_sweep_inv sql_heartbeat_inv sql_schedule_inv sql_retire_inv
  sql_claim_inv sql_done_inv sql_extend_inv

section \<open>Lemmas: lookups after statements\<close>

definition row_at :: "pg_db \<Rightarrow> row_key \<Rightarrow> retrain_row option" where
  "row_at db pk = find_row rt_pk pk (db_retrain db)"

definition snap_at :: "pg_db \<Rightarrow> string \<Rightarrow> snap_row option" where
  "snap_at db key = find_row sn_hash key (db_snaps db)"

lemma row_at_update:
  assumes "\<And>r. rt_pk (f r) = rt_pk r"
  shows "row_at (db\<lparr>db_retrain := map f (db_retrain db)\<rparr>) pk = map_option f (row_at db pk)"
  using assms by (simp add: row_at_def find_row_map)

lemma row_at_Some: "row_at db pk = Some r \<Longrightarrow> r \<in> set (db_retrain db) \<and> rt_pk r = pk"
  unfolding row_at_def by (rule find_row_Some)

lemma row_at_in: "db_inv db \<Longrightarrow> r \<in> set (db_retrain db) \<Longrightarrow> row_at db (rt_pk r) = Some r"
  unfolding row_at_def db_inv_def by (subst find_row_iff) blast+

lemma snap_at_put:
  "snap_at (sql_put now key rec body db) k = (if k = key then Some (snap_of now key rec body) else snap_at db k)"
proof -
  have upd: "find_row sn_hash k (map (\<lambda>r. if sn_hash r = key then snap_of now key rec body else r) rs)
      = (if k = key \<and> key \<in> sn_hash ` set rs then Some (snap_of now key rec body)
         else find_row sn_hash k rs)" for rs
    by (induction rs) auto
  have "find_row sn_hash key rs = None" if "key \<notin> sn_hash ` set rs" for rs :: "snap_row list"
    using that by (auto simp: find_row_None)
  with upd show ?thesis
    by (cases "key \<in> sn_hash ` set (db_snaps db)")
      (simp_all add: snap_at_def sql_put_def find_row_append split: option.split)
qed

lemma row_at_put [simp]: "row_at (sql_put now key rec body db) pk = row_at db pk"
  by (simp add: row_at_def sql_put_def)

lemma row_at_heartbeat [simp]: "row_at (sql_heartbeat now w o' p db) pk = row_at db pk"
  by (simp add: row_at_def sql_heartbeat_def)

lemma row_at_sweep [simp]: "row_at (snd (sql_sweep now ttl db)) pk = row_at db pk"
  by (simp add: row_at_def sql_sweep_def)

lemma row_at_schedule:
  "row_at (sql_schedule now keys cron tz db) pk =
     (case row_at db pk of
        Some r \<Rightarrow> Some r
      | None \<Rightarrow> if pk \<in> baseline_pk ` set keys then Some (new_row now (snd (snd pk)) cron tz) else None)"
proof -
  have "find_row rt_pk pk (schedule_rows now keys cron tz rs) =
     (case find_row rt_pk pk rs of
        Some r \<Rightarrow> Some r
      | None \<Rightarrow> if pk \<in> baseline_pk ` set keys then Some (new_row now (snd (snd pk)) cron tz) else None)" for rs
  proof (induction keys arbitrary: rs)
    case (Cons k ks)
    show ?case
    proof (cases "baseline_pk k \<in> rt_pk ` set rs")
      case True
      then obtain r where "r \<in> set rs" "rt_pk r = baseline_pk k" by (metis imageE)
      then have "find_row rt_pk (baseline_pk k) rs \<noteq> None" by (auto simp: find_row_None)
      with True Cons show ?thesis by (auto split: option.split)
    next
      case False
      with Cons show ?thesis
        by (auto simp: find_row_append baseline_pk_def split: option.split)
    qed
  qed (simp split: option.split)
  then show ?thesis by (simp add: row_at_def sql_schedule_def)
qed

lemma row_at_retire:
  "row_at (snd (sql_retire keys db)) pk = (if pk \<in> baseline_pk ` set keys then None else row_at db pk)"
proof -
  have "filter (\<lambda>r. \<not> retired_row keys r) rs = filter (\<lambda>r. rt_pk r \<notin> baseline_pk ` set keys) rs" for rs
    by (rule filter_cong) (auto simp: retired_row_def rt_pk_def baseline_pk_def image_iff)
  then show ?thesis
    by (simp add: row_at_def sql_retire_def find_row_filter_key [where P = "\<lambda>k. k \<notin> baseline_pk ` set keys"])
qed

lemma snap_at_retire:
  "snap_at (snd (sql_retire keys db)) k = (if k \<in> set keys then None else snap_at db k)"
  by (simp add: snap_at_def sql_retire_def find_row_filter_key [where P = "\<lambda>k. k \<notin> set keys"])

lemma held_row_pk: "held_row owner org key r \<longleftrightarrow> rt_pk r = (''baseline'', org, key) \<and> rt_claimed_by r = Some owner"
  by (auto simp: held_row_def rt_pk_def)

lemma row_at_done:
  "row_at (snd (sql_done now owner org key nxt status attempts db)) pk =
     map_option (\<lambda>r. if pk = (''baseline'', org, key) \<and> rt_claimed_by r = Some owner
        then finish_row now nxt status attempts r else r) (row_at db pk)"
proof -
  have "row_at (snd (sql_done now owner org key nxt status attempts db)) pk
      = map_option (\<lambda>r. if held_row owner org key r then finish_row now nxt status attempts r else r)
          (row_at db pk)"
    by (simp add: sql_done_def row_at_update)
  then show ?thesis by (cases "row_at db pk") (auto dest: row_at_Some simp: held_row_pk)
qed

lemma row_at_extend:
  "row_at (snd (sql_extend now owner org key lease db)) pk =
     map_option (\<lambda>r. if pk = (''baseline'', org, key) \<and> rt_claimed_by r = Some owner
        then r\<lparr>rt_claimed_until := Some (now + lease)\<rparr> else r) (row_at db pk)"
proof -
  have "row_at (snd (sql_extend now owner org key lease db)) pk
      = map_option (\<lambda>r. if held_row owner org key r then r\<lparr>rt_claimed_until := Some (now + lease)\<rparr> else r)
          (row_at db pk)"
    by (simp add: sql_extend_def row_at_update)
  then show ?thesis by (cases "row_at db pk") (auto dest: row_at_Some simp: held_row_pk)
qed

lemma set_due_rows: "r \<in> set (due_rows now locked limit db) \<Longrightarrow> r \<in> set (db_retrain db) \<and> due now locked r"
  by (auto simp: due_rows_def dest: in_set_takeD)

lemma distinct_due_rows: "db_inv db \<Longrightarrow> distinct (map rt_pk (due_rows now locked limit db))"
proof -
  assume "db_inv db"
  then have "distinct (map rt_pk (filter (due now locked) (db_retrain db)))"
    by (simp add: db_inv_def distinct_map_filter)
  then have "distinct (map rt_pk (sort_key f (filter (due now locked) (db_retrain db))))" for f :: "retrain_row \<Rightarrow> instant"
    by (metis distinct_map distinct_sort set_sort)
  then show ?thesis by (simp add: due_rows_def flip: take_map)
qed

definition taken_pk :: "instant \<Rightarrow> (row_key \<Rightarrow> bool) \<Rightarrow> int \<Rightarrow> pg_db \<Rightarrow> row_key set" where
  "taken_pk now locked limit db = rt_pk ` set (due_rows now locked limit db)"

lemma row_at_claim:
  "row_at (snd (sql_claim now locked owner lease limit db)) pk =
     map_option (\<lambda>r. if pk \<in> taken_pk now locked limit db then lease_row owner (now + lease) r else r)
       (row_at db pk)"
proof -
  have "row_at (snd (sql_claim now locked owner lease limit db)) pk
      = map_option (\<lambda>r. if rt_pk r \<in> taken_pk now locked limit db then lease_row owner (now + lease) r else r)
          (row_at db pk)"
    unfolding sql_claim_def Let_def snd_conv taken_pk_def by (rule row_at_update) simp
  then show ?thesis by (cases "row_at db pk") (auto dest: row_at_Some)
qed

lemma taken_due:
  "db_inv db \<Longrightarrow> pk \<in> taken_pk now locked limit db \<Longrightarrow> \<exists>r. row_at db pk = Some r \<and> due now locked r"
  by (auto simp: taken_pk_def dest!: set_due_rows intro: row_at_in)

lemma claimed_taken:
  "c \<in> set (fst (sql_claim now locked owner lease limit db)) \<Longrightarrow>
     rc_OrgID c = 0 \<and> baseline_pk (rc_Key c) \<in> taken_pk now locked limit db"
  by (force simp: sql_claim_def Let_def taken_pk_def claim_of_def rt_pk_def baseline_pk_def due_def
      dest: set_due_rows)

lemma taken_claimed:
  "pk \<in> taken_pk now locked limit db \<Longrightarrow>
     \<exists>c \<in> set (fst (sql_claim now locked owner lease limit db)). pk = baseline_pk (rc_Key c)"
  by (force simp: sql_claim_def Let_def taken_pk_def claim_of_def rt_pk_def baseline_pk_def due_def
      dest: set_due_rows)

section \<open>Properties\<close>

text \<open>A row and a database for concrete inputs.\<close>

definition sample_row :: "string \<Rightarrow> instant \<Rightarrow> (string \<times> instant) option \<Rightarrow> retrain_row" where
  "sample_row key nxt claim = (new_row nxt key ''0 3 * * *'' ''UTC'')
     \<lparr>rt_claimed_by := map_option fst claim, rt_claimed_until := map_option snd claim\<rparr>"

definition sample_snap :: "string \<Rightarrow> instant \<Rightarrow> snap_row" where
  "sample_snap key t = \<lparr>sn_hash = key, sn_model = ''baseline'', sn_season = ''minute-week'', sn_calendar = [],
     sn_lookback_ms = 0, sn_trained_at = t, sn_body = ''x'', sn_updated_at = t\<rparr>"

definition sample_db :: pg_db where
  "sample_db = \<lparr>db_snaps = [sample_snap ''k1'' 0, sample_snap ''k2'' 90], db_workers = [],
     db_retrain = [sample_row ''k1'' 10 (Some (''a'', 100)), sample_row ''k2'' 20 None, sample_row ''k3'' 5 None]\<rparr>"

lemmas sample_defs = sample_db_def sample_row_def sample_snap_def new_row_def

lemma sample_db_inv: "db_inv sample_db"
  by (simp add: db_inv_def sample_defs rt_pk_def)

text \<open>
  Scheduling inserts one due row per new key and never touches an existing row: the operator's
  cron, time zone and claim survive every worker restart.
\<close>

theorem schedule_keeps_rows:
  "row_at (sql_schedule now keys cron tz db) pk =
     (case row_at db pk of
        Some r \<Rightarrow> Some r
      | None \<Rightarrow> if pk \<in> baseline_pk ` set keys then Some (new_row now (snd (snd pk)) cron tz) else None)"
  by (rule row_at_schedule)

text \<open>
  Retirement removes both sides of every named key, the model and the schedule row, leaves every
  other model and row alone, and is idempotent: repeating it deletes nothing more.
\<close>

theorem retire_removes_both_sides:
  "(\<forall>k. snap_at (snd (sql_retire keys db)) k = (if k \<in> set keys then None else snap_at db k))
   \<and> (\<forall>pk. row_at (snd (sql_retire keys db)) pk = (if pk \<in> baseline_pk ` set keys then None else row_at db pk))
   \<and> sql_retire keys (snd (sql_retire keys db)) = ((0, 0), snd (sql_retire keys db))"
  by (simp add: snap_at_retire row_at_retire) (simp add: sql_retire_def filter_filter filter_empty_conv)

text \<open>
  C35: The sweep deletes a snapshot exactly when nothing refreshed it within the window and its
  fleet-wide schedule row is idle or gone: a model whose row ran within the window survives.
\<close>

theorem sweep_spares_active:
  assumes "db_inv db"
  shows "snap_at (snd (sql_sweep now ttl db)) k =
     (case snap_at db k of
        None \<Rightarrow> None
      | Some s \<Rightarrow>
          if now - ttl \<le> sn_updated_at s then Some s
          else case Option.bind (row_at db (baseline_pk k)) rt_last_run of
                 None \<Rightarrow> None
               | Some t \<Rightarrow> if now - ttl < t then Some s else None)"
proof -
  have idle: "row_idle now ttl k (db_retrain db)
    = (case Option.bind (row_at db (baseline_pk k)) rt_last_run of None \<Rightarrow> True | Some t \<Rightarrow> \<not> now - ttl < t)"
  proof (cases "row_at db (baseline_pk k)")
    case None
    then have "\<forall>r \<in> set (db_retrain db). rt_pk r \<noteq> baseline_pk k" by (simp add: row_at_def find_row_None)
    then show ?thesis by (auto simp: row_idle_def None)
  next
    case (Some r)
    have "r' = r" if "r' \<in> set (db_retrain db)" "rt_pk r' = baseline_pk k" for r'
      using row_at_in [OF assms that(1)] that(2) Some by simp
    with row_at_Some [OF Some] have "(\<exists>r' \<in> set (db_retrain db). rt_pk r' = baseline_pk k \<and> P r') = P r" for P
      by auto
    with Some show ?thesis by (auto simp: row_idle_def split: option.split)
  qed
  have "distinct (map sn_hash (db_snaps db))" using assms by (simp add: db_inv_def)
  from find_row_filter [OF this, of k "\<lambda>r. \<not> swept now ttl db r"]
  show ?thesis
    using idle by (auto simp: snap_at_def sql_sweep_def swept_def dest: find_row_Some split: option.splits)
qed

theorem sweep_spares_active_witness:
  "snap_at (snd (sql_sweep 100 50 sample_db)) ''k1'' = None
   \<and> snap_at (snd (sql_sweep 100 50 sample_db)) ''k2'' = Some (sample_snap ''k2'' 90)"
  using sweep_spares_active [OF sample_db_inv, of 100 50 "''k1''"] sweep_spares_active [OF sample_db_inv, of 100 50 "''k2''"]
  by (simp add: snap_at_def row_at_def sample_defs rt_pk_def baseline_pk_def)

text \<open>
  Heartbeat membership: a worker is among the live peers exactly while its last heartbeat is
  younger than the TTL, and a heartbeat changes nobody else's liveness.
\<close>

theorem heartbeat_liveness:
  "v \<in> set (sql_peers now' ttl (sql_heartbeat now w o1 n db))
    = (if v = w then now' - ttl < now else v \<in> set (sql_peers now' ttl db))"
proof -
  have peer: "v \<in> set (sql_peers now' ttl d) \<longleftrightarrow> (\<exists>r \<in> set (db_workers d). wk_id r = v \<and> now' - ttl < wk_last_seen r)" for d
    by (auto simp: sql_peers_def)
  show ?thesis
  proof (cases "w \<in> wk_id ` set (db_workers db)")
    case True
    then show ?thesis unfolding peer by (auto simp: sql_heartbeat_def simp del: if_image_distrib)
  next
    case False
    then show ?thesis unfolding peer by (auto simp: sql_heartbeat_def)
  qed
qed

end
