(* ===== verification/Worker.thy ===== *)
theory Worker imports Membership Spans Schedule Kafka StoreModel "HOL-Library.AList"
begin

text \<open>
  The \<open>Publisher\<close> of \<open>publisher.go\<close>: its state, the environment it calls, and the
  first half of a tick (\<open>scan\<close>, \<open>heartbeat\<close>, \<open>retire\<close>, \<open>sweep\<close>).

  Everything outside the process is reached through an environment \<open>env\<close> whose functions
  take and return a world \<open>'w\<close>, so the order of the calls is the order in which the world
  is threaded: the Druid reader, the Kafka sink, the store (\<open>None\<close> is a nil
  \<open>storeBackend\<close>), the resolver, the clock, \<open>ctx.Err()\<close> and a slot of the training
  pool. The forecasting library is the record \<open>lib\<close> over its own types of series
  (\<open>'s\<close>), fitted models (\<open>'f\<close>) and snapshots (\<open>'m\<close>). The deadline a context
  carries only decides how a call ends, which is the world's choice. Log lines are not modelled; the
  flags that throttle them are.
\<close>

section \<open>The forecasting library and the environment\<close>

datatype fc_err = EmptyRange | FcErr go_err

record ('s, 'f, 'm) lib =
  lb_Len :: "'s \<Rightarrow> int"
  lb_Empty :: "'s \<Rightarrow> bool"
  lb_Time :: "'s \<Rightarrow> int \<Rightarrow> go_err + instant"
  lb_At :: "'s \<Rightarrow> int \<Rightarrow> go_err + instant \<times> f64"
  lb_Fit :: "'s \<Rightarrow> go_err + 'f"
  lb_SnapshotOf :: "'f \<Rightarrow> go_err + 'm"
  lb_Restore :: "'m \<Rightarrow> go_err + 'f"
  lb_Last :: "'m \<Rightarrow> int"
  lb_ForecastRange :: "'f \<Rightarrow> instant \<Rightarrow> instant \<Rightarrow> fc_err + 's"
  lb_Forecast :: "'f \<Rightarrow> int \<Rightarrow> go_err + 's"

record ('w, 'm) store_ops =
  so_Fresh :: "string list \<Rightarrow> 'w \<Rightarrow> (go_err + (string \<times> instant) list) \<times> 'w"
  so_Get :: "string \<Rightarrow> 'w \<Rightarrow> (go_err + 'm option) \<times> 'w"
  so_Put :: "string \<Rightarrow> snapshotRecord \<Rightarrow> 'm \<Rightarrow> 'w \<Rightarrow> (go_err + unit) \<times> 'w"
  so_Sweep :: "duration \<Rightarrow> 'w \<Rightarrow> (go_err + int) \<times> 'w"
  so_Schedule :: "string list \<Rightarrow> string \<Rightarrow> string \<Rightarrow> 'w \<Rightarrow> (go_err + unit) \<times> 'w"
  so_Claim :: "string \<Rightarrow> duration \<Rightarrow> int \<Rightarrow> 'w \<Rightarrow> (go_err + retrainClaim list) \<times> 'w"
  so_Extend :: "string \<Rightarrow> int \<Rightarrow> string \<Rightarrow> duration \<Rightarrow> 'w \<Rightarrow> (go_err + bool) \<times> 'w"
  so_Done :: "string \<Rightarrow> int \<Rightarrow> string \<Rightarrow> instant \<Rightarrow> string \<Rightarrow> int \<Rightarrow> 'w \<Rightarrow> (go_err + unit) \<times> 'w"
  so_BaselineKeys :: "'w \<Rightarrow> (go_err + string list) \<times> 'w"
  so_Retire :: "string list \<Rightarrow> 'w \<Rightarrow> (go_err + int \<times> int) \<times> 'w"
  so_Heartbeat :: "string \<Rightarrow> int \<Rightarrow> int \<Rightarrow> 'w \<Rightarrow> (go_err + unit) \<times> 'w"
  so_Peers :: "duration \<Rightarrow> 'w \<Rightarrow> (go_err + string list) \<times> 'w"

record ('w, 's, 'f, 'm) env =
  ev_lib :: "('s, 'f, 'm) lib"
  ev_store :: "('w, 'm) store_ops option"
  ev_Hashes :: "instant \<Rightarrow> instant \<Rightarrow> 'w \<Rightarrow> (go_err + metricSpan list) \<times> 'w"
  ev_Series :: "string \<Rightarrow> instant \<Rightarrow> instant \<Rightarrow> 'w \<Rightarrow> (go_err + 's) \<times> 'w"
  ev_Publish :: "BaselineMessage \<Rightarrow> 'w \<Rightarrow> go_err option \<times> 'w"
  ev_LookupHost :: "string \<Rightarrow> 'w \<Rightarrow> lookup \<times> 'w"
  ev_now :: "'w \<Rightarrow> instant \<times> 'w"
  ev_ctxErr :: "'w \<Rightarrow> go_err option \<times> 'w"
  ev_acquire :: "'w \<Rightarrow> go_err option \<times> 'w"
  ev_heldOrder :: "retrainClaim list \<Rightarrow> retrainClaim list"
  ev_quote :: "string \<Rightarrow> string"
  ev_cron :: cron_parser
  ev_location :: "string \<Rightarrow> go_err option"

section \<open>State\<close>

record 'f snapshotFit =
  sf_updatedAt :: instant
  sf_last :: instant
  sf_fitted :: 'f

text \<open>
  \<open>held\<close> is an association list, so that a shutdown can enumerate it; Go's map order is
  unspecified and is the environment's \<open>ev_heldOrder\<close>. \<open>ownedSet\<close> is scratch space
  of one call and has no field.
\<close>

record 'f publisher =
  pb_cfg :: Config
  pb_published :: "string \<rightharpoonup> int"
  pb_peers :: peer_source
  pb_scanAt :: instant
  pb_scanSpans :: "metricSpan list"
  pb_scanOK :: bool
  pb_freshAt :: instant
  pb_fitted :: "string \<rightharpoonup> 'f snapshotFit"
  pb_warned :: "string \<rightharpoonup> string"
  pb_held :: "(string \<times> retrainClaim) list"
  pb_lastPeers :: int
  pb_lastOwned :: int
  pb_countsLogged :: bool
  pb_hbWarned :: bool

definition newPublisher :: "host \<Rightarrow> Config \<Rightarrow> bool \<Rightarrow> 'f publisher" where
  "newPublisher h cfg hasStore =
     (let cfg = normalized cfg
      in \<lparr>pb_cfg = cfg, pb_published = Map.empty, pb_peers = newPeerSource h cfg hasStore,
          pb_scanAt = zero_time, pb_scanSpans = [], pb_scanOK = False,
          pb_freshAt = zero_time, pb_fitted = Map.empty, pb_warned = Map.empty, pb_held = [],
          pb_lastPeers = 0, pb_lastOwned = 0, pb_countsLogged = False, pb_hbWarned = False\<rparr>)"

abbreviation self_id :: "'f publisher \<Rightarrow> string" where
  "self_id p \<equiv> ps_self (pb_peers p)"

section \<open>The peer set of a tick\<close>

text \<open>
  \<open>p.peers.peers(ctx)\<close>: the one lookup its mode asks for is made in the world, and its
  answer is what \<open>peers\<close> sees.
\<close>

definition store_lookup :: "go_err + string list \<Rightarrow> lookup" where
  "store_lookup r = (case r of Inl e \<Rightarrow> Inl (err_text e) | Inr ids \<Rightarrow> Inr ids)"

definition tickPeers :: "('w, 's, 'f, 'm) env \<Rightarrow> 'f publisher \<Rightarrow> 'w \<Rightarrow> string list \<times> 'f publisher \<times> 'w" where
  "tickPeers ev p w =
     (let s = pb_peers p;
          ((r, t), w) =
            (if ps_mode s = ''dns'' \<and> ps_dnsName s \<noteq> [] then
               (case ev_LookupHost ev (ps_dnsName s) w of (x, w) \<Rightarrow> ((\<lambda>_. x, None), w))
             else if ps_mode s = ''store'' then
               (case ev_store ev of
                  None \<Rightarrow> ((\<lambda>_. Inr [], None), w)
                | Some so \<Rightarrow>
                    (case so_Peers so (ps_ttl s) w of (x, w) \<Rightarrow> ((\<lambda>_. Inr [], Some (\<lambda>_. store_lookup x)), w)))
             else ((\<lambda>_. Inr [], None), w));
          (ids, warning, s') = peers (Some r) t s
      in (ids, p\<lparr>pb_peers := s'\<rparr>, w))"

section \<open>scan\<close>

definition scan_cached :: "'f publisher \<Rightarrow> instant \<Rightarrow> bool" where
  "scan_cached p now \<longleftrightarrow> pb_scanOK p \<and> time_sub now (pb_scanAt p) < HashScanTTL (pb_cfg p)"

definition scan :: "('w, 's, 'f, 'm) env \<Rightarrow> 'f publisher \<Rightarrow> instant \<Rightarrow> 'w
    \<Rightarrow> (go_err + metricSpan list) \<times> 'f publisher \<times> 'w" where
  "scan ev p now w =
     (if scan_cached p now then (Inr (pb_scanSpans p), p, w)
      else case ev_Hashes ev (time_add now (i64 (- ScanRange (pb_cfg p)))) now w of
             (Inl e, w) \<Rightarrow> if pb_scanOK p then (Inr (pb_scanSpans p), p, w) else (Inl e, p, w)
           | (Inr spans, w) \<Rightarrow>
               (Inr spans, p\<lparr>pb_scanAt := now, pb_scanSpans := spans, pb_scanOK := True\<rparr>, w))"

section \<open>heartbeat, retire and sweep\<close>

definition heartbeat :: "('w, 's, 'f, 'm) env \<Rightarrow> 'f publisher \<Rightarrow> int \<Rightarrow> int \<Rightarrow> 'w \<Rightarrow> 'f publisher \<times> 'w" where
  "heartbeat ev p owned npeers w =
     (case ev_store ev of
        None \<Rightarrow> (p, w)
      | Some so \<Rightarrow>
          (case so_Heartbeat so (self_id p) owned npeers w of
             (Inl e, w) \<Rightarrow> (p\<lparr>pb_hbWarned := True\<rparr>, w)
           | (Inr _, w) \<Rightarrow> (p\<lparr>pb_hbWarned := False\<rparr>, w)))"

definition may_retire :: "'f publisher \<Rightarrow> metricSpan list \<Rightarrow> instant \<Rightarrow> bool" where
  "may_retire p spans now \<longleftrightarrow> scan_cached p now \<and> spans \<noteq> []"

definition retire :: "('w, 's, 'f, 'm) env \<Rightarrow> 'f publisher \<Rightarrow> metricSpan list \<Rightarrow> instant \<Rightarrow> 'w \<Rightarrow> int \<times> 'w" where
  "retire ev p spans now w =
     (case ev_store ev of
        None \<Rightarrow> (0, w)
      | Some so \<Rightarrow>
          if StaleAfter (pb_cfg p) \<le> 0 then (0, w)
          else if \<not> may_retire p spans now then (0, w)
          else case so_BaselineKeys so w of
                 (Inl e, w) \<Rightarrow> (0, w)
               | (Inr existing, w) \<Rightarrow>
                   (let keys = retiredKeys spans existing (Lookback (pb_cfg p)) (StaleAfter (pb_cfg p)) now
                    in if keys = [] then (0, w)
                       else case so_Retire so keys w of
                              (Inl e, w) \<Rightarrow> (0, w)
                            | (Inr (snapshots, rows), w) \<Rightarrow> (rows, w)))"

definition sweep :: "('w, 's, 'f, 'm) env \<Rightarrow> 'f publisher \<Rightarrow> 'w \<Rightarrow> 'w" where
  "sweep ev p w =
     (case ev_store ev of
        None \<Rightarrow> w
      | Some so \<Rightarrow> if SnapshotTTL (pb_cfg p) \<le> 0 then w else snd (so_Sweep so (SnapshotTTL (pb_cfg p)) w))"

section \<open>Lemmas\<close>

lemma tickPeers_result:
  "\<exists>r t. fst (tickPeers ev p w) = fst (peers r t (pb_peers p))
       \<and> fst (snd (tickPeers ev p w)) = p\<lparr>pb_peers := snd (snd (peers r t (pb_peers p)))\<rparr>"
  by (fastforce simp: tickPeers_def Let_def case_prod_beta split: option.split prod.split)

lemma tickPeers_frame:
  "pb_cfg (fst (snd (tickPeers ev p w))) = pb_cfg p"
  "pb_published (fst (snd (tickPeers ev p w))) = pb_published p"
  "pb_held (fst (snd (tickPeers ev p w))) = pb_held p"
  "self_id (fst (snd (tickPeers ev p w))) = self_id p"
  using tickPeers_result [of ev p w] peers_self by auto

lemma tickPeers_ok:
  assumes "peer_inv (pb_peers p)"
  shows "peer_set_ok (self_id p) (fst (tickPeers ev p w))"
    and "peer_inv (pb_peers (fst (snd (tickPeers ev p w))))"
    and "self_id (fst (snd (tickPeers ev p w))) = self_id p"
  using tickPeers_result [of ev p w] peers_ok [OF assms] by (metis publisher.select_convs(3) publisher.surjective publisher.update_convs(3))+

lemma scan_ok_latched: "pb_scanOK p \<Longrightarrow> pb_scanOK (fst (snd (scan ev p now w)))"
  by (simp add: scan_def split: prod.split sum.split)

lemma scan_ok_result: "pb_scanOK p \<Longrightarrow> \<exists>spans. fst (scan ev p now w) = Inr spans"
  by (simp add: scan_def split: prod.split sum.split)

lemma scan_spans: "fst (scan ev p now w) = Inr spans \<Longrightarrow> pb_scanSpans (fst (snd (scan ev p now w))) = spans \<and> pb_scanOK (fst (snd (scan ev p now w)))"
  by (auto simp: scan_def scan_cached_def split: prod.splits sum.splits if_splits)

lemma scan_frame:
  "pb_cfg (fst (snd (scan ev p now w))) = pb_cfg p" "pb_peers (fst (snd (scan ev p now w))) = pb_peers p"
  "pb_published (fst (snd (scan ev p now w))) = pb_published p"
  "pb_fitted (fst (snd (scan ev p now w))) = pb_fitted p"
  "pb_held (fst (snd (scan ev p now w))) = pb_held p"
  by (simp_all add: scan_def split: prod.split sum.split)

lemma heartbeat_frame:
  "pb_cfg (fst (heartbeat ev p o1 n w)) = pb_cfg p" "pb_peers (fst (heartbeat ev p o1 n w)) = pb_peers p"
  "pb_published (fst (heartbeat ev p o1 n w)) = pb_published p"
  "pb_held (fst (heartbeat ev p o1 n w)) = pb_held p"
  "pb_scanSpans (fst (heartbeat ev p o1 n w)) = pb_scanSpans p"
  by (simp_all add: heartbeat_def split: option.split prod.split sum.split)

section \<open>Properties\<close>

text \<open>
  A scan survives a Druid outage: once a scan has succeeded, a failing refresh returns the last
  good spans, keeps the time of that scan, so retirement stops when the cache expires, and changes
  nothing else; and within HASH_SCAN_TTL of a good scan no request is made at all.
\<close>

theorem scan_outage_keeps_spans:
  assumes "pb_scanOK p" "fst (ev_Hashes ev (time_add now (i64 (- ScanRange (pb_cfg p)))) now w) = Inl e"
  shows "fst (scan ev p now w) = Inr (pb_scanSpans p) \<and> fst (snd (scan ev p now w)) = p
    \<and> (if time_sub now (pb_scanAt p) < HashScanTTL (pb_cfg p) then snd (snd (scan ev p now w)) = w
       else may_retire p spans now = False)"
  using assms by (auto simp: scan_def scan_cached_def may_retire_def split: prod.split)

text \<open>
  Retirement needs fresh evidence: with an expired scan, an empty scan, no store or STALE_AFTER
  off, \<open>retire\<close> makes no call and removes nothing.
\<close>

theorem retire_needs_fresh_scan:
  assumes "ev_store ev = None \<or> StaleAfter (pb_cfg p) \<le> 0 \<or> spans = [] \<or> pb_scanOK p = False
    \<or> HashScanTTL (pb_cfg p) \<le> time_sub now (pb_scanAt p)"
  shows "retire ev p spans now w = (0, w)"
  using assms by (auto simp: retire_def may_retire_def scan_cached_def split: option.split)

end
