(* ===== verification/Retrain.thy ===== *)
theory Retrain imports Worker
begin

text \<open>
  The training half of a tick (\<open>publisher.go\<close>): \<open>retrain\<close>, \<open>trainHash\<close>,
  \<open>trainable\<close>, \<open>fitHash\<close>, \<open>finish\<close>, the claims a process holds, and
  \<open>releaseHeld\<close>.

  The goroutines of the pool are run one after the other, in the order the loop starts them: they
  share the store, the reader and the mutex-guarded \<open>held\<close> map, and each works on its own
  claim's key. \<open>TrainPool\<close> interleaves them and contains this order as one of its runs.
\<close>

section \<open>Held claims\<close>

definition hold :: "retrainClaim \<Rightarrow> 'f publisher \<Rightarrow> 'f publisher" where
  "hold c p = p\<lparr>pb_held := AList.update (rc_Key c) c (pb_held p)\<rparr>"

definition unhold :: "string \<Rightarrow> 'f publisher \<Rightarrow> 'f publisher" where
  "unhold key p = p\<lparr>pb_held := AList.delete key (pb_held p)\<rparr>"

definition finish :: "('w, 'm) store_ops \<Rightarrow> 'f publisher \<Rightarrow> retrainClaim \<Rightarrow> instant \<Rightarrow> string \<Rightarrow> int \<Rightarrow> 'w
    \<Rightarrow> 'f publisher \<times> 'w" where
  "finish so p c nxt status attempts w =
     (case so_Done so (self_id p) (rc_OrgID c) (rc_Key c) nxt status attempts w of
        (Inl e, w) \<Rightarrow> (p, w)
      | (Inr _, w) \<Rightarrow> (unhold (rc_Key c) p, w))"

section \<open>One fit\<close>

definition retryStatus :: "go_err \<Rightarrow> int \<Rightarrow> string" where
  "retryStatus err attempts =
     (if 0 < attempts then ''error: '' @ err_text err @ '' (attempt '' @ format_int attempts @ '')''
      else ''error: '' @ err_text err)"

fun trainable_in :: "metricSpan list \<Rightarrow> Config \<Rightarrow> string \<Rightarrow> go_err option" where
  "trainable_in [] cfg key = None"
| "trainable_in (sp # spans) cfg key =
     (if sp_Hash sp \<noteq> key then trainable_in spans cfg key
      else if \<not> eligible sp (Lookback cfg)
      then Some (Err (''only '' @ duration_text (time_sub (sp_Max sp) (sp_Min sp))
                      @ '' of history in the last '' @ duration_text (ScanRange cfg)
                      @ '', want '' @ duration_text (Lookback cfg)))
      else None)"

definition trainable :: "'f publisher \<Rightarrow> string \<Rightarrow> go_err option" where
  "trainable p key = trainable_in (pb_scanSpans p) (pb_cfg p) key"

definition lastStep :: "('s, 'f, 'm) lib \<Rightarrow> 's \<Rightarrow> duration" where
  "lastStep lib s =
     (let n = lb_Len lib s
      in if n < 2 then 0
         else case lb_Time lib s (n - 1) of
                Inl e \<Rightarrow> 0
              | Inr t1 \<Rightarrow>
                  (case lb_Time lib s (n - 2) of
                     Inl e \<Rightarrow> 0
                   | Inr t2 \<Rightarrow> time_sub t1 t2))"

definition modelBaseline :: string where "modelBaseline = ''baseline''"
definition seasonMinuteWeek :: string where "seasonMinuteWeek = ''minute-week''"

definition fit_record :: "Config \<Rightarrow> instant \<Rightarrow> snapshotRecord" where
  "fit_record cfg now =
     \<lparr>sr_Model = modelBaseline, sr_Season = seasonMinuteWeek, sr_Calendar = Calendar cfg,
      sr_Lookback = Lookback cfg, sr_TrainedAt = now\<rparr>"

definition fitHash :: "('w, 's, 'f, 'm) env \<Rightarrow> ('w, 'm) store_ops \<Rightarrow> 'f publisher \<Rightarrow> string \<Rightarrow> instant \<Rightarrow> 'w
    \<Rightarrow> go_err option \<times> 'w" where
  "fitHash ev so p key now w =
     (let lib = ev_lib ev; lookback = Lookback (pb_cfg p) in
      case ev_Series ev key (time_add now (i64 (- lookback))) now w of
        (Inl e, w) \<Rightarrow> (Some e, w)
      | (Inr s, w) \<Rightarrow>
          if lb_Empty lib s then (Some (Err (''no data in the last '' @ duration_text lookback)), w)
          else if lastStep lib s \<noteq> minute
          then (Some (Err (''step between the last two points is '' @ duration_text (lastStep lib s)
                           @ '', want 1m'')), w)
          else case lb_Fit lib s of
                 Inl e \<Rightarrow> (Some e, w)
               | Inr fitted \<Rightarrow>
                   (case lb_SnapshotOf lib fitted of
                      Inl e \<Rightarrow> (Some e, w)
                    | Inr snap \<Rightarrow>
                        (case so_Put so key (fit_record (pb_cfg p) now) snap w of
                           (Inl e, w) \<Rightarrow> (Some e, w)
                         | (Inr _, w) \<Rightarrow> (None, w))))"

text \<open>
  The outcome of the work on a claim: the error that made it fail, or the next fire time.
\<close>

definition train_work :: "('w, 's, 'f, 'm) env \<Rightarrow> ('w, 'm) store_ops \<Rightarrow> 'f publisher \<Rightarrow> retrainClaim \<Rightarrow> instant \<Rightarrow> 'w
    \<Rightarrow> (go_err + instant) \<times> 'w" where
  "train_work ev so p c now w =
     (let (err, w) = (case trainable p (rc_Key c) of
                        Some e \<Rightarrow> (Some e, w)
                      | None \<Rightarrow> fitHash ev so p (rc_Key c) now w)
      in case err of
           Some e \<Rightarrow> (Inl e, w)
         | None \<Rightarrow> (nextRun (ev_quote ev) (ev_cron ev) (ev_location ev) (rc_Cron c) (rc_Timezone c) now, w))"

definition retry_at :: "Config \<Rightarrow> instant \<Rightarrow> int \<Rightarrow> instant" where
  "retry_at cfg now attempts = time_add now (retryDelay (RetrainRetry cfg) (RetrainRetryMax cfg) attempts)"

definition trainHash :: "('w, 's, 'f, 'm) env \<Rightarrow> ('w, 'm) store_ops \<Rightarrow> 'f publisher \<Rightarrow> retrainClaim \<Rightarrow> instant \<Rightarrow> 'w
    \<Rightarrow> (bool \<times> bool) \<times> 'f publisher \<times> 'w" where
  "trainHash ev so p c now w =
     (let (ext, w) = so_Extend so (self_id p) (rc_OrgID c) (rc_Key c) (RetrainLease (pb_cfg p)) w
      in if ext = Inr False then ((False, False), p, w)
         else case train_work ev so p c now w of
                (Inr nxt, w) \<Rightarrow> let (p, w) = finish so p c nxt ''ok'' 0 w in ((True, False), p, w)
              | (Inl err, w) \<Rightarrow>
                  (let attempts = i64 (rc_Attempts c + 1);
                       (p, w) = finish so p c (retry_at (pb_cfg p) now attempts)
                                  (retryStatus err attempts) attempts w
                   in ((False, True), p, w)))"

section \<open>The pool\<close>

record retrainCounts =
  ct_claimed :: int
  ct_trained :: int
  ct_failed :: int

definition no_counts :: retrainCounts where
  "no_counts = \<lparr>ct_claimed = 0, ct_trained = 0, ct_failed = 0\<rparr>"

definition count_train :: "bool \<times> bool \<Rightarrow> retrainCounts \<Rightarrow> retrainCounts" where
  "count_train r n =
     n\<lparr>ct_trained := ct_trained n + (if fst r then 1 else 0),
       ct_failed := ct_failed n + (if snd r then 1 else 0)\<rparr>"

fun train_claims :: "('w, 's, 'f, 'm) env \<Rightarrow> ('w, 'm) store_ops \<Rightarrow> retrainClaim list \<Rightarrow> instant
    \<Rightarrow> retrainCounts \<Rightarrow> 'f publisher \<Rightarrow> 'w \<Rightarrow> retrainCounts \<times> 'f publisher \<times> 'w" where
  "train_claims ev so [] now n p w = (n, p, w)"
| "train_claims ev so (c # cs) now n p w =
     (case ev_acquire ev w of
        (Some e, w) \<Rightarrow> (n, p, w)
      | (None, w) \<Rightarrow>
          (let (r, p, w) = trainHash ev so p c now w
           in train_claims ev so cs now (count_train r n) p w))"

definition retrain :: "('w, 's, 'f, 'm) env \<Rightarrow> 'f publisher \<Rightarrow> string list \<Rightarrow> instant \<Rightarrow> 'w
    \<Rightarrow> retrainCounts \<times> 'f publisher \<times> 'w" where
  "retrain ev p keys now w =
     (case ev_store ev of
        None \<Rightarrow> (no_counts, p, w)
      | Some so \<Rightarrow>
          (let cfg = pb_cfg p;
               (_, w) = so_Schedule so keys (DefaultRetrainCron cfg) ''UTC'' w
           in case so_Claim so (self_id p) (RetrainLease cfg) (TrainConcurrency cfg) w of
                (Inl e, w) \<Rightarrow> (no_counts, p, w)
              | (Inr claims, w) \<Rightarrow>
                  if claims = [] then (no_counts, p, w)
                  else train_claims ev so claims now
                         (no_counts\<lparr>ct_claimed := int (length claims)\<rparr>) (fold hold claims p) w))"

section \<open>Shutdown\<close>

fun release_claims :: "('w, 's, 'f, 'm) env \<Rightarrow> ('w, 'm) store_ops \<Rightarrow> retrainClaim list \<Rightarrow> 'f publisher \<Rightarrow> 'w
    \<Rightarrow> 'f publisher \<times> 'w" where
  "release_claims ev so [] p w = (p, w)"
| "release_claims ev so (c # cs) p w =
     (let (t, w) = ev_now ev w
      in case so_Done so (self_id p) (rc_OrgID c) (rc_Key c) t ''error: interrupted'' (rc_Attempts c) w of
           (Inl e, w) \<Rightarrow> release_claims ev so cs p w
         | (Inr _, w) \<Rightarrow> release_claims ev so cs (unhold (rc_Key c) p) w)"

definition releaseHeld :: "('w, 's, 'f, 'm) env \<Rightarrow> 'f publisher \<Rightarrow> 'w \<Rightarrow> 'f publisher \<times> 'w" where
  "releaseHeld ev p w =
     (case ev_store ev of
        None \<Rightarrow> (p, w)
      | Some so \<Rightarrow> release_claims ev so (ev_heldOrder ev (map snd (pb_held p))) p w)"

section \<open>Frame lemmas\<close>

text \<open>Training only changes the held claims.\<close>

definition same_but_held :: "'f publisher \<Rightarrow> 'f publisher \<Rightarrow> bool" where
  "same_but_held p q \<longleftrightarrow> q = p\<lparr>pb_held := pb_held q\<rparr>"

lemma same_but_held_refl [simp]: "same_but_held p p"
  by (simp add: same_but_held_def)

lemma same_but_held_trans: "same_but_held p q \<Longrightarrow> same_but_held q r \<Longrightarrow> same_but_held p r"
  by (metis same_but_held_def publisher.surjective publisher.update_convs(10))

lemma same_but_held_fields:
  assumes "same_but_held p q"
  shows "pb_cfg q = pb_cfg p" "pb_peers q = pb_peers p" "pb_published q = pb_published p"
    "pb_fitted q = pb_fitted p" "pb_warned q = pb_warned p" "pb_scanSpans q = pb_scanSpans p"
    "pb_scanAt q = pb_scanAt p" "pb_scanOK q = pb_scanOK p"
  using assms unfolding same_but_held_def by (metis publisher.ext_inject publisher.surjective publisher.update_convs(10))+

lemma hold_same: "same_but_held p (hold c p)"
  by (simp add: same_but_held_def hold_def)

lemma unhold_same: "same_but_held p (unhold key p)"
  by (simp add: same_but_held_def unhold_def)

lemma fold_hold_same: "same_but_held p (fold hold cs p)"
  by (induction cs arbitrary: p) (auto intro: same_but_held_trans hold_same)

lemma finish_same: "same_but_held p (fst (finish so p c nxt status a w))"
  by (simp add: finish_def unhold_same split: sum.split prod.split)

lemma trainHash_same: "same_but_held p (fst (snd (trainHash ev so p c now w)))"
  by (auto simp: trainHash_def Let_def case_prod_beta finish_same split: sum.split)

lemma train_claims_same: "same_but_held p (fst (snd (train_claims ev so cs now n p w)))"
proof (induction cs arbitrary: n p w)
  case (Cons c cs)
  then show ?case
    by (auto simp: case_prod_beta intro: same_but_held_trans [OF trainHash_same Cons.IH] split: option.split)
qed simp

lemma retrain_same: "same_but_held p (fst (snd (retrain ev p keys now w)))"
  by (auto simp: retrain_def Let_def case_prod_beta
      intro: same_but_held_trans [OF fold_hold_same train_claims_same] split: option.split sum.split)

section \<open>Lemmas: the pool\<close>

lemma trainHash_outcome: "fst (trainHash ev so p c now w) \<in> {(True, False), (False, True), (False, False)}"
  by (auto simp: trainHash_def Let_def case_prod_beta split: sum.split)

lemma train_claims_counts:
  "case fst (train_claims ev so cs now n p w) of m \<Rightarrow> ct_claimed m = ct_claimed n
     \<and> ct_trained n \<le> ct_trained m \<and> ct_failed n \<le> ct_failed m
     \<and> ct_trained m + ct_failed m \<le> ct_trained n + ct_failed n + int (length cs)"
proof (induction cs arbitrary: n p w)
  case (Cons c cs)
  obtain e v where a: "ev_acquire ev w = (e, v)" by fastforce
  obtain r q u where t: "trainHash ev so p c now v = (r, q, u)" by (rule prod_cases3)
  with trainHash_outcome [of ev so p c now v] have r: "r \<in> {(True, False), (False, True), (False, False)}" by simp
  from Cons.IH [of "count_train r n" q u] a t r show ?case
    by (auto simp: count_train_def split: option.split)
qed simp

text \<open>The keys of the claims whose release the store refuses, and the world after the release.\<close>

fun refused :: "('w, 's, 'f, 'm) env \<Rightarrow> ('w, 'm) store_ops \<Rightarrow> string \<Rightarrow> retrainClaim list \<Rightarrow> 'w \<Rightarrow> string list \<times> 'w" where
  "refused ev so me [] w = ([], w)"
| "refused ev so me (c # cs) w =
     (let (t, w) = ev_now ev w;
          (d, w) = so_Done so me (rc_OrgID c) (rc_Key c) t ''error: interrupted'' (rc_Attempts c) w;
          (ks, w) = refused ev so me cs w
      in (if isl d then rc_Key c # ks else ks, w))"

lemma refused_subset: "set (fst (refused ev so me cs w)) \<subseteq> rc_Key ` set cs"
  by (induction cs arbitrary: w) (auto simp: case_prod_beta Let_def)

lemma held_keys_unhold: "fst ` set (pb_held (unhold key p)) = fst ` set (pb_held p) - {key}"
proof -
  have "set (map fst (AList.delete key (pb_held p))) = set (map fst (pb_held p)) - {key}"
    by (simp only: delete_keys set_removeAll)
  then show ?thesis by (simp add: unhold_def)
qed

lemma release_claims_held:
  "distinct (map rc_Key cs) \<Longrightarrow>
   fst ` set (pb_held (fst (release_claims ev so cs p w)))
     = fst ` set (pb_held p) - (rc_Key ` set cs - set (fst (refused ev so (self_id p) cs w)))
   \<and> snd (release_claims ev so cs p w) = snd (refused ev so (self_id p) cs w)"
proof (induction cs arbitrary: p w)
  case (Cons c cs)
  obtain t w1 where t: "ev_now ev w = (t, w1)" by fastforce
  obtain d w2 where d: "so_Done so (self_id p) (rc_OrgID c) (rc_Key c) t ''error: interrupted'' (rc_Attempts c) w1 = (d, w2)"
    by fastforce
  have sub: "set (fst (refused ev so (self_id p) cs w2)) \<subseteq> rc_Key ` set cs" by (rule refused_subset)
  have new: "rc_Key c \<notin> rc_Key ` set cs" "distinct (map rc_Key cs)" using Cons.prems by auto
  show ?case
  proof (cases d)
    case (Inl e)
    with Cons.IH [OF new(2), of p w2] t d new(1) show ?thesis by (auto simp: case_prod_beta Let_def)
  next
    case (Inr u)
    have "self_id (unhold (rc_Key c) p) = self_id p" by (simp add: unhold_def)
    with Cons.IH [OF new(2), of "unhold (rc_Key c) p" w2] t d new(1) sub Inr show ?thesis
      by (auto simp: case_prod_beta Let_def held_keys_unhold)
  qed
qed simp

section \<open>Properties\<close>

text \<open>
  A claim that moved on is skipped: when the extension answers that another worker owns the row,
  \<open>trainHash\<close> makes no Druid request, stores no model and writes no finish; the row is counted
  neither as trained nor as failed.
\<close>

theorem lost_claim_is_skipped:
  assumes "so_Extend so (self_id p) (rc_OrgID c) (rc_Key c) (RetrainLease (pb_cfg p)) w = (Inr False, w')"
  shows "trainHash ev so p c now w = ((False, False), p, w')"
  using assms by (simp add: trainHash_def)

text \<open>
  The counts of a tick's retrain add up: trained and failed rows are among the claimed ones, and
  nothing is claimed beyond what the claim statement returned.
\<close>

theorem retrain_counts_bounded:
  "case fst (retrain ev p keys now w) of n \<Rightarrow>
     0 \<le> ct_trained n \<and> 0 \<le> ct_failed n \<and> ct_trained n + ct_failed n \<le> ct_claimed n"
proof -
  have "0 \<le> ct_trained m \<and> 0 \<le> ct_failed m \<and> ct_trained m + ct_failed m \<le> ct_claimed m"
    if "m = fst (train_claims ev so cs now (no_counts\<lparr>ct_claimed := int (length cs)\<rparr>) q v)" for so cs q v m
    using train_claims_counts [of ev so cs now "no_counts\<lparr>ct_claimed := int (length cs)\<rparr>" q v] that
    by (auto simp: no_counts_def)
  then show ?thesis
    by (auto simp: retrain_def Let_def case_prod_beta no_counts_def split: option.split sum.split)
qed

text \<open>
  A release at shutdown asks the store to finish every held claim in the worker's own name, with
  the attempt count the claim had, and afterwards the process holds exactly the claims whose finish
  the store refused.
\<close>

theorem release_keeps_refused:
  assumes "ev_store ev = Some so" "ev_heldOrder ev (map snd (pb_held p)) = cs"
    and "rc_Key ` set cs = fst ` set (pb_held p)" "distinct (map rc_Key cs)"
  shows "fst ` set (pb_held (fst (releaseHeld ev p w))) = set (fst (refused ev so (self_id p) cs w))
    \<and> snd (releaseHeld ev p w) = snd (refused ev so (self_id p) cs w)"
  using release_claims_held [OF assms(4), of ev so p w] refused_subset [of ev so "self_id p" cs w] assms
  by (auto simp: releaseHeld_def)

end
