(* ===== verification/Emit.thy ===== *)
theory Emit imports Retrain
begin

text \<open>
  The publishing half of a tick (\<open>publisher.go\<close>): \<open>pruneFits\<close>,
  \<open>refreshSnapshots\<close>, \<open>emit\<close>, \<open>emitSnapshot\<close>, \<open>fitForecast\<close>, \<open>publish\<close>
  and \<open>warnOnce\<close>.
\<close>

section \<open>State kept per hash\<close>

definition pruneFits :: "string list \<Rightarrow> 'f publisher \<Rightarrow> 'f publisher" where
  "pruneFits keys p =
     p\<lparr>pb_fitted := (\<lambda>k. if k \<in> set keys then pb_fitted p k else None),
       pb_warned := (\<lambda>k. if k \<in> set keys then pb_warned p k else None),
       pb_published := (\<lambda>k. if k \<in> set keys then pb_published p k else None)\<rparr>"

text \<open>\<open>warnOnce\<close> returns whether it logs.\<close>

definition warnOnce :: "string \<Rightarrow> string \<Rightarrow> 'f publisher \<Rightarrow> bool \<times> 'f publisher" where
  "warnOnce key reason p =
     (if pb_warned p key = Some reason then (False, p)
      else (True, p\<lparr>pb_warned := (pb_warned p)(key \<mapsto> reason)\<rparr>))"

definition forget_fit :: "string \<Rightarrow> 'f publisher \<Rightarrow> 'f publisher" where
  "forget_fit key p = p\<lparr>pb_fitted := (pb_fitted p)(key := None)\<rparr>"

definition keep_fit :: "string \<Rightarrow> 'f snapshotFit \<Rightarrow> 'f publisher \<Rightarrow> 'f publisher" where
  "keep_fit key fit p =
     p\<lparr>pb_fitted := (pb_fitted p)(key \<mapsto> fit), pb_warned := (pb_warned p)(key := None)\<rparr>"

section \<open>refreshSnapshots\<close>

text \<open>The map \<open>fresh\<close> holds the last row of each key.\<close>

definition fresh_map :: "(string \<times> instant) list \<Rightarrow> (string \<rightharpoonup> instant)" where
  "fresh_map rows = map_of (rev rows)"

definition refresh_key :: "('w, 's, 'f, 'm) env \<Rightarrow> ('w, 'm) store_ops \<Rightarrow> (string \<rightharpoonup> instant) \<Rightarrow> string
    \<Rightarrow> 'f publisher \<Rightarrow> 'w \<Rightarrow> 'f publisher \<times> 'w" where
  "refresh_key ev so fresh key p w =
     (case fresh key of
        None \<Rightarrow> (forget_fit key p, w)
      | Some updated \<Rightarrow>
          if (case pb_fitted p key of None \<Rightarrow> False | Some c \<Rightarrow> sf_updatedAt c = updated) then (p, w)
          else case so_Get so key w of
                 (Inl e, w) \<Rightarrow> (p, w)
               | (Inr None, w) \<Rightarrow> (forget_fit key p, w)
               | (Inr (Some snap), w) \<Rightarrow>
                   (case lb_Restore (ev_lib ev) snap of
                      Inl e \<Rightarrow> (p, w)
                    | Inr fitted \<Rightarrow>
                        (keep_fit key \<lparr>sf_updatedAt = updated,
                                       sf_last = from_milli (lb_Last (ev_lib ev) snap),
                                       sf_fitted = fitted\<rparr> p, w)))"

fun refresh_keys :: "('w, 's, 'f, 'm) env \<Rightarrow> ('w, 'm) store_ops \<Rightarrow> (string \<rightharpoonup> instant) \<Rightarrow> string list
    \<Rightarrow> 'f publisher \<Rightarrow> 'w \<Rightarrow> 'f publisher \<times> 'w" where
  "refresh_keys ev so fresh [] p w = (p, w)"
| "refresh_keys ev so fresh (key # keys) p w =
     (let (p, w) = refresh_key ev so fresh key p w in refresh_keys ev so fresh keys p w)"

definition refreshSnapshots :: "('w, 's, 'f, 'm) env \<Rightarrow> string list \<Rightarrow> instant \<Rightarrow> 'f publisher \<Rightarrow> 'w
    \<Rightarrow> 'f publisher \<times> 'w" where
  "refreshSnapshots ev keys now p w =
     (case ev_store ev of
        None \<Rightarrow> (p, w)
      | Some so \<Rightarrow>
          if keys = [] then (p, w)
          else if pb_freshAt p \<noteq> zero_time \<and> time_sub now (pb_freshAt p) < SnapshotCacheTTL (pb_cfg p)
          then (p, w)
          else case so_Fresh so keys w of
                 (Inl e, w) \<Rightarrow> (p, w)
               | (Inr rows, w) \<Rightarrow> refresh_keys ev so (fresh_map rows) keys (p\<lparr>pb_freshAt := now\<rparr>) w)"

section \<open>Publishing one point\<close>

definition publish :: "('w, 's, 'f, 'm) env \<Rightarrow> string \<Rightarrow> instant \<Rightarrow> f64 \<Rightarrow> 'f publisher \<Rightarrow> 'w
    \<Rightarrow> bool \<times> 'f publisher \<times> 'w" where
  "publish ev key pt v p w =
     (let ms = unix_milli pt
      in if (case pb_published p key of None \<Rightarrow> False | Some prev \<Rightarrow> ms \<le> prev) then (False, p, w)
         else case ev_Publish ev \<lparr>MetricHash = key, MetricTS = ms, BaselineValue = v\<rparr> w of
                (Some e, w) \<Rightarrow> (False, p, w)
              | (None, w) \<Rightarrow> (True, p\<lparr>pb_published := (pb_published p)(key \<mapsto> ms)\<rparr>, w))"

text \<open>The last point of a series, when there is one.\<close>

definition last_point :: "('s, 'f, 'm) lib \<Rightarrow> 's \<Rightarrow> (instant \<times> f64) option" where
  "last_point lib out =
     (if lb_Empty lib out then None
      else case lb_At lib out (lb_Len lib out - 1) of Inl e \<Rightarrow> None | Inr pt \<Rightarrow> Some pt)"

definition emitSnapshot :: "('w, 's, 'f, 'm) env \<Rightarrow> string \<Rightarrow> instant \<Rightarrow> 'f publisher \<Rightarrow> 'w
    \<Rightarrow> bool \<times> 'f publisher \<times> 'w" where
  "emitSnapshot ev key ts p w =
     (case pb_fitted p key of
        None \<Rightarrow> (False, snd (warnOnce key ''no snapshot'' p), w)
      | Some cached \<Rightarrow>
          (case lb_ForecastRange (ev_lib ev) (sf_fitted cached) (time_add ts (- minute)) ts of
             Inl EmptyRange \<Rightarrow> (False, snd (warnOnce key ''behind horizon'' p), w)
           | Inl (FcErr e) \<Rightarrow> (False, p, w)
           | Inr out \<Rightarrow>
               (case last_point (ev_lib ev) out of
                  None \<Rightarrow> (False, p, w)
                | Some (t, v) \<Rightarrow>
                    if t \<le> sf_last cached then (False, snd (warnOnce key ''behind horizon'' p), w)
                    else if is_nan v then (False, p, w)
                    else publish ev key t v p w)))"

definition fitForecast :: "('w, 's, 'f, 'm) env \<Rightarrow> metricSpan \<Rightarrow> instant \<Rightarrow> 'f publisher \<Rightarrow> 'w
    \<Rightarrow> bool \<times> 'f publisher \<times> 'w" where
  "fitForecast ev sp now p w =
     (let lib = ev_lib ev; cfg = pb_cfg p in
      if \<not> alive sp (Lookback cfg) (StaleAfter cfg) now then (False, p, w)
      else case ev_Series ev (sp_Hash sp) (time_add (sp_Max sp) (i64 (- Lookback cfg))) now w of
             (Inl e, w) \<Rightarrow> (False, p, w)
           | (Inr s, w) \<Rightarrow>
               if lastStep lib s \<noteq> minute then (False, p, w)
               else case lb_Fit lib s of
                      Inl e \<Rightarrow> (False, p, w)
                    | Inr fitted \<Rightarrow>
                        (case lb_Forecast lib fitted (AheadMinutes cfg) of
                           Inl e \<Rightarrow> (False, p, w)
                         | Inr out \<Rightarrow>
                             (case last_point lib out of
                                None \<Rightarrow> (False, p, w)
                              | Some (t, v) \<Rightarrow>
                                  if is_nan v then (False, p, w)
                                  else publish ev (sp_Hash sp) t v p w)))"

section \<open>emit\<close>

definition horizon :: "Config \<Rightarrow> instant \<Rightarrow> instant" where
  "horizon cfg now = time_add (time_truncate now minute) (i64 (AheadMinutes cfg * minute))"

definition emit_one :: "('w, 's, 'f, 'm) env \<Rightarrow> metricSpan \<Rightarrow> instant \<Rightarrow> 'f publisher \<Rightarrow> 'w
    \<Rightarrow> bool \<times> 'f publisher \<times> 'w" where
  "emit_one ev sp now p w =
     (case ev_store ev of
        None \<Rightarrow> fitForecast ev sp now p w
      | Some so \<Rightarrow> emitSnapshot ev (sp_Hash sp) (horizon (pb_cfg p) now) p w)"

fun emit_spans :: "('w, 's, 'f, 'm) env \<Rightarrow> metricSpan list \<Rightarrow> bool list \<Rightarrow> instant \<Rightarrow> int
    \<Rightarrow> 'f publisher \<Rightarrow> 'w \<Rightarrow> int \<times> 'f publisher \<times> 'w" where
  "emit_spans ev (sp # spans) (o1 # owned) now n p w =
     (case ev_ctxErr ev w of
        (Some e, w) \<Rightarrow> (n, p, w)
      | (None, w) \<Rightarrow>
          if \<not> o1 then emit_spans ev spans owned now n p w
          else if \<not> alive sp (Lookback (pb_cfg p)) (StaleAfter (pb_cfg p)) now
          then emit_spans ev spans owned now n p w
          else let (ok, p, w) = emit_one ev sp now p w
               in emit_spans ev spans owned now (if ok then n + 1 else n) p w)"
| "emit_spans ev spans owned now n p w = (n, p, w)"

definition emit :: "('w, 's, 'f, 'm) env \<Rightarrow> metricSpan list \<Rightarrow> string list \<Rightarrow> bool list \<Rightarrow> instant
    \<Rightarrow> 'f publisher \<Rightarrow> 'w \<Rightarrow> int \<times> 'f publisher \<times> 'w" where
  "emit ev spans keys owned now p w =
     (let (p, w) = refreshSnapshots ev keys now (pruneFits keys p) w
      in emit_spans ev spans owned now 0 p w)"

section \<open>Frame lemmas\<close>

lemma pruneFits_frame:
  "pb_published (pruneFits keys p) = pb_published p |` set keys" "pb_cfg (pruneFits keys p) = pb_cfg p"
  "pb_held (pruneFits keys p) = pb_held p" "pb_peers (pruneFits keys p) = pb_peers p"
  by (simp_all add: pruneFits_def restrict_map_def)

lemma refresh_key_frame:
  "pb_published (fst (refresh_key ev so fresh key p w)) = pb_published p"
  "pb_cfg (fst (refresh_key ev so fresh key p w)) = pb_cfg p"
  "pb_held (fst (refresh_key ev so fresh key p w)) = pb_held p"
  "pb_peers (fst (refresh_key ev so fresh key p w)) = pb_peers p"
  by (simp_all add: refresh_key_def forget_fit_def keep_fit_def split: option.split sum.split prod.split)

lemma refresh_keys_frame:
  "pb_published (fst (refresh_keys ev so fresh keys p w)) = pb_published p"
  "pb_cfg (fst (refresh_keys ev so fresh keys p w)) = pb_cfg p"
  "pb_held (fst (refresh_keys ev so fresh keys p w)) = pb_held p"
  "pb_peers (fst (refresh_keys ev so fresh keys p w)) = pb_peers p"
  by (induction keys arbitrary: p w) (simp_all add: refresh_key_frame case_prod_beta)

lemma refreshSnapshots_frame:
  "pb_published (fst (refreshSnapshots ev keys now p w)) = pb_published p"
  "pb_cfg (fst (refreshSnapshots ev keys now p w)) = pb_cfg p"
  "pb_held (fst (refreshSnapshots ev keys now p w)) = pb_held p"
  "pb_peers (fst (refreshSnapshots ev keys now p w)) = pb_peers p"
  by (simp_all add: refreshSnapshots_def refresh_keys_frame split: option.split sum.split prod.split)

lemma emitSnapshot_frame:
  "pb_held (fst (snd (emitSnapshot ev key ts p w))) = pb_held p"
  "pb_peers (fst (snd (emitSnapshot ev key ts p w))) = pb_peers p"
  "pb_cfg (fst (snd (emitSnapshot ev key ts p w))) = pb_cfg p"
  by (simp_all add: emitSnapshot_def publish_def warnOnce_def Let_def
      split: option.split sum.split fc_err.split prod.split)

lemma fitForecast_frame:
  "pb_held (fst (snd (fitForecast ev sp now p w))) = pb_held p"
  "pb_peers (fst (snd (fitForecast ev sp now p w))) = pb_peers p"
  "pb_cfg (fst (snd (fitForecast ev sp now p w))) = pb_cfg p"
  by (simp_all add: fitForecast_def publish_def Let_def split: option.split sum.split prod.split)

lemma emit_one_frame:
  "pb_held (fst (snd (emit_one ev sp now p w))) = pb_held p"
  "pb_peers (fst (snd (emit_one ev sp now p w))) = pb_peers p"
  "pb_cfg (fst (snd (emit_one ev sp now p w))) = pb_cfg p"
  by (simp_all add: emit_one_def emitSnapshot_frame fitForecast_frame split: option.split)

lemma emit_spans_frame:
  "pb_held (fst (snd (emit_spans ev spans owned now n p w))) = pb_held p"
  "pb_peers (fst (snd (emit_spans ev spans owned now n p w))) = pb_peers p"
  "pb_cfg (fst (snd (emit_spans ev spans owned now n p w))) = pb_cfg p"
proof -
  let ?q = "fst (snd (emit_spans ev spans owned now n p w))"
  have "pb_held ?q = pb_held p \<and> pb_peers ?q = pb_peers p \<and> pb_cfg ?q = pb_cfg p"
  proof (induction spans arbitrary: owned n p w)
    case (Cons sp spans)
    then show ?case
      by (cases owned) (simp_all add: case_prod_beta emit_one_frame split: option.split)
  qed simp
  then show "pb_held ?q = pb_held p" "pb_peers ?q = pb_peers p" "pb_cfg ?q = pb_cfg p" by simp_all
qed

lemma emit_frame:
  "pb_held (fst (snd (emit ev spans keys owned now p w))) = pb_held p"
  "pb_peers (fst (snd (emit ev spans keys owned now p w))) = pb_peers p"
  "pb_cfg (fst (snd (emit ev spans keys owned now p w))) = pb_cfg p"
  by (simp_all add: emit_def case_prod_beta emit_spans_frame refreshSnapshots_frame pruneFits_frame)

section \<open>Lemmas: what a tick keeps per hash\<close>

text \<open>The hashes the worker keeps state for.\<close>

definition kept_hashes :: "'f publisher \<Rightarrow> string set" where
  "kept_hashes p = dom (pb_published p) \<union> dom (pb_fitted p) \<union> dom (pb_warned p)"

lemma kept_prune: "kept_hashes (pruneFits keys p) \<subseteq> set keys"
  by (auto simp: kept_hashes_def pruneFits_def split: if_splits)

lemma kept_refresh_key: "kept_hashes (fst (refresh_key ev so fresh key p w)) \<subseteq> insert key (kept_hashes p)"
  by (auto simp: refresh_key_def kept_hashes_def forget_fit_def keep_fit_def
      split: option.splits sum.splits prod.splits if_splits)

lemma kept_refresh_keys: "kept_hashes (fst (refresh_keys ev so fresh keys p w)) \<subseteq> set keys \<union> kept_hashes p"
proof (induction keys arbitrary: p w)
  case (Cons key keys)
  then show ?case
    using kept_refresh_key [of ev so fresh key p w] by (simp add: case_prod_beta) blast
qed simp

lemma kept_refresh: "kept_hashes (fst (refreshSnapshots ev keys now p w)) \<subseteq> set keys \<union> kept_hashes p"
proof -
  have "kept_hashes (p\<lparr>pb_freshAt := now\<rparr>) = kept_hashes p" by (simp add: kept_hashes_def)
  then have "kept_hashes (fst (refresh_keys ev so f keys (p\<lparr>pb_freshAt := now\<rparr>) v)) \<subseteq> set keys \<union> kept_hashes p" for so f v
    using kept_refresh_keys [of ev so f keys "p\<lparr>pb_freshAt := now\<rparr>" v] by simp
  then show ?thesis
    by (simp add: refreshSnapshots_def split: option.split sum.split prod.split)
qed

lemma kept_publish: "kept_hashes (fst (snd (publish ev key t v p w))) \<subseteq> insert key (kept_hashes p)"
  by (auto simp: publish_def Let_def kept_hashes_def split: option.splits prod.splits)

lemma kept_warn: "kept_hashes (snd (warnOnce key reason p)) \<subseteq> insert key (kept_hashes p)"
  by (auto simp: warnOnce_def kept_hashes_def)

lemma kept_emit_one: "kept_hashes (fst (snd (emit_one ev sp now p w))) \<subseteq> insert (sp_Hash sp) (kept_hashes p)"
proof -
  have "kept_hashes (fst (snd (emitSnapshot ev key ts p v))) \<subseteq> insert key (kept_hashes p)" for key ts v
    by (simp add: emitSnapshot_def kept_publish kept_warn subset_insertI
        split: option.split sum.split fc_err.split)
  moreover have "kept_hashes (fst (snd (fitForecast ev sp now p v))) \<subseteq> insert (sp_Hash sp) (kept_hashes p)" for v
    by (simp add: fitForecast_def Let_def kept_publish subset_insertI split: option.split sum.split prod.split)
  ultimately show ?thesis by (simp add: emit_one_def split: option.split)
qed

lemma kept_emit_spans:
  "kept_hashes (fst (snd (emit_spans ev spans owned now n p w)))
     \<subseteq> set (readyKeys spans owned (Lookback (pb_cfg p)) (StaleAfter (pb_cfg p)) now) \<union> kept_hashes p"
proof (induction spans arbitrary: owned n p w)
  case (Cons sp spans)
  show ?case
  proof (cases owned)
    case (Cons o1 os)
    obtain e v where ctx: "ev_ctxErr ev w = (e, v)" by fastforce
    obtain ok p1 w1 where one: "emit_one ev sp now p v = (ok, p1, w1)" by (rule prod_cases3)
    have "pb_cfg p1 = pb_cfg p" "kept_hashes p1 \<subseteq> insert (sp_Hash sp) (kept_hashes p)"
      using emit_one_frame(3) [of ev sp now p v] kept_emit_one [of ev sp now p v] one by simp_all
    with Cons.IH [of os "if ok then n + 1 else n" p1 w1] Cons.IH [of os n p v] ctx one Cons show ?thesis
      by (cases e) (auto split: if_splits)
  qed simp
qed simp

section \<open>Properties\<close>

text \<open>
  C36: A worker's memory follows its share: after a tick's \<open>emit\<close> the publish marks, the restored
  fits and the warning flags are kept for ready hashes only, so a hash that moved to another peer
  or stopped being alive is forgotten in the same tick.
\<close>

theorem emit_keeps_ready_only:
  "kept_hashes (fst (snd (emit ev spans
      (readyKeys spans owned (Lookback (pb_cfg p)) (StaleAfter (pb_cfg p)) now) owned now p w)))
   \<subseteq> set (readyKeys spans owned (Lookback (pb_cfg p)) (StaleAfter (pb_cfg p)) now)"
proof -
  let ?ready = "readyKeys spans owned (Lookback (pb_cfg p)) (StaleAfter (pb_cfg p)) now"
  obtain q v where q: "refreshSnapshots ev ?ready now (pruneFits ?ready p) w = (q, v)" by fastforce
  then have "pb_cfg q = pb_cfg p" "kept_hashes q \<subseteq> set ?ready"
    using refreshSnapshots_frame(2) [of ev ?ready now "pruneFits ?ready p" w]
      kept_refresh [of ev ?ready now "pruneFits ?ready p" w] kept_prune [of ?ready p]
    by (auto simp: pruneFits_frame)
  with kept_emit_spans [of ev spans owned now 0 q v] q show ?thesis by (auto simp: emit_def)
qed

end
