(* ===== verification/Tick.thy ===== *)
theory Tick imports Emit
begin

text \<open>
  One pass of the worker and its loop (\<open>publisher.go\<close>): \<open>runTick\<close>, \<open>logTick\<close>,
  \<open>tick\<close> and \<open>Run\<close>.
\<close>

record tickResult =
  tr_peers :: int
  tr_owned :: int
  tr_skipped :: int
  tr_ineligible :: int
  tr_published :: int
  tr_retrained :: int
  tr_claimed :: int
  tr_failed :: int
  tr_retired :: int

definition runTick :: "('w, 's, 'f, 'm) env \<Rightarrow> 'f publisher \<Rightarrow> 'w \<Rightarrow> tickResult option \<times> 'f publisher \<times> 'w" where
  "runTick ev p w =
     (case ev_ctxErr ev w of
        (Some e, w) \<Rightarrow> (None, p, w)
      | (None, w) \<Rightarrow>
          (let (now, w) = ev_now ev w;
               (ps, p, w) = tickPeers ev p w
           in case scan ev p now w of
                (Inl e, p, w) \<Rightarrow> (None, p, w)
              | (Inr spans, p, w) \<Rightarrow>
                  (let owned = ownedSpans spans (self_id p) ps;
                       keys = ownedKeys spans owned;
                       (p, w) = heartbeat ev p (int (length keys)) (int (length ps)) w;
                       (retired, w) = retire ev p spans now w;
                       w = sweep ev p w;
                       ready = readyKeys spans owned (Lookback (pb_cfg p)) (StaleAfter (pb_cfg p)) now;
                       (counts, p, w) = retrain ev p ready now w;
                       (n, p, w) = emit ev spans ready owned now p w
                   in (Some \<lparr>tr_peers = int (length ps), tr_owned = int (length keys),
                             tr_skipped = int (length spans) - int (length keys),
                             tr_ineligible = int (length keys) - int (length ready),
                             tr_published = n, tr_retrained = ct_trained counts,
                             tr_claimed = ct_claimed counts, tr_failed = ct_failed counts,
                             tr_retired = retired\<rparr>, p, w))))"

text \<open>The first half of a tick that is not cancelled: its clock, its peer set and its spans.\<close>

definition tick_start :: "('w, 's, 'f, 'm) env \<Rightarrow> 'f publisher \<Rightarrow> 'w
    \<Rightarrow> instant \<times> string list \<times> (go_err + metricSpan list) \<times> 'f publisher \<times> 'w" where
  "tick_start ev p w =
     (let (now, w) = ev_now ev (snd (ev_ctxErr ev w));
          (ps, p, w) = tickPeers ev p w
      in (now, ps, scan ev p now w))"

definition logTick :: "tickResult \<Rightarrow> 'f publisher \<Rightarrow> 'f publisher" where
  "logTick r p =
     (if \<not> pb_countsLogged p \<or> tr_peers r \<noteq> pb_lastPeers p \<or> tr_owned r \<noteq> pb_lastOwned p
      then p\<lparr>pb_lastPeers := tr_peers r, pb_lastOwned := tr_owned r, pb_countsLogged := True\<rparr>
      else p)"

definition tick :: "('w, 's, 'f, 'm) env \<Rightarrow> 'f publisher \<Rightarrow> 'w \<Rightarrow> 'f publisher \<times> 'w" where
  "tick ev p w =
     (case runTick ev p w of
        (None, p, w) \<Rightarrow> (p, w)
      | (Some r, p, w) \<Rightarrow> (logTick r p, w))"

text \<open>
  \<open>Run\<close> ticks at once and then as the \<open>select\<close> decides, one event per iteration; the loop
  has returned when a cancellation was among the events.
\<close>

datatype loop_event = Fired | Cancelled

fun run_loop :: "('w, 's, 'f, 'm) env \<Rightarrow> loop_event list \<Rightarrow> 'f publisher \<Rightarrow> 'w \<Rightarrow> bool \<times> 'f publisher \<times> 'w" where
  "run_loop ev [] p w = (False, p, w)"
| "run_loop ev (Cancelled # es) p w = (let (p, w) = releaseHeld ev p w in (True, p, w))"
| "run_loop ev (Fired # es) p w = (let (p, w) = tick ev p w in run_loop ev es p w)"

definition Run :: "('w, 's, 'f, 'm) env \<Rightarrow> loop_event list \<Rightarrow> 'f publisher \<Rightarrow> 'w \<Rightarrow> bool \<times> 'f publisher \<times> 'w" where
  "Run ev es p w = (let (p, w) = tick ev p w in run_loop ev es p w)"

section \<open>Lemmas\<close>

lemma tick_startE:
  assumes "fst (ev_ctxErr ev w) = None" "tick_start ev p w = (now, ps, r, p2, w4)"
  obtains w1 w2 p1 w3 where "ev_ctxErr ev w = (None, w1)" "ev_now ev w1 = (now, w2)"
    "tickPeers ev p w2 = (ps, p1, w3)" "scan ev p1 now w3 = (r, p2, w4)"
proof -
  obtain w1 where w1: "ev_ctxErr ev w = (None, w1)" using assms(1) by (metis prod.collapse)
  obtain t w2 where w2: "ev_now ev w1 = (t, w2)" by fastforce
  obtain qs p1 w3 where w3: "tickPeers ev p w2 = (qs, p1, w3)" by (rule prod_cases3)
  from assms(2) w1 w2 w3 have "t = now" "qs = ps" "scan ev p1 now w3 = (r, p2, w4)"
    by (auto simp: tick_start_def Let_def)
  with w1 w2 w3 show thesis by (intro that) simp_all
qed

lemma runTick_fails:
  assumes "fst (ev_ctxErr ev w) = None" "tick_start ev p w = (now, ps, Inl e, p2, w4)"
  shows "runTick ev p w = (None, p2, w4)"
proof -
  from assms obtain w1 w2 p1 w3 where "ev_ctxErr ev w = (None, w1)" "ev_now ev w1 = (now, w2)"
    "tickPeers ev p w2 = (ps, p1, w3)" "scan ev p1 now w3 = (Inl e, p2, w4)"
    by (rule tick_startE)
  then show ?thesis by (simp add: runTick_def)
qed

lemma runTick_cancelled: "ev_ctxErr ev w = (Some e, v) \<Longrightarrow> runTick ev p w = (None, p, v)"
  by (simp add: runTick_def)

text \<open>A tick whose scan succeeded, as a chain of its steps.\<close>

lemma runTick_steps:
  assumes "fst (ev_ctxErr ev w) = None" "tick_start ev p w = (now, ps, Inr spans, p2, w4)"
    and "owned = ownedSpans spans (self_id p2) ps"
    and "ready = readyKeys spans owned (Lookback (pb_cfg p2)) (StaleAfter (pb_cfg p2)) now"
    and "heartbeat ev p2 (int (length (ownedKeys spans owned))) (int (length ps)) w4 = (p3, w5)"
    and "retire ev p3 spans now w5 = (retired, w6)"
    and "retrain ev p3 ready now (sweep ev p3 w6) = (counts, p4, w7)"
    and "emit ev spans ready owned now p4 w7 = (n, p5, w8)"
  shows "runTick ev p w =
    (Some \<lparr>tr_peers = int (length ps), tr_owned = int (length (ownedKeys spans owned)),
       tr_skipped = int (length spans) - int (length (ownedKeys spans owned)),
       tr_ineligible = int (length (ownedKeys spans owned)) - int (length ready),
       tr_published = n, tr_retrained = ct_trained counts, tr_claimed = ct_claimed counts,
       tr_failed = ct_failed counts, tr_retired = retired\<rparr>, p5, w8)"
proof -
  from assms(1,2) obtain w1 w2 p1 w3 where st: "ev_ctxErr ev w = (None, w1)" "ev_now ev w1 = (now, w2)"
    "tickPeers ev p w2 = (ps, p1, w3)" "scan ev p1 now w3 = (Inr spans, p2, w4)"
    by (rule tick_startE)
  have "pb_cfg p3 = pb_cfg p2"
    using assms(5) heartbeat_frame(1) [of ev p2 "int (length (ownedKeys spans owned))" "int (length ps)" w4]
    by simp
  with st assms(3-) show ?thesis by (simp add: runTick_def Let_def)
qed

lemma tick_start_frame:
  assumes "tick_start ev p w = (now, ps, r, p2, w4)"
  shows "pb_cfg p2 = pb_cfg p" "self_id p2 = self_id p" "pb_published p2 = pb_published p"
    "pb_held p2 = pb_held p" "r = Inr spans \<Longrightarrow> pb_scanSpans p2 = spans"
proof -
  obtain t w2 where w2: "ev_now ev (snd (ev_ctxErr ev w)) = (t, w2)" by fastforce
  obtain qs p1 w3 where w3: "tickPeers ev p w2 = (qs, p1, w3)" by (rule prod_cases3)
  from assms w2 w3 have sc: "scan ev p1 now w3 = (r, p2, w4)" by (auto simp: tick_start_def)
  show "pb_cfg p2 = pb_cfg p" "self_id p2 = self_id p" "pb_published p2 = pb_published p" "pb_held p2 = pb_held p"
    using tickPeers_frame [of ev p w2] scan_frame [of ev p1 now w3] w3 sc by simp_all
  show "r = Inr spans \<Longrightarrow> pb_scanSpans p2 = spans"
    using scan_spans [of ev p1 now w3 spans] sc by simp
qed

end
