(* ===== verification/EnvLaws.thy ===== *)
theory EnvLaws imports Tick
begin

text \<open>
  What the steps of a tick do to the world, proved once from the contracts of the calls they make.
  \<open>env_rel\<close> is the contract of an observation that most calls do not disturb: a reflexive
  and transitive relation between worlds. Two contracts extend it: \<open>sink_log\<close>, where
  the observation is the messages the sink accepted, and \<open>lease_view\<close>, where it is the set
  of rows leased to this worker.
\<close>

section \<open>Calls that keep an observation\<close>

locale env_rel =
  fixes ev :: "('w, 's, 'f, 'm) env"
    and R :: "'w \<Rightarrow> 'w \<Rightarrow> bool"
  assumes R_refl: "R w w"
    and R_trans: "R u v \<Longrightarrow> R v w \<Longrightarrow> R u w"
    and R_Hashes: "R w (snd (ev_Hashes ev a b w))"
    and R_Series: "R w (snd (ev_Series ev key a b w))"
    and R_LookupHost: "R w (snd (ev_LookupHost ev name w))"
    and R_now: "R w (snd (ev_now ev w))"
    and R_ctxErr: "R w (snd (ev_ctxErr ev w))"
    and R_acquire: "R w (snd (ev_acquire ev w))"
    and R_Fresh: "ev_store ev = Some so \<Longrightarrow> R w (snd (so_Fresh so keys w))"
    and R_Get: "ev_store ev = Some so \<Longrightarrow> R w (snd (so_Get so key w))"
    and R_Put: "ev_store ev = Some so \<Longrightarrow> R w (snd (so_Put so key rec snap w))"
    and R_Sweep: "ev_store ev = Some so \<Longrightarrow> R w (snd (so_Sweep so ttl w))"
    and R_Schedule: "ev_store ev = Some so \<Longrightarrow> R w (snd (so_Schedule so keys cron tz w))"
    and R_Extend: "ev_store ev = Some so \<Longrightarrow> R w (snd (so_Extend so owner org key lease w))"
    and R_BaselineKeys: "ev_store ev = Some so \<Longrightarrow> R w (snd (so_BaselineKeys so w))"
    and R_Retire: "ev_store ev = Some so \<Longrightarrow> R w (snd (so_Retire so keys w))"
    and R_Heartbeat: "ev_store ev = Some so \<Longrightarrow> R w (snd (so_Heartbeat so wid owned n w))"
    and R_Peers: "ev_store ev = Some so \<Longrightarrow> R w (snd (so_Peers so ttl w))"
begin

lemmas R_calls = R_Hashes R_Series R_LookupHost R_now R_ctxErr R_acquire

lemmas R_store = R_Fresh R_Get R_Put R_Sweep R_Schedule R_Extend R_BaselineKeys R_Retire
  R_Heartbeat R_Peers

lemma R_step: "R w v \<Longrightarrow> f w = (x, v') \<Longrightarrow> v' = v \<Longrightarrow> R w v'"
  by simp

lemma tickPeers_R: "R w (snd (snd (tickPeers ev p w)))"
  by (auto simp: tickPeers_def Let_def case_prod_beta intro: R_refl R_LookupHost R_Peers split: option.split)

lemma scan_R: "R w (snd (snd (scan ev p now w)))"
  using R_Hashes [of w "time_add now (i64 (- ScanRange (pb_cfg p)))" now]
  by (auto simp: scan_def R_refl split: sum.split prod.split)

lemma heartbeat_R: "R w (snd (heartbeat ev p owned n w))"
proof (cases "ev_store ev")
  case (Some so)
  then show ?thesis using R_Heartbeat [OF Some, of w "self_id p" owned n]
    by (auto simp: heartbeat_def split: sum.split prod.split)
qed (simp add: heartbeat_def R_refl)

lemma sweep_R: "R w (sweep ev p w)"
  by (auto simp: sweep_def R_refl R_Sweep split: option.split)

lemma retire_R: "R w (snd (retire ev p spans now w))"
proof (cases "ev_store ev")
  case (Some so)
  have "R w v" if "so_BaselineKeys so w = (r, v)" for r v
    using R_BaselineKeys [OF Some, of w] that by simp
  moreover have "R w u" if "so_BaselineKeys so w = (r, v)" "so_Retire so keys v = (r', u)" for r v keys r' u
    using R_BaselineKeys [OF Some, of w] R_Retire [OF Some, of v keys] that R_trans by simp
  ultimately show ?thesis
    using Some by (auto simp: retire_def Let_def R_refl split: sum.split prod.split)
qed (simp add: retire_def R_refl)

lemma fitHash_R:
  assumes "ev_store ev = Some so"
  shows "R w (snd (fitHash ev so p key now w))"
proof -
  have "R w v" if "ev_Series ev key a now w = (r, v)" for a r v
    using R_Series [of w key a now] that by simp
  moreover have "R w u" if "ev_Series ev key a now w = (r, v)" "so_Put so key rc m v = (r', u)" for a r v rc m r' u
    using R_Series [of w key a now] R_Put [OF assms, of v key rc m] that R_trans by simp
  ultimately show ?thesis
    by (auto simp: fitHash_def Let_def split: sum.split prod.split)
qed

lemma train_work_R: "ev_store ev = Some so \<Longrightarrow> R w (snd (train_work ev so p c now w))"
  using fitHash_R [of so w p "rc_Key c" now]
  by (auto simp: train_work_def Let_def case_prod_beta R_refl split: option.split)

lemma refresh_key_R:
  assumes "ev_store ev = Some so"
  shows "R w (snd (refresh_key ev so fresh key p w))"
  using R_Get [OF assms, of w key]
  by (auto simp: refresh_key_def R_refl split: option.split sum.split prod.split)

lemma refresh_keys_R:
  "ev_store ev = Some so \<Longrightarrow> R w (snd (refresh_keys ev so fresh keys p w))"
proof (induction keys arbitrary: p w)
  case (Cons key keys)
  then show ?case
    using refresh_key_R [OF Cons.prems, of w fresh key p] R_trans
    by (auto simp: case_prod_beta)
qed (simp add: R_refl)

lemma refreshSnapshots_R: "R w (snd (refreshSnapshots ev keys now p w))"
proof (cases "ev_store ev")
  case (Some so)
  have "R w v" if "so_Fresh so keys w = (r, v)" for r v
    using R_Fresh [OF Some, of w keys] that by simp
  moreover have "R w (snd (refresh_keys ev so f keys q v))" if "so_Fresh so keys w = (r, v)" for r v f q
    using R_Fresh [OF Some, of w keys] refresh_keys_R [OF Some, of v f keys q] that R_trans by simp
  ultimately show ?thesis
    using Some by (auto simp: refreshSnapshots_def R_refl split: sum.split prod.split)
qed (simp add: refreshSnapshots_def R_refl)

lemma tick_start_R:
  assumes "tick_start ev p w = (now, ps, r, p2, w4)"
  shows "R w w4"
proof -
  obtain t w2 where w2: "ev_now ev (snd (ev_ctxErr ev w)) = (t, w2)" by fastforce
  obtain qs p1 w3 where w3: "tickPeers ev p w2 = (qs, p1, w3)" by (rule prod_cases3)
  from assms w2 w3 have sc: "scan ev p1 now w3 = (r, p2, w4)" by (auto simp: tick_start_def)
  have "R w w2" using R_trans [OF R_ctxErr R_now, of w] w2 by (metis snd_conv)
  also have "R w2 w3" using tickPeers_R [of w2 p] w3 by simp
  finally (R_trans) have "R w w3" .
  also have "R w3 w4" using scan_R [of w3 p1 now] sc by simp
  finally (R_trans) show ?thesis .
qed

end

section \<open>Observations a publication does not disturb\<close>

locale env_pub = env_rel +
  assumes R_Publish: "R w (snd (ev_Publish ev m w))"
begin

lemma publish_R: "R w (snd (snd (publish ev key t v p w)))"
  by (auto simp: publish_def Let_def case_prod_beta R_refl R_Publish split: option.split)

lemma emitSnapshot_R: "R w (snd (snd (emitSnapshot ev key ts p w)))"
  by (auto simp: emitSnapshot_def R_refl publish_R split: option.split sum.split fc_err.split)

lemma fitForecast_R: "R w (snd (snd (fitForecast ev sp now p w)))"
proof -
  obtain r v where v: "ev_Series ev (sp_Hash sp) (time_add (sp_Max sp) (i64 (- Lookback (pb_cfg p)))) now w = (r, v)"
    by fastforce
  then have "R w v" using R_Series by (metis snd_conv)
  with v show ?thesis
    by (auto simp: fitForecast_def Let_def R_refl intro: R_trans [OF _ publish_R] split: option.split sum.split)
qed

lemma emit_one_R: "R w (snd (snd (emit_one ev sp now p w)))"
  by (simp add: emit_one_def emitSnapshot_R fitForecast_R split: option.split)

lemma emit_spans_R: "R w (snd (snd (emit_spans ev spans owned now n p w)))"
proof (induction spans arbitrary: owned n p w)
  case (Cons sp spans)
  note skip = R_trans [OF R_ctxErr Cons.IH] and step = R_trans [OF R_trans [OF R_ctxErr emit_one_R] Cons.IH]
  show ?case
  proof (cases owned)
    case (Cons o1 os)
    then show ?thesis by (auto simp: case_prod_beta R_ctxErr skip step split: option.split)
  qed (simp add: R_refl)
qed (simp add: R_refl)

lemma emit_R: "R w (snd (snd (emit ev spans keys owned now p w)))"
  by (auto simp: emit_def case_prod_beta intro: R_trans [OF refreshSnapshots_R emit_spans_R])

end

section \<open>The messages the sink accepts\<close>

text \<open>
  \<open>rising\<close>: each message is newer than the mark of its hash at that moment.
\<close>

definition set_mark :: "(string \<rightharpoonup> int) \<Rightarrow> BaselineMessage \<Rightarrow> (string \<rightharpoonup> int)" where
  "set_mark marks m = marks(MetricHash m \<mapsto> MetricTS m)"

definition newer :: "(string \<rightharpoonup> int) \<Rightarrow> BaselineMessage \<Rightarrow> bool" where
  "newer marks m = (case marks (MetricHash m) of None \<Rightarrow> True | Some t \<Rightarrow> t < MetricTS m)"

fun rising :: "(string \<rightharpoonup> int) \<Rightarrow> BaselineMessage list \<Rightarrow> bool" where
  "rising marks [] \<longleftrightarrow> True"
| "rising marks (m # ms) \<longleftrightarrow> newer marks m \<and> rising (set_mark marks m) ms"

locale sink_log = env_rel ev "\<lambda>w w'. log w' = log w"
  for ev :: "('w, 's, 'f, 'm) env" and log :: "'w \<Rightarrow> BaselineMessage list" +
  assumes log_Publish: "log (snd (ev_Publish ev m w)) = log w @ (if fst (ev_Publish ev m w) = None then [m] else [])"
    and log_Claim: "ev_store ev = Some so \<Longrightarrow> log (snd (so_Claim so owner lease limit w)) = log w"
    and log_Done: "ev_store ev = Some so \<Longrightarrow> log (snd (so_Done so owner org key nxt status a w)) = log w"
begin

text \<open>The outcome of one attempt to publish for \<open>key\<close>.\<close>

definition attempted :: "string \<Rightarrow> bool \<Rightarrow> 'f publisher \<Rightarrow> 'w \<Rightarrow> 'f publisher \<Rightarrow> 'w \<Rightarrow> bool" where
  "attempted key ok p w p' w' \<longleftrightarrow>
     pb_cfg p' = pb_cfg p \<and> pb_fitted p' = pb_fitted p \<and> pb_held p' = pb_held p
     \<and> pb_peers p' = pb_peers p
     \<and> (if ok then \<exists>m. MetricHash m = key \<and> \<not> is_nan (BaselineValue m) \<and> newer (pb_published p) m
                    \<and> log w' = log w @ [m] \<and> pb_published p' = set_mark (pb_published p) m
        else log w' = log w \<and> pb_published p' = pb_published p)"

lemma attempted_quiet:
  "log w' = log w \<Longrightarrow> attempted key False p w p w'"
  "attempted key False p w (snd (warnOnce key reason p)) w"
  by (simp_all add: attempted_def warnOnce_def)

lemma publish_attempted:
  assumes "\<not> is_nan v" "log w = log w0"
  shows "case publish ev key t v p w of (ok, p', w') \<Rightarrow> attempted key ok p w0 p' w'"
proof -
  let ?m = "\<lparr>MetricHash = key, MetricTS = unix_milli t, BaselineValue = v\<rparr>"
  obtain r v' where pub: "ev_Publish ev ?m w = (r, v')" by fastforce
  with log_Publish [of ?m w] have l: "log v' = log w0 @ (if r = None then [?m] else [])"
    using assms(2) by simp
  show ?thesis
  proof (cases "newer (pb_published p) ?m \<and> r = None")
    case True
    with pub have "publish ev key t v p w = (True, p\<lparr>pb_published := set_mark (pb_published p) ?m\<rparr>, v')"
      by (auto simp: publish_def Let_def newer_def set_mark_def split: option.splits)
    with l True assms(1) show ?thesis by (auto simp: attempted_def intro!: exI [of _ ?m])
  next
    case False
    with pub l assms(2) show ?thesis
      by (auto simp: publish_def Let_def newer_def attempted_def split: option.splits)
  qed
qed

lemma publish_attempted_eq:
  "publish ev key t v p w = (ok, p', w') \<Longrightarrow> \<not> is_nan v \<Longrightarrow> log w = log w0 \<Longrightarrow> attempted key ok p w0 p' w'"
  using publish_attempted [of v w w0 key p t] by simp

lemma emitSnapshot_attempted:
  "case emitSnapshot ev key ts p w of (ok, p', w') \<Rightarrow> attempted key ok p w p' w'"
  by (auto simp: emitSnapshot_def attempted_quiet intro: publish_attempted_eq
      split: option.split sum.split fc_err.split prod.split)

lemma fitForecast_attempted:
  "case fitForecast ev sp now p w of (ok, p', w') \<Rightarrow> attempted (sp_Hash sp) ok p w p' w'"
proof -
  have "log v = log w" if "ev_Series ev (sp_Hash sp) a now w = (r, v)" for a r v
    using R_Series [of "sp_Hash sp" a now w] that by simp
  then show ?thesis
    by (auto simp: fitForecast_def Let_def attempted_quiet intro: publish_attempted_eq
        split: option.split sum.split prod.split)
qed

lemma emit_one_attempted:
  "case emit_one ev sp now p w of (ok, p', w') \<Rightarrow> attempted (sp_Hash sp) ok p w p' w'"
  using emitSnapshot_attempted fitForecast_attempted by (auto simp: emit_one_def split: option.split)

text \<open>
  The messages of a run of \<open>emit_spans\<close>: at most one per ready span, in span order, each
  newer than its hash's mark, and the marks record exactly them.
\<close>

definition emitted :: "string list \<Rightarrow> 'f publisher \<Rightarrow> 'w \<Rightarrow> BaselineMessage list \<Rightarrow> 'f publisher \<Rightarrow> 'w \<Rightarrow> bool" where
  "emitted ready p w ms p' w' \<longleftrightarrow>
     log w' = log w @ ms \<and> subseq (map MetricHash ms) ready
     \<and> (\<forall>m \<in> set ms. \<not> is_nan (BaselineValue m)) \<and> rising (pb_published p) ms
     \<and> pb_published p' = foldl set_mark (pb_published p) ms
     \<and> pb_cfg p' = pb_cfg p \<and> pb_fitted p' = pb_fitted p \<and> pb_held p' = pb_held p
     \<and> pb_peers p' = pb_peers p"

lemma emitted_none: "log w' = log w \<Longrightarrow> emitted ready p w [] p w'"
  by (simp add: emitted_def)

lemma emitted_after:
  assumes "attempted key ok p v p1 w1" "log v = log w" "emitted ready p1 w1 ms p' w'"
  shows "\<exists>ms'. emitted (key # ready) p w ms' p' w' \<and> length ms' = length ms + (if ok then 1 else 0)"
proof (cases ok)
  case True
  with assms obtain m where "MetricHash m = key" "\<not> is_nan (BaselineValue m)" "newer (pb_published p) m"
    "log w1 = log w @ [m]" "pb_published p1 = set_mark (pb_published p) m"
    by (auto simp: attempted_def)
  with True assms have "emitted (key # ready) p w (m # ms) p' w'"
    by (auto simp: emitted_def attempted_def)
  with True show ?thesis by (auto intro!: exI [of _ "m # ms"])
next
  case False
  with assms have "emitted (key # ready) p w ms p' w'"
    by (auto simp: emitted_def attempted_def intro: list_emb_Cons)
  with False show ?thesis by auto
qed

lemma emit_spans_emitted:
  "\<exists>ms. emitted (readyKeys spans owned (Lookback (pb_cfg p)) (StaleAfter (pb_cfg p)) now) p w ms
          (fst (snd (emit_spans ev spans owned now n p w))) (snd (snd (emit_spans ev spans owned now n p w)))
       \<and> fst (emit_spans ev spans owned now n p w) = n + int (length ms)"
proof (induction spans arbitrary: owned n p w)
  case (Cons sp spans)
  obtain e v where ctx: "ev_ctxErr ev w = (e, v)" by fastforce
  then have v: "log v = log w" using R_ctxErr [of w] by simp
  show ?case
  proof (cases owned)
    case (Cons o1 os)
    show ?thesis
    proof (cases "e = None \<and> o1 \<and> alive sp (Lookback (pb_cfg p)) (StaleAfter (pb_cfg p)) now")
      case True
      obtain ok p1 w1 where one: "emit_one ev sp now p v = (ok, p1, w1)" by (rule prod_cases3)
      then have att: "attempted (sp_Hash sp) ok p v p1 w1"
        using emit_one_attempted [of sp p v now] by simp
      then have cfg: "pb_cfg p1 = pb_cfg p" by (simp add: attempted_def)
      from Cons.IH [of os p1 w1 "if ok then n + 1 else n"] emitted_after [OF att v] True ctx one Cons cfg
      show ?thesis by (fastforce simp: algebra_simps)
    next
      case False
      from Cons.IH [of os p v n] show ?thesis
        using False ctx Cons v by (cases e) (auto simp: emitted_def emitted_none intro: list_emb_Cons)
    qed
  qed (auto intro!: exI [of _ "[]"] emitted_none)
qed (auto intro!: exI [of _ "[]"] emitted_none)

lemma emit_emitted:
  obtains q ms where
    "emitted (readyKeys spans owned (Lookback (pb_cfg p)) (StaleAfter (pb_cfg p)) now) q w ms
       (fst (snd (emit ev spans keys owned now p w))) (snd (snd (emit ev spans keys owned now p w)))"
    "fst (emit ev spans keys owned now p w) = int (length ms)"
    "pb_published q = pb_published p |` set keys" "pb_cfg q = pb_cfg p" "pb_held q = pb_held p"
    "pb_peers q = pb_peers p"
proof -
  obtain q v where q: "refreshSnapshots ev keys now (pruneFits keys p) w = (q, v)" by fastforce
  then have frame: "log v = log w" "pb_published q = pb_published p |` set keys" "pb_cfg q = pb_cfg p"
    "pb_held q = pb_held p" "pb_peers q = pb_peers p"
    using refreshSnapshots_R [of keys now "pruneFits keys p" w]
      refreshSnapshots_frame [of ev keys now "pruneFits keys p" w]
    by (simp_all add: pruneFits_frame)
  obtain ms where "emitted (readyKeys spans owned (Lookback (pb_cfg q)) (StaleAfter (pb_cfg q)) now) q v ms
      (fst (snd (emit_spans ev spans owned now 0 q v))) (snd (snd (emit_spans ev spans owned now 0 q v)))"
    "fst (emit_spans ev spans owned now 0 q v) = int (length ms)"
    using emit_spans_emitted [of spans owned q now v 0] by auto
  with q frame show thesis by (intro that [of q ms]) (simp_all add: emit_def emitted_def)
qed

end

end
