(* ===== verification/LeaseView.thy ===== *)
theory LeaseView imports EnvLaws
begin

text \<open>
  The leases a process can hand back. \<open>mine w\<close> are the keys of the rows the store has leased
  to this worker; the contract says which calls may change that set. The invariant
  \<open>held_ok\<close> says that every one of them is in the process's \<open>held\<close> map, and every step
  of the worker keeps it.
\<close>

locale lease_view = env_pub ev "\<lambda>w w'. good w \<longrightarrow> good w' \<and> mine w' \<subseteq> mine w"
  for ev :: "('w, 's, 'f, 'm) env" and good :: "'w \<Rightarrow> bool" and mine :: "'w \<Rightarrow> string set" +
  fixes me :: string
  assumes mine_Claim: "ev_store ev = Some so \<Longrightarrow> good w \<Longrightarrow> so_Claim so me lease limit w = (r, w') \<Longrightarrow>
          good w' \<and> mine w' \<subseteq> mine w \<union> (case r of Inl e \<Rightarrow> {} | Inr cs \<Rightarrow> rc_Key ` set cs)
          \<and> (case r of Inl e \<Rightarrow> True | Inr cs \<Rightarrow> list_all (\<lambda>c. rc_OrgID c = 0) cs)"
    and mine_Done: "ev_store ev = Some so \<Longrightarrow> good w \<Longrightarrow> so_Done so me 0 key nxt status a w = (d, w') \<Longrightarrow>
          good w' \<and> mine w' \<subseteq> (case d of Inl e \<Rightarrow> mine w | Inr _ \<Rightarrow> mine w - {key})"
begin

definition claims_ok :: "(string \<times> retrainClaim) list \<Rightarrow> bool" where
  "claims_ok held \<longleftrightarrow> list_all (\<lambda>(k, c). rc_Key c = k \<and> rc_OrgID c = 0) held"

definition held_ok :: "'f publisher \<Rightarrow> 'w \<Rightarrow> bool" where
  "held_ok p w \<longleftrightarrow> self_id p = me \<and> good w \<and> claims_ok (pb_held p) \<and> mine w \<subseteq> fst ` set (pb_held p)"

lemma held_ok_mono:
  "held_ok p w \<Longrightarrow> good w \<longrightarrow> good w' \<and> mine w' \<subseteq> mine w \<Longrightarrow> self_id p' = self_id p \<Longrightarrow>
   pb_held p' = pb_held p \<Longrightarrow> held_ok p' w'"
  by (auto simp: held_ok_def)

lemma held_ok_step: "held_ok p w \<Longrightarrow> good w \<longrightarrow> good (snd r) \<and> mine (snd r) \<subseteq> mine w \<Longrightarrow> held_ok p (snd r)"
  by (rule held_ok_mono) simp_all

lemma hold_keys: "fst ` set (pb_held (hold c p)) = insert (rc_Key c) (fst ` set (pb_held p))"
  by (simp add: hold_def dom_update)

lemma claims_ok_unhold: "claims_ok (pb_held p) \<Longrightarrow> claims_ok (pb_held (unhold key p))"
  by (auto simp: claims_ok_def unhold_def list_all_iff AList.delete_eq)

lemma claims_ok_update: "claims_ok al \<Longrightarrow> rc_OrgID c = 0 \<Longrightarrow> claims_ok (AList.update (rc_Key c) c al)"
  by (induction al) (auto simp: claims_ok_def)

lemma holds_ok:
  "claims_ok (pb_held p) \<Longrightarrow> list_all (\<lambda>c. rc_OrgID c = 0) cs \<Longrightarrow>
   claims_ok (pb_held (fold hold cs p)) \<and> fst ` set (pb_held (fold hold cs p)) = rc_Key ` set cs \<union> fst ` set (pb_held p)"
proof (induction cs arbitrary: p)
  case (Cons c cs)
  from Cons.IH [of "hold c p"] Cons.prems hold_keys [of c p] show ?case
    by (auto simp: claims_ok_update hold_def)
qed simp

lemma finish_held:
  assumes "ev_store ev = Some so" "held_ok p w" "rc_OrgID c = 0"
  shows "held_ok (fst (finish so p c nxt status a w)) (snd (finish so p c nxt status a w))"
proof -
  obtain d w' where d: "so_Done so me 0 (rc_Key c) nxt status a w = (d, w')" by fastforce
  with mine_Done [OF assms(1) _ d] assms held_keys_unhold [of "rc_Key c" p] claims_ok_unhold [of p "rc_Key c"]
  show ?thesis
    by (cases d) (auto simp: finish_def held_ok_def unhold_def)
qed

lemma release_held:
  "ev_store ev = Some so \<Longrightarrow> held_ok p w \<Longrightarrow> list_all (\<lambda>c. rc_OrgID c = 0) cs \<Longrightarrow>
   held_ok (fst (release_claims ev so cs p w)) (snd (release_claims ev so cs p w))"
proof (induction cs arbitrary: p w)
  case (Cons c cs)
  obtain t w1 where t: "ev_now ev w = (t, w1)" by fastforce
  with held_ok_step [OF Cons.prems(2) R_now] have w1: "held_ok p w1" by (metis snd_conv)
  let ?f = "finish so p c t ''error: interrupted'' (rc_Attempts c) w1"
  have "held_ok (fst ?f) (snd ?f)"
    using finish_held [OF Cons.prems(1) w1] Cons.prems(3) by simp
  moreover have "release_claims ev so (c # cs) p w = release_claims ev so cs (fst ?f) (snd ?f)"
    using t by (simp add: finish_def split: sum.split prod.split)
  ultimately show ?case using Cons by simp
qed simp

lemma releaseHeld_held:
  assumes "held_ok p w" "set (ev_heldOrder ev (map snd (pb_held p))) = set (map snd (pb_held p))"
  shows "held_ok (fst (releaseHeld ev p w)) (snd (releaseHeld ev p w))"
proof -
  have "list_all (\<lambda>c. rc_OrgID c = 0) (ev_heldOrder ev (map snd (pb_held p)))"
    using assms by (auto simp: held_ok_def claims_ok_def list_all_iff)
  with release_held assms show ?thesis by (simp add: releaseHeld_def split: option.split)
qed

end

end
