(* ===== verification/Leases.thy ===== *)
theory Leases imports StoreModel "HOL-Library.Option_ord"
begin

text \<open>
  The retrain queue as leases. The interface \<open>lease_queue\<close> is what the fleet relies on
  (\<open>retrainQueue\<close> in \<open>store.go\<close>): a claim takes only what is free or expired, an
  extension and a finish touch only what their owner holds. Its lemmas show that a held lease
  is exclusive until it ends. The SQL statements of \<open>StoreModel\<close> are its instance, and
  \<open>queue_run\<close> is an arbitrary interleaving of the fleet's statements.
\<close>

locale lease_queue =
  fixes claim :: "instant \<Rightarrow> 'x \<Rightarrow> 'o \<Rightarrow> duration \<Rightarrow> 'q \<Rightarrow> 'k set \<times> 'q"
    and extend :: "instant \<Rightarrow> 'o \<Rightarrow> 'k \<Rightarrow> duration \<Rightarrow> 'q \<Rightarrow> bool \<times> 'q"
    and finish :: "instant \<Rightarrow> 'f \<Rightarrow> 'o \<Rightarrow> 'k \<Rightarrow> 'q \<Rightarrow> bool \<times> 'q"
    and holder :: "'q \<Rightarrow> 'k \<Rightarrow> ('o \<times> instant) option"
    and invar :: "'q \<Rightarrow> bool"
  assumes claim_free: "invar q \<Longrightarrow> k \<in> fst (claim t x w l q) \<Longrightarrow> holder q k = Some (v, u) \<Longrightarrow> u < t"
    and claim_holder: "invar q \<Longrightarrow> holder (snd (claim t x w l q)) k
          = (if k \<in> fst (claim t x w l q) then Some (w, t + l) else holder q k)"
    and claim_invar: "invar q \<Longrightarrow> invar (snd (claim t x w l q))"
    and extend_answer: "invar q \<Longrightarrow> fst (extend t w k l q) \<longleftrightarrow> (\<exists>u. holder q k = Some (w, u))"
    and extend_holder: "invar q \<Longrightarrow> holder (snd (extend t w k l q)) j
          = (if j = k \<and> (\<exists>u. holder q k = Some (w, u)) then Some (w, t + l) else holder q j)"
    and extend_invar: "invar q \<Longrightarrow> invar (snd (extend t w k l q))"
    and finish_answer: "invar q \<Longrightarrow> fst (finish t f w k q) \<longleftrightarrow> (\<exists>u. holder q k = Some (w, u))"
    and finish_holder: "invar q \<Longrightarrow> holder (snd (finish t f w k q)) j
          = (if j = k \<and> (\<exists>u. holder q k = Some (w, u)) then None else holder q j)"
    and finish_invar: "invar q \<Longrightarrow> invar (snd (finish t f w k q))"
begin

text \<open>No statement of another worker moves a lease before it ends.\<close>

lemma claim_keeps_lease:
  "invar q \<Longrightarrow> holder q k = Some (w, u) \<Longrightarrow> t \<le> u \<Longrightarrow> holder (snd (claim t x v l q)) k = Some (w, u)"
  using claim_free claim_holder by (metis leD)

lemma extend_keeps_lease:
  "invar q \<Longrightarrow> holder q k = Some (w, u) \<Longrightarrow> v \<noteq> w \<Longrightarrow> holder (snd (extend t v j l q)) k = Some (w, u)"
  by (auto simp: extend_holder)

lemma finish_keeps_lease:
  "invar q \<Longrightarrow> holder q k = Some (w, u) \<Longrightarrow> v \<noteq> w \<Longrightarrow> holder (snd (finish t f v j q)) k = Some (w, u)"
  by (auto simp: finish_holder)

text \<open>Two claims within a lease never hand out the same key.\<close>

lemma claims_disjoint:
  assumes "invar q" "t' \<le> t + l"
  shows "fst (claim t x w l q) \<inter> fst (claim t' x' w' l' (snd (claim t x w l q))) = {}"
proof -
  let ?q = "snd (claim t x w l q)"
  have "k \<notin> fst (claim t' x' w' l' ?q)" if "k \<in> fst (claim t x w l q)" for k
  proof
    assume "k \<in> fst (claim t' x' w' l' ?q)"
    moreover have "holder ?q k = Some (w, t + l)" using assms(1) that by (simp add: claim_holder)
    ultimately have "t + l < t'" using claim_free claim_invar assms(1) by metis
    with assms(2) show False by simp
  qed
  then show ?thesis by auto
qed

text \<open>A claim that was taken can be extended and finished by its owner, once.\<close>

lemma claim_then_finish:
  assumes "invar q" "k \<in> fst (claim t x w l q)"
  shows "fst (finish t' f w k (snd (claim t x w l q)))"
    and "\<not> fst (finish t'' f' w k (snd (finish t' f w k (snd (claim t x w l q)))))"
  using assms by (simp_all add: finish_answer finish_holder claim_holder claim_invar finish_invar)

end

section \<open>The SQL queue\<close>

definition lease_key :: "int \<times> string \<Rightarrow> row_key" where
  "lease_key k = (''baseline'', fst k, snd k)"

definition row_holder :: "retrain_row \<Rightarrow> (string \<times> instant) option" where
  "row_holder r = (case (rt_claimed_by r, rt_claimed_until r) of
     (Some w, Some u) \<Rightarrow> Some (w, u) | _ \<Rightarrow> None)"

definition holder :: "pg_db \<Rightarrow> int \<times> string \<Rightarrow> (string \<times> instant) option" where
  "holder db k = Option.bind (row_at db (lease_key k)) row_holder"

text \<open>The worker writes the two claim columns together.\<close>

definition lease_ok :: "retrain_row \<Rightarrow> bool" where
  "lease_ok r \<longleftrightarrow> (rt_claimed_by r = None \<longleftrightarrow> rt_claimed_until r = None)"

definition queue_inv :: "pg_db \<Rightarrow> bool" where
  "queue_inv db \<longleftrightarrow> db_inv db \<and> (\<forall>r \<in> set (db_retrain db). lease_ok r)"

definition claimed_keys :: "retrainClaim list \<Rightarrow> (int \<times> string) set" where
  "claimed_keys cs = (\<lambda>c. (rc_OrgID c, rc_Key c)) ` set cs"

lemma lease_key_inj [simp]: "lease_key j = lease_key k \<longleftrightarrow> j = k"
  by (cases j, cases k) (simp add: lease_key_def)

lemma lease_ok_rows [simp]:
  "lease_ok (lease_row w u r)" "lease_ok (finish_row now nxt status a r)" "lease_ok (new_row now k c z)"
  by (simp_all add: lease_ok_def lease_row_def finish_row_def new_row_def)

lemma held_extend_ok: "held_row w org key r \<Longrightarrow> lease_ok (r\<lparr>rt_claimed_until := Some u\<rparr>)"
  by (simp add: lease_ok_def held_row_def)

lemma queue_inv_row: "queue_inv db \<Longrightarrow> row_at db pk = Some r \<Longrightarrow> lease_ok r"
  by (auto simp: queue_inv_def dest: row_at_Some)

lemma row_holder_Some: "lease_ok r \<Longrightarrow> (\<exists>u. row_holder r = Some (w, u)) \<longleftrightarrow> rt_claimed_by r = Some w"
  by (auto simp: row_holder_def lease_ok_def split: option.splits)

lemma row_holder_updates [simp]:
  "row_holder (lease_row w u r) = Some (w, u)" "row_holder (finish_row now nxt status a r) = None"
  "row_holder (new_row now k c z) = None"
  by (simp_all add: row_holder_def lease_row_def finish_row_def new_row_def)

lemma row_holder_extend:
  "row_holder (r\<lparr>rt_claimed_until := Some u\<rparr>) = map_option (\<lambda>w. (w, u)) (rt_claimed_by r)"
  by (simp add: row_holder_def split: option.split)

lemma claimed_keys_taken:
  "k \<in> claimed_keys (fst (sql_claim now locked w l n db)) \<longleftrightarrow> lease_key k \<in> taken_pk now locked n db"
proof
  assume "k \<in> claimed_keys (fst (sql_claim now locked w l n db))"
  then show "lease_key k \<in> taken_pk now locked n db"
    by (auto simp: claimed_keys_def lease_key_def baseline_pk_def dest: claimed_taken)
next
  assume "lease_key k \<in> taken_pk now locked n db"
  then obtain c where c: "c \<in> set (fst (sql_claim now locked w l n db))" "lease_key k = baseline_pk (rc_Key c)"
    using taken_claimed by blast
  then have "k = (rc_OrgID c, rc_Key c)"
    using claimed_taken [OF c(1)] by (cases k) (simp add: lease_key_def baseline_pk_def)
  with c(1) show "k \<in> claimed_keys (fst (sql_claim now locked w l n db))"
    by (auto simp: claimed_keys_def)
qed

lemma due_expired: "due now locked r \<Longrightarrow> row_holder r = Some (v, u) \<Longrightarrow> u < now"
  by (auto simp: due_def row_holder_def split: option.splits)

lemma sql_done_count:
  "queue_inv db \<Longrightarrow> 0 < fst (sql_done now w org key nxt status a db) \<longleftrightarrow> (\<exists>u. holder db (org, key) = Some (w, u))"
proof -
  assume inv: "queue_inv db"
  have "0 < fst (sql_done now w org key nxt status a db) \<longleftrightarrow> (\<exists>r \<in> set (db_retrain db). held_row w org key r)"
    by (simp add: sql_done_def filter_empty_conv)
  also have "\<dots> \<longleftrightarrow> (\<exists>r. row_at db (lease_key (org, key)) = Some r \<and> rt_claimed_by r = Some w)"
    using inv row_at_in by (auto simp: queue_inv_def held_row_pk lease_key_def dest: row_at_Some) metis
  also have "\<dots> \<longleftrightarrow> (\<exists>u. holder db (org, key) = Some (w, u))"
    using queue_inv_row [OF inv] row_holder_Some by (fastforce simp: holder_def bind_eq_Some_conv)
  finally show ?thesis .
qed

lemma sql_extend_count:
  "queue_inv db \<Longrightarrow> 0 < fst (sql_extend now w org key l db) \<longleftrightarrow> (\<exists>u. holder db (org, key) = Some (w, u))"
  using sql_done_count by (simp add: sql_extend_def sql_done_def)

lemma holder_claim:
  assumes "queue_inv db"
  shows "holder (snd (sql_claim now locked w l n db)) k
    = (if lease_key k \<in> taken_pk now locked n db then Some (w, now + l) else holder db k)"
proof (cases "lease_key k \<in> taken_pk now locked n db")
  case True
  with assms obtain r where "row_at db (lease_key k) = Some r"
    unfolding queue_inv_def by (blast dest: taken_due)
  with True show ?thesis by (simp add: holder_def row_at_claim)
next
  case False
  then show ?thesis by (cases "row_at db (lease_key k)") (simp_all add: holder_def row_at_claim)
qed

lemma holder_done:
  assumes "queue_inv db"
  shows "holder (snd (sql_done now w org key nxt status a db)) k
    = (if k = (org, key) \<and> (\<exists>u. holder db k = Some (w, u)) then None else holder db k)"
proof (cases "row_at db (lease_key k)")
  case (Some r)
  with queue_inv_row [OF assms] have "lease_ok r" by blast
  with Some show ?thesis
    using row_holder_Some by (cases k) (auto simp: holder_def row_at_done lease_key_def)
qed (simp add: holder_def row_at_done)

lemma holder_extend:
  assumes "queue_inv db"
  shows "holder (snd (sql_extend now w org key l db)) k
    = (if k = (org, key) \<and> (\<exists>u. holder db k = Some (w, u)) then Some (w, now + l) else holder db k)"
proof (cases "row_at db (lease_key k)")
  case (Some r)
  with queue_inv_row [OF assms] have "lease_ok r" by blast
  with Some show ?thesis
    using row_holder_Some
    by (cases k) (auto simp: holder_def row_at_extend lease_key_def row_holder_extend)
qed (simp add: holder_def row_at_extend)

lemma claim_rows_ok: "queue_inv db \<Longrightarrow> queue_inv (snd (sql_claim now locked w l n db))"
  by (auto simp: queue_inv_def sql_claim_inv) (auto simp: sql_claim_def Let_def)

lemma done_rows_ok: "queue_inv db \<Longrightarrow> queue_inv (snd (sql_done now w org key nxt status a db))"
  by (auto simp: queue_inv_def sql_done_inv) (auto simp: sql_done_def)

lemma extend_rows_ok: "queue_inv db \<Longrightarrow> queue_inv (snd (sql_extend now w org key l db))"
  by (auto simp: queue_inv_def sql_extend_inv) (auto simp: sql_extend_def held_extend_ok)

lemma schedule_rows_set:
  "r \<in> set (schedule_rows now ks cron tz rs) \<Longrightarrow> r \<in> set rs \<or> (\<exists>k. r = new_row now k cron tz)"
  by (induction ks arbitrary: rs) (fastforce split: if_splits)+

lemma schedule_rows_ok: "queue_inv db \<Longrightarrow> queue_inv (sql_schedule now keys cron tz db)"
  by (auto simp: queue_inv_def sql_schedule_inv) (auto simp: sql_schedule_def dest!: schedule_rows_set)

lemma holder_schedule: "holder (sql_schedule now keys cron tz db) k = holder db k"
  by (simp add: holder_def row_at_schedule split: option.split)

lemma retire_rows_ok: "queue_inv db \<Longrightarrow> queue_inv (snd (sql_retire keys db))"
  by (auto simp: queue_inv_def sql_retire_inv) (auto simp: sql_retire_def)

lemma retrain_rows_same:
  "db_retrain (sql_put now key rec body db) = db_retrain db"
  "db_retrain (snd (sql_sweep now ttl db)) = db_retrain db"
  "db_retrain (sql_heartbeat now w o1 n db) = db_retrain db"
  by (simp_all add: sql_put_def sql_sweep_def sql_heartbeat_def)

lemma other_rows_ok:
  "queue_inv db \<Longrightarrow> queue_inv (sql_put now key rec body db)"
  "queue_inv db \<Longrightarrow> queue_inv (snd (sql_sweep now ttl db))"
  "queue_inv db \<Longrightarrow> queue_inv (sql_heartbeat now w o1 n db)"
  unfolding queue_inv_def retrain_rows_same by (blast intro: sql_put_inv sql_sweep_inv sql_heartbeat_inv)+

lemmas queue_inv_intros = other_rows_ok schedule_rows_ok retire_rows_ok
  claim_rows_ok done_rows_ok extend_rows_ok

section \<open>The keys leased to one worker\<close>

definition leased_to :: "string \<Rightarrow> pg_db \<Rightarrow> string set" where
  "leased_to w db = {k. \<exists>u. holder db (0, k) = Some (w, u)}"

lemma leased_same: "(\<And>pk. row_at db' pk = row_at db pk) \<Longrightarrow> leased_to w db' = leased_to w db"
  by (simp add: leased_to_def holder_def)

lemma leased_frame:
  "leased_to w (sql_put now key rec body db) = leased_to w db"
  "leased_to w (snd (sql_sweep now ttl db)) = leased_to w db"
  "leased_to w (sql_heartbeat now v o1 n db) = leased_to w db"
  by (rule leased_same; simp)+

lemma leased_schedule: "leased_to w (sql_schedule now keys cron tz db) = leased_to w db"
  by (simp add: leased_to_def holder_schedule)

lemma leased_retire: "leased_to w (snd (sql_retire keys db)) = leased_to w db - set keys"
  by (auto simp: leased_to_def holder_def row_at_retire lease_key_def baseline_pk_def image_iff split: if_splits)

lemma leased_extend: "queue_inv db \<Longrightarrow> leased_to w (snd (sql_extend now v org key l db)) = leased_to w db"
  by (auto simp: leased_to_def holder_extend)

lemma leased_done: "queue_inv db \<Longrightarrow> leased_to w (snd (sql_done now w 0 key nxt status a db)) = leased_to w db - {key}"
  by (auto simp: leased_to_def holder_done)

lemma leased_claim:
  assumes "queue_inv db"
  shows "leased_to w (snd (sql_claim now locked w l n db))
    = leased_to w db \<union> rc_Key ` set (fst (sql_claim now locked w l n db))"
proof -
  let ?cs = "fst (sql_claim now locked w l n db)"
  have "lease_key (0, k) \<in> taken_pk now locked n db \<longleftrightarrow> k \<in> rc_Key ` set ?cs" for k
  proof
    assume "lease_key (0, k) \<in> taken_pk now locked n db"
    then obtain c where "c \<in> set ?cs" "lease_key (0, k) = baseline_pk (rc_Key c)"
      using taken_claimed by blast
    then show "k \<in> rc_Key ` set ?cs" by (simp add: lease_key_def baseline_pk_def)
  next
    assume "k \<in> rc_Key ` set ?cs"
    then show "lease_key (0, k) \<in> taken_pk now locked n db"
      by (auto simp: lease_key_def baseline_pk_def dest: claimed_taken)
  qed
  then show ?thesis by (auto simp: leased_to_def holder_claim [OF assms])
qed

interpretation lq: lease_queue
  "\<lambda>t (locked, n) w l db. (claimed_keys (fst (sql_claim t locked w l n db)), snd (sql_claim t locked w l n db))"
  "\<lambda>t w k l db. (0 < fst (sql_extend t w (fst k) (snd k) l db), snd (sql_extend t w (fst k) (snd k) l db))"
  "\<lambda>t (nxt, status, a) w k db. (0 < fst (sql_done t w (fst k) (snd k) nxt status a db),
      snd (sql_done t w (fst k) (snd k) nxt status a db))"
  holder queue_inv
proof (unfold_locales, goal_cases)
  case (1 q k t x w l v u)
  obtain locked n where x: "x = (locked, n)" by (cases x)
  with 1 have "lease_key k \<in> taken_pk t locked n q" by (simp add: claimed_keys_taken)
  then obtain r where "row_at q (lease_key k) = Some r" "due t locked r"
    using 1(1) unfolding queue_inv_def by (blast dest: taken_due)
  with 1(3) show ?case by (auto simp: holder_def intro: due_expired)
qed (auto simp: holder_claim claimed_keys_taken claim_rows_ok holder_extend holder_done
    sql_done_count sql_extend_count extend_rows_ok done_rows_ok split: prod.split)

section \<open>Interleavings\<close>

text \<open>
  A statement of some worker that writes to the database. A retirement deletes the rows of its keys,
  whoever holds them.
\<close>

datatype queue_op =
    OpClaim "row_key list" string duration int
  | OpExtend string int string duration
  | OpDone string int string instant string int
  | OpSchedule "string list" string string
  | OpRetire "string list"
  | OpPut string snapshotRecord string
  | OpSweep duration
  | OpHeartbeat string int int

fun op_owner :: "queue_op \<Rightarrow> string option" where
  "op_owner (OpClaim locked w l n) = None"
| "op_owner (OpExtend w org key l) = Some w"
| "op_owner (OpDone w org key nxt status a) = Some w"
| "op_owner (OpSchedule keys cron tz) = None"
| "op_owner (OpRetire keys) = None"
| "op_owner (OpPut key rec body) = None"
| "op_owner (OpSweep ttl) = None"
| "op_owner (OpHeartbeat v owned n) = None"

text \<open>The rows a statement deletes.\<close>

fun retires :: "queue_op \<Rightarrow> int \<times> string \<Rightarrow> bool" where
  "retires (OpRetire keys) k \<longleftrightarrow> fst k = 0 \<and> snd k \<in> set keys"
| "retires _ k \<longleftrightarrow> False"

fun queue_step :: "instant \<Rightarrow> queue_op \<Rightarrow> pg_db \<Rightarrow> pg_db" where
  "queue_step t (OpClaim locked w l n) db = snd (sql_claim t (\<lambda>pk. pk \<in> set locked) w l n db)"
| "queue_step t (OpExtend w org key l) db = snd (sql_extend t w org key l db)"
| "queue_step t (OpDone w org key nxt status a) db = snd (sql_done t w org key nxt status a db)"
| "queue_step t (OpSchedule keys cron tz) db = sql_schedule t keys cron tz db"
| "queue_step t (OpRetire keys) db = snd (sql_retire keys db)"
| "queue_step t (OpPut key rec body) db = sql_put t key rec body db"
| "queue_step t (OpSweep ttl) db = snd (sql_sweep t ttl db)"
| "queue_step t (OpHeartbeat v owned n) db = sql_heartbeat t v owned n db"

fun queue_run :: "(instant \<times> queue_op) list \<Rightarrow> pg_db \<Rightarrow> pg_db" where
  "queue_run [] db = db"
| "queue_run ((t, s) # ss) db = queue_run ss (queue_step t s db)"

lemma queue_step_inv: "queue_inv db \<Longrightarrow> queue_inv (queue_step t s db)"
  by (cases s) (simp_all add: claim_rows_ok extend_rows_ok done_rows_ok schedule_rows_ok queue_inv_intros)

lemma holder_retire:
  "holder (snd (sql_retire keys db)) k = (if fst k = 0 \<and> snd k \<in> set keys then None else holder db k)"
  by (cases k) (auto simp: holder_def row_at_retire lease_key_def baseline_pk_def image_iff)

lemma holder_frame:
  "holder (sql_put now key rec body db) k = holder db k"
  "holder (snd (sql_sweep now ttl db)) k = holder db k"
  "holder (sql_heartbeat now v owned n db) k = holder db k"
  by (simp_all add: holder_def)

lemma queue_step_keeps:
  assumes "queue_inv db" "holder db k = Some (w, u)" "t \<le> u" "op_owner s \<noteq> Some w" "\<not> retires s k"
  shows "holder (queue_step t s db) k = Some (w, u)"
proof (cases s)
  case (OpClaim locked v l n)
  with lq.claim_keeps_lease [OF assms(1-3), of "(\<lambda>pk. pk \<in> set locked, n)" v l] show ?thesis by simp
next
  case (OpExtend v org key l)
  with lq.extend_keeps_lease [OF assms(1,2), of v t "(org, key)" l] assms(4) show ?thesis by simp
next
  case (OpDone v org key nxt status a)
  with lq.finish_keeps_lease [OF assms(1,2), of v t "(nxt, status, a)" "(org, key)"] assms(4)
  show ?thesis by simp
next
  case (OpRetire keys)
  with assms(2,5) show ?thesis by (simp add: holder_retire)
qed (use assms(2) in \<open>simp_all add: holder_schedule holder_frame\<close>)

lemma queue_run_keeps:
  "queue_inv db \<Longrightarrow> holder db k = Some (w, u) \<Longrightarrow>
   \<forall>(t, s) \<in> set ss. t \<le> u \<and> op_owner s \<noteq> Some w \<Longrightarrow>
   holder (queue_run ss db) k = Some (w, u)
   \<or> (\<exists>before t s after. ss = before @ (t, s) # after \<and> retires s k \<and> holder (queue_run before db) k = Some (w, u))"
proof (induction ss arbitrary: db)
  case (Cons op ss)
  obtain t s where op: "op = (t, s)" by (cases op)
  show ?case
  proof (cases "retires s k")
    case True
    with Cons.prems(2) op show ?thesis by (intro disjI2 exI [of _ "[]"] exI [of _ t] exI [of _ s] exI [of _ ss]) simp
  next
    case False
    have "holder (queue_step t s db) k = Some (w, u)"
      by (rule queue_step_keeps) (use Cons.prems op False in auto)
    from Cons.IH [OF queue_step_inv [OF Cons.prems(1)] this] Cons.prems(3)
    consider "holder (queue_run ss (queue_step t s db)) k = Some (w, u)"
      | before t' s' after where "ss = before @ (t', s') # after" "retires s' k"
          "holder (queue_run before (queue_step t s db)) k = Some (w, u)" by auto
    then show ?thesis
    proof cases
      case 2
      then show ?thesis using op by (intro disjI2 exI [of _ "op # before"] exI [of _ t'] exI [of _ s'] exI [of _ after]) simp
    qed (simp add: op)
  qed
qed simp

section \<open>Properties\<close>

lemma sample_queue_inv: "queue_inv sample_db"
  by (simp add: queue_inv_def sample_db_inv) (simp add: sample_defs lease_ok_def)

text \<open>
  C1: A lease is exclusive: until it ends, no sequence of statements of the rest of the fleet (claims,
  extensions, finishes, schedule inserts, retirements, stored models, sweeps and heartbeats), nor a
  further claim of the holder, gives the row to anybody else or moves the lease. The one statement that
  ends it is a retirement of this very key, which deletes the row; up to it the holder keeps the row.
\<close>

theorem lease_is_exclusive:
  assumes "queue_inv db" "holder db k = Some (w, u)"
    and "\<forall>(t, s) \<in> set ss. t \<le> u \<and> op_owner s \<noteq> Some w"
  shows "holder (queue_run ss db) k = Some (w, u)
    \<or> (\<exists>before t keys after. ss = before @ (t, OpRetire keys) # after \<and> fst k = 0 \<and> snd k \<in> set keys
         \<and> holder (queue_run before db) k = Some (w, u))"
  using queue_run_keeps [OF assms]
proof (elim disjE exE conjE)
  fix before t s after
  assume split: "ss = before @ (t, s) # after" "retires s k" "holder (queue_run before db) k = Some (w, u)"
  from split(2) obtain keys where "s = OpRetire keys" "fst k = 0" "snd k \<in> set keys" by (cases s) auto
  with split show ?thesis by blast
qed simp

theorem lease_is_exclusive_witness:
  "holder (queue_run [(50, OpClaim [] ''b'' 10 5), (60, OpDone ''b'' 0 ''k1'' 70 ''ok'' 0), (65, OpRetire [''k2'']),
     (70, OpExtend ''b'' 0 ''k1'' 99)] sample_db) (0, ''k1'') = Some (''a'', 100)"
proof -
  let ?ss = "[(50, OpClaim [] ''b'' 10 5), (60, OpDone ''b'' 0 ''k1'' 70 ''ok'' 0), (65, OpRetire [''k2'']),
     (70, OpExtend ''b'' 0 ''k1'' 99)]"
  have "holder sample_db (0, ''k1'') = Some (''a'', 100)"
    by (simp add: holder_def row_at_def lease_key_def row_holder_def sample_defs rt_pk_def)
  from lease_is_exclusive [OF sample_queue_inv this, of ?ss] show ?thesis
    by (auto simp: Cons_eq_append_conv)
qed

text \<open>
  C3: Two claims, by any two workers and with any rows locked by others, never hand out the same row
  while the first claim's lease lasts.
\<close>

theorem claims_never_overlap:
  assumes "queue_inv db" "t' \<le> t + l"
  shows "claimed_keys (fst (sql_claim t locked w l n db))
    \<inter> claimed_keys (fst (sql_claim t' locked' w' l' n' (snd (sql_claim t locked w l n db)))) = {}"
  using lq.claims_disjoint [OF assms, of "(locked, n)" w "(locked', n')" w' l'] by simp

theorem claims_never_overlap_witness:
  "claimed_keys (fst (sql_claim 50 (\<lambda>_. False) ''b'' 10 1 sample_db)) = {(0, ''k3'')}
   \<and> claimed_keys (fst (sql_claim 50 (\<lambda>_. False) ''b'' 10 1 sample_db))
     \<inter> claimed_keys (fst (sql_claim 60 (\<lambda>_. False) ''c'' 10 5 (snd (sql_claim 50 (\<lambda>_. False) ''b'' 10 1 sample_db)))) = {}"
proof
  show "claimed_keys (fst (sql_claim 50 (\<lambda>_. False) ''b'' 10 1 sample_db)) = {(0, ''k3'')}"
    by (simp add: claimed_keys_def sql_claim_def due_rows_def due_def claim_of_def sample_defs Let_def)
  show "claimed_keys (fst (sql_claim 50 (\<lambda>_. False) ''b'' 10 1 sample_db))
     \<inter> claimed_keys (fst (sql_claim 60 (\<lambda>_. False) ''c'' 10 5 (snd (sql_claim 50 (\<lambda>_. False) ''b'' 10 1 sample_db)))) = {}"
    by (rule claims_never_overlap [OF sample_queue_inv]) simp
qed

text \<open>
  A stale finish is a no-op: when the row is not leased to the finishing worker any more, whoever
  holds it now or nobody, \<open>Done\<close> affects no row and changes nothing, and so does \<open>Extend\<close>.
\<close>

theorem stale_finish_is_noop:
  assumes "queue_inv db" "\<forall>u. holder db (org, key) \<noteq> Some (w, u)"
  shows "sql_done now w org key nxt status a db = (0, db) \<and> sql_extend now w org key l db = (0, db)"
proof -
  have none: "\<not> held_row w org key r" if "r \<in> set (db_retrain db)" for r
  proof
    assume "held_row w org key r"
    then have pk: "rt_pk r = lease_key (org, key)" "rt_claimed_by r = Some w"
      by (simp_all add: held_row_pk lease_key_def)
    moreover have "lease_ok r" using assms(1) that by (simp add: queue_inv_def)
    ultimately obtain u where "row_holder r = Some (w, u)" using row_holder_Some by blast
    moreover have "row_at db (lease_key (org, key)) = Some r"
      using row_at_in [of db r] assms(1) that pk by (simp add: queue_inv_def)
    ultimately show False using assms(2) by (simp add: holder_def)
  qed
  then show ?thesis
    by (simp add: sql_done_def sql_extend_def filter_empty_conv cong: map_cong)
qed

theorem stale_finish_is_noop_witness:
  "sql_done 60 ''b'' 0 ''k1'' 70 ''ok'' 0 sample_db = (0, sample_db)"
proof -
  have "\<forall>u. holder sample_db (0, ''k1'') \<noteq> Some (''b'', u)"
    by (simp add: holder_def row_at_def lease_key_def row_holder_def sample_defs rt_pk_def)
  from stale_finish_is_noop [OF sample_queue_inv this] show ?thesis by simp
qed

text \<open>
  A claim takes at most its limit of rows, only due ones, each once, and the earliest: a due row
  that is left behind is no earlier than any row taken, and only because the limit was reached.
\<close>

lemma claim_takes_earliest_due:
  assumes "db_inv db" "0 \<le> limit"
  shows "int (length (due_rows now locked limit db)) \<le> limit
    \<and> distinct (map rt_pk (due_rows now locked limit db))
    \<and> (\<forall>r \<in> set (due_rows now locked limit db). due now locked r)
    \<and> (\<forall>r \<in> set (db_retrain db). if due now locked r \<and> r \<notin> set (due_rows now locked limit db)
        then int (length (due_rows now locked limit db)) = limit
          \<and> (\<forall>r' \<in> set (due_rows now locked limit db). rt_next r' \<le> rt_next r) else True)"
proof -
  define f where "f r = (case rt_next r of None \<Rightarrow> 0 | Some t \<Rightarrow> t)" for r :: retrain_row
  define all where "all = sort_key f (filter (due now locked) (db_retrain db))"
  have rows: "due_rows now locked limit db = take (nat limit) all"
    by (simp add: due_rows_def all_def f_def [abs_def])
  have next_le: "rt_next r' \<le> rt_next r" if "due now locked r" "due now locked r'" "f r' \<le> f r" for r r'
    using that by (auto simp: due_def f_def less_eq_option_def split: option.splits)
  have left: "int (length (take (nat limit) all)) = limit \<and> (\<forall>r' \<in> set (take (nat limit) all). rt_next r' \<le> rt_next r)"
    if r: "r \<in> set (db_retrain db)" "due now locked r" "r \<notin> set (take (nat limit) all)" for r
  proof -
    have "r \<in> set all" using r by (simp add: all_def)
    with r(3) have d: "r \<in> set (drop (nat limit) all)" by (metis Un_iff append_take_drop_id set_append)
    then have "nat limit < length all" by (metis drop_all empty_iff leI list.set(1))
    moreover have "f r' \<le> f r" if "r' \<in> set (take (nat limit) all)" for r'
    proof -
      have "sorted (map f (take (nat limit) all @ drop (nat limit) all))" by (simp add: all_def)
      then show ?thesis using that d by (auto simp: sorted_append simp del: append_take_drop_id)
    qed
    moreover have "due now locked r'" if "r' \<in> set (take (nat limit) all)" for r'
      using in_set_takeD [OF that] by (simp add: all_def)
    ultimately show ?thesis using assms(2) r(2) next_le by simp
  qed
  have "int (length (due_rows now locked limit db)) \<le> limit" using assms(2) by (simp add: rows)
  moreover have "\<forall>r \<in> set (due_rows now locked limit db). due now locked r"
    using set_due_rows by blast
  ultimately show ?thesis
    using distinct_due_rows [OF assms(1)] left unfolding rows [symmetric] by simp
qed

end
