(* ===== verification/PostgresStore.thy ===== *)
theory PostgresStore imports Leases
begin

text \<open>
  The store a worker calls (\<open>store_postgres.go\<close>): \<open>ensure\<close> with its reconnect
  throttle, and every method as \<open>ensure\<close> followed by its SQL statement.

  One call reads its environment from a record \<open>pg_in\<close>: the process clock, the outcomes of
  the ping and of \<open>applyMigrations\<close>, how the database answers a probe query, its \<open>now()\<close>,
  and how the statement itself ends: it succeeds, fails without effect, or takes effect while
  the reply is lost. The snapshot type and its codec (\<open>encoding/json\<close> of the forecast
  library's struct, \<open>compress/gzip\<close>) are parameters.
\<close>

section \<open>ensure\<close>

datatype fault = NoFault | StmtFails go_err | ReplyLost go_err

record pg_in =
  in_clock :: instant
  in_ping :: "go_err option"
  in_migrate :: "go_err option"
  in_probes :: "string \<Rightarrow> go_err option"
  in_now :: instant
  in_fault :: fault
  in_locked :: "row_key list"

record conn =
  cn_ready :: bool
  cn_lastErr :: "go_err option"
  cn_lastAttempt :: instant

record pg_store =
  st_conn :: conn
  st_db :: pg_db

definition ensureRetryAfter :: duration where
  "ensureRetryAfter = 5 * second"

definition openPostgresStore :: "pg_db \<Rightarrow> pg_store" where
  "openPostgresStore db =
     \<lparr>st_conn = \<lparr>cn_ready = False, cn_lastErr = None, cn_lastAttempt = zero_time\<rparr>, st_db = db\<rparr>"

text \<open>
  The two queries of \<open>probeSchema\<close>, which \<open>run\<close> executes in order; the first failure is returned.
  \<open>forecast.retrain\<close>, which the plugin creates, is not probed.
\<close>

definition schema_probes :: "string list" where
  "schema_probes =
     [''SELECT id, metric_hash FROM baselines.snapshots LIMIT 1'',
      ''SELECT id, worker_id FROM baselines.workers LIMIT 1'']"

fun first_failure :: "(string \<Rightarrow> go_err option) \<Rightarrow> string list \<Rightarrow> go_err option" where
  "first_failure run [] = None"
| "first_failure run (q # qs) = (case run q of Some e \<Rightarrow> Some e | None \<Rightarrow> first_failure run qs)"

definition probeSchema :: "(string \<Rightarrow> go_err option) \<Rightarrow> go_err option" where
  "probeSchema run = first_failure run schema_probes"

lemma probeSchema_None:
  "probeSchema run = None \<longleftrightarrow> run ''SELECT id, metric_hash FROM baselines.snapshots LIMIT 1'' = None
     \<and> run ''SELECT id, worker_id FROM baselines.workers LIMIT 1'' = None"
  by (simp add: probeSchema_def schema_probes_def split: option.split)

text \<open>
  \<open>ensure\<close> returns its error, whether it pinged the database, and the new state.
\<close>

definition ensure :: "pg_in \<Rightarrow> conn \<Rightarrow> go_err option \<times> bool \<times> conn" where
  "ensure i c =
     (if cn_ready c then (None, False, c)
      else if cn_lastErr c \<noteq> None \<and> time_sub (in_clock i) (cn_lastAttempt c) < ensureRetryAfter
      then (cn_lastErr c, False, c)
      else let c = c\<lparr>cn_lastAttempt := in_clock i\<rparr> in
        case in_ping i of
          Some e \<Rightarrow> let e = Wrap ''baseline store'' e in (Some e, True, c\<lparr>cn_lastErr := Some e\<rparr>)
        | None \<Rightarrow>
            (case in_migrate i of
               Some e \<Rightarrow>
                 (case probeSchema (in_probes i) of
                    Some _ \<Rightarrow> (Some e, True, c\<lparr>cn_lastErr := Some e\<rparr>)
                  | None \<Rightarrow> (None, True, c\<lparr>cn_ready := True, cn_lastErr := None\<rparr>))
             | None \<Rightarrow> (None, True, c\<lparr>cn_ready := True, cn_lastErr := None\<rparr>)))"

text \<open>One statement (or transaction) against the database.\<close>

definition exec :: "fault \<Rightarrow> (pg_db \<Rightarrow> 'a \<times> pg_db) \<Rightarrow> pg_db \<Rightarrow> (go_err + 'a) \<times> pg_db" where
  "exec flt stmt db =
     (case flt of
        NoFault \<Rightarrow> (Inr (fst (stmt db)), snd (stmt db))
      | StmtFails e \<Rightarrow> (Inl e, db)
      | ReplyLost e \<Rightarrow> (Inl e, snd (stmt db)))"

definition with_store :: "pg_in \<Rightarrow> (pg_db \<Rightarrow> 'a \<times> pg_db) \<Rightarrow> pg_store \<Rightarrow> (go_err + 'a) \<times> pg_store" where
  "with_store i stmt s =
     (case ensure i (st_conn s) of
        (Some e, _, c) \<Rightarrow> (Inl e, s\<lparr>st_conn := c\<rparr>)
      | (None, _, c) \<Rightarrow>
          (let (r, db) = exec (in_fault i) stmt (st_db s) in (r, s\<lparr>st_conn := c, st_db := db\<rparr>)))"

definition on_error :: "(go_err \<Rightarrow> go_err) \<Rightarrow> (go_err + 'a) \<times> 's \<Rightarrow> (go_err + 'a) \<times> 's" where
  "on_error f r = (case fst r of Inl e \<Rightarrow> (Inl (f e), snd r) | Inr v \<Rightarrow> r)"

section \<open>The snapshot codec\<close>

record 'm codec =
  marshal :: "'m \<Rightarrow> go_err + string"
  gzip :: "string \<Rightarrow> go_err + string"
  gunzip :: "string \<Rightarrow> go_err + string \<times> go_err option"
  unmarshal :: "string \<Rightarrow> go_err + 'm"

definition maxSnapshotJSON :: nat where
  "maxSnapshotJSON = 16 * 1024 * 1024"

definition decodeSnapshot :: "'m codec \<Rightarrow> string \<Rightarrow> string \<Rightarrow> go_err + 'm" where
  "decodeSnapshot cd key raw =
     (let wrap = Wrap (''snapshot '' @ key) in
      case gunzip cd raw of
        Inl e \<Rightarrow> Inl (wrap e)
      | Inr stream \<Rightarrow>
          (case read_limited (maxSnapshotJSON + 1) stream of
             Inl e \<Rightarrow> Inl (wrap e)
           | Inr plain \<Rightarrow>
               if maxSnapshotJSON < length plain
               then Inl (Err (''snapshot '' @ key @ '': decompressed body exceeds ''
                              @ format_int (int maxSnapshotJSON) @ '' bytes''))
               else case unmarshal cd plain of
                      Inl e \<Rightarrow> Inl (wrap e)
                    | Inr snap \<Rightarrow> Inr snap))"

definition encodeSnapshot :: "'m codec \<Rightarrow> 'm \<Rightarrow> go_err + string" where
  "encodeSnapshot cd snap = (case marshal cd snap of Inl e \<Rightarrow> Inl e | Inr raw \<Rightarrow> gzip cd raw)"

section \<open>Error texts\<close>

fun contains :: "string \<Rightarrow> string \<Rightarrow> bool" where
  "contains sub [] \<longleftrightarrow> sub = []"
| "contains sub (c # s) \<longleftrightarrow> take (length sub) (c # s) = sub \<or> contains sub s"

definition staleScheduleKeyError :: "go_err \<Rightarrow> go_err" where
  "staleScheduleKeyError err =
     (case as_pg err of
        Some (code, msg) \<Rightarrow>
          if code = ''42P10'' \<or> code = ''42703''
          then Wrap (''forecast.retrain is keyed (scope, key), not (scope, org_id, key): run the plugin ''
                     @ ''once against this database to migrate it'') err
          else err
      | None \<Rightarrow> err)"

definition missingAttemptsError :: "go_err \<Rightarrow> go_err" where
  "missingAttemptsError err =
     (case as_pg err of
        Some (code, msg) \<Rightarrow>
          if code = ''42703'' \<and> contains ''attempts'' msg
          then Wrap (''forecast.retrain has no attempts column: apply the timeseries-grafana migration ''
                     @ ''(gpx_forecast_migrate) before starting this worker'') err
          else err
      | None \<Rightarrow> err)"

section \<open>Methods\<close>

definition pg_Put :: "'m codec \<Rightarrow> pg_in \<Rightarrow> string \<Rightarrow> snapshotRecord \<Rightarrow> 'm \<Rightarrow> pg_store
    \<Rightarrow> (go_err + unit) \<times> pg_store" where
  "pg_Put cd i key rec snap s =
     (case ensure i (st_conn s) of
        (Some e, _, c) \<Rightarrow> (Inl e, s\<lparr>st_conn := c\<rparr>)
      | (None, _, c) \<Rightarrow>
          (case encodeSnapshot cd snap of
             Inl e \<Rightarrow> (Inl e, s\<lparr>st_conn := c\<rparr>)
           | Inr body \<Rightarrow>
               (let (r, db) = exec (in_fault i) (\<lambda>db. ((), sql_put (in_now i) key rec body db)) (st_db s)
                in (r, s\<lparr>st_conn := c, st_db := db\<rparr>))))"

definition pg_Get :: "'m codec \<Rightarrow> pg_in \<Rightarrow> string \<Rightarrow> pg_store \<Rightarrow> (go_err + 'm option) \<times> pg_store" where
  "pg_Get cd i key s =
     (case with_store i (\<lambda>db. (sql_get key db, db)) s of
        (Inl e, s') \<Rightarrow> (Inl e, s')
      | (Inr None, s') \<Rightarrow> (Inr None, s')
      | (Inr (Some raw), s') \<Rightarrow>
          (case decodeSnapshot cd key raw of
             Inl e \<Rightarrow> (Inl e, s')
           | Inr snap \<Rightarrow> (Inr (Some snap), s')))"

definition pg_Fresh :: "pg_in \<Rightarrow> string list \<Rightarrow> pg_store \<Rightarrow> (go_err + (string \<times> instant) list) \<times> pg_store" where
  "pg_Fresh i keys s = with_store i (\<lambda>db. (sql_fresh keys db, db)) s"

definition pg_SweepSnapshots :: "pg_in \<Rightarrow> duration \<Rightarrow> pg_store \<Rightarrow> (go_err + int) \<times> pg_store" where
  "pg_SweepSnapshots i ttl s = with_store i (sql_sweep (in_now i) ttl) s"

definition pg_BaselineKeys :: "pg_in \<Rightarrow> pg_store \<Rightarrow> (go_err + string list) \<times> pg_store" where
  "pg_BaselineKeys i s = with_store i (\<lambda>db. (sql_baseline_keys db, db)) s"

text \<open>Both deletes of a retirement are one transaction: one \<open>exec\<close>.\<close>

definition pg_Retire :: "pg_in \<Rightarrow> string list \<Rightarrow> pg_store \<Rightarrow> (go_err + int \<times> int) \<times> pg_store" where
  "pg_Retire i keys s =
     (if keys = [] then (Inr (0, 0), s) else with_store i (sql_retire keys) s)"

definition pg_Heartbeat :: "pg_in \<Rightarrow> string \<Rightarrow> int \<Rightarrow> int \<Rightarrow> pg_store \<Rightarrow> (go_err + unit) \<times> pg_store" where
  "pg_Heartbeat i wid owned peers s =
     with_store i (\<lambda>db. ((), sql_heartbeat (in_now i) wid owned peers db)) s"

definition pg_Peers :: "pg_in \<Rightarrow> duration \<Rightarrow> pg_store \<Rightarrow> (go_err + string list) \<times> pg_store" where
  "pg_Peers i ttl s = with_store i (\<lambda>db. (sql_peers (in_now i) ttl db, db)) s"

definition insert_schedules :: "pg_in \<Rightarrow> string list \<Rightarrow> string \<Rightarrow> string \<Rightarrow> pg_db \<Rightarrow> (go_err + unit) \<times> pg_db" where
  "insert_schedules i keys cron tz db =
     on_error staleScheduleKeyError
       (exec (in_fault i) (\<lambda>db. ((), sql_schedule (in_now i) keys cron tz db)) db)"

definition pg_Schedule :: "pg_in \<Rightarrow> string list \<Rightarrow> string \<Rightarrow> string \<Rightarrow> pg_store
    \<Rightarrow> (go_err + unit) \<times> pg_store" where
  "pg_Schedule i keys cron tz s =
     (if keys = [] then (Inr (), s)
      else case ensure i (st_conn s) of
             (Some e, _, c) \<Rightarrow> (Inl e, s\<lparr>st_conn := c\<rparr>)
           | (None, _, c) \<Rightarrow>
               (let (r, db) = insert_schedules i keys cron tz (st_db s)
                in (r, s\<lparr>st_conn := c, st_db := db\<rparr>)))"

text \<open>An error of \<open>ensure\<close> is returned as it is; a statement's error is explained.\<close>

definition with_queue :: "(go_err \<Rightarrow> go_err) \<Rightarrow> pg_in \<Rightarrow> (pg_db \<Rightarrow> 'a \<times> pg_db) \<Rightarrow> pg_store \<Rightarrow> (go_err + 'a) \<times> pg_store" where
  "with_queue explain i stmt s =
     (case ensure i (st_conn s) of
        (Some e, _, c) \<Rightarrow> (Inl e, s\<lparr>st_conn := c\<rparr>)
      | (None, _, c) \<Rightarrow>
          (let (r, db) = on_error explain (exec (in_fault i) stmt (st_db s))
           in (r, s\<lparr>st_conn := c, st_db := db\<rparr>)))"

text \<open>
  An error of \<open>Claim\<close>'s query is explained; one met while its rows are read is not.
\<close>

definition claim_error :: "fault \<Rightarrow> go_err \<Rightarrow> go_err" where
  "claim_error flt err = (case flt of StmtFails _ \<Rightarrow> missingAttemptsError err | _ \<Rightarrow> err)"

definition pg_Claim :: "pg_in \<Rightarrow> string \<Rightarrow> duration \<Rightarrow> int \<Rightarrow> pg_store
    \<Rightarrow> (go_err + retrainClaim list) \<times> pg_store" where
  "pg_Claim i owner lease limit s =
     with_queue (claim_error (in_fault i)) i
       (sql_claim (in_now i) (\<lambda>pk. pk \<in> set (in_locked i)) owner lease limit) s"

definition pg_Done :: "pg_in \<Rightarrow> string \<Rightarrow> int \<Rightarrow> string \<Rightarrow> instant \<Rightarrow> string \<Rightarrow> int \<Rightarrow> pg_store
    \<Rightarrow> (go_err + unit) \<times> pg_store" where
  "pg_Done i owner org key nxt status attempts s =
     (let (r, s') = with_queue missingAttemptsError i (sql_done (in_now i) owner org key nxt status attempts) s
      in (case r of Inl e \<Rightarrow> Inl e | Inr n \<Rightarrow> Inr (), s'))"

definition pg_Extend :: "pg_in \<Rightarrow> string \<Rightarrow> int \<Rightarrow> string \<Rightarrow> duration \<Rightarrow> pg_store
    \<Rightarrow> (go_err + bool) \<times> pg_store" where
  "pg_Extend i owner org key lease s =
     (let (r, s') = with_queue missingAttemptsError i (sql_extend (in_now i) owner org key lease) s
      in (case r of Inl e \<Rightarrow> Inl e | Inr n \<Rightarrow> Inr (0 < n), s'))"

section \<open>Lemmas: the connection\<close>

lemma ensure_ready: "cn_ready c \<Longrightarrow> ensure i c = (None, False, c)"
  by (simp add: ensure_def)

text \<open>The process clocks at which a sequence of \<open>ensure\<close> calls pings the database.\<close>

fun ping_clocks :: "pg_in list \<Rightarrow> conn \<Rightarrow> instant list" where
  "ping_clocks [] c = []"
| "ping_clocks (i # is) c =
     (case ensure i c of (e, pinged, c') \<Rightarrow>
        if pinged then in_clock i # ping_clocks is c' else ping_clocks is c')"

lemma ensure_ping:
  "ensure i c = (e, True, c') \<Longrightarrow>
   \<not> cn_ready c \<and> cn_lastAttempt c' = in_clock i \<and> (cn_ready c' \<or> cn_lastErr c' \<noteq> None)
   \<and> (if cn_lastErr c = None then True else ensureRetryAfter \<le> time_sub (in_clock i) (cn_lastAttempt c))"
  by (auto simp: ensure_def Let_def split: if_splits option.splits)

lemma ensure_quiet: "ensure i c = (e, False, c') \<Longrightarrow> c' = c"
  by (auto simp: ensure_def Let_def split: if_splits option.splits)

lemma ping_clocks_ready: "cn_ready c \<Longrightarrow> ping_clocks is c = []"
  by (induction "is") (simp_all add: ensure_ready)

fun spaced :: "instant list \<Rightarrow> bool" where
  "spaced (t # u # ts) \<longleftrightarrow> ensureRetryAfter \<le> time_sub u t \<and> spaced (u # ts)"
| "spaced ts \<longleftrightarrow> True"

lemma ping_clocks_spaced:
  "spaced (ping_clocks is c) \<and> (if cn_lastErr c = None then True else
     case ping_clocks is c of [] \<Rightarrow> True | u # us \<Rightarrow> ensureRetryAfter \<le> time_sub u (cn_lastAttempt c))"
proof (induction "is" arbitrary: c)
  case (Cons i "is")
  obtain e b c' where en: "ensure i c = (e, b, c')" by (rule prod_cases3)
  show ?case
  proof (cases b)
    case False
    with en ensure_quiet have "c' = c" by simp
    with en False Cons.IH [of c] show ?thesis by simp
  next
    case True
    with en ensure_ping have p: "cn_lastAttempt c' = in_clock i" "cn_ready c' \<or> cn_lastErr c' \<noteq> None"
      "if cn_lastErr c = None then True else ensureRetryAfter \<le> time_sub (in_clock i) (cn_lastAttempt c)"
      by simp_all
    have "spaced (in_clock i # ping_clocks is c')"
    proof (cases "cn_ready c'")
      case True
      then show ?thesis by (simp add: ping_clocks_ready)
    next
      case False
      with p Cons.IH [of c'] show ?thesis by (cases "ping_clocks is c'") auto
    qed
    with en True p(3) show ?thesis by simp
  qed
qed simp

section \<open>Lemmas: the codec\<close>

lemma exec_NoFault [simp]: "exec NoFault stmt db = (Inr (fst (stmt db)), snd (stmt db))"
  by (simp add: exec_def)

section \<open>Properties\<close>

text \<open>
  C38: While the database is down, the store dials it at most once per \<open>ensureRetryAfter\<close>, however
  often its methods are called and whatever the clock does; once it is provisioned it never dials
  again.
\<close>

theorem reconnects_are_throttled:
  "spaced (ping_clocks is (st_conn (openPostgresStore db)))
   \<and> ping_clocks is (c\<lparr>cn_ready := True\<rparr>) = []"
  using ping_clocks_spaced [of "is" "st_conn (openPostgresStore db)"] by (simp add: ping_clocks_ready)

text \<open>
  \<open>decodeSnapshot\<close> never parses a body longer than \<open>maxSnapshotJSON\<close>: what it returns was
  parsed from the whole decompressed stream, which ended without an error within the bound.
\<close>

theorem decodeSnapshot_bounded:
  assumes "decodeSnapshot cd key raw = Inr snap"
  shows "\<exists>plain. gunzip cd raw = Inr (plain, None) \<and> length plain \<le> maxSnapshotJSON
    \<and> unmarshal cd plain = Inr snap"
proof -
  from assms obtain plain tail where g: "gunzip cd raw = Inr (plain, tail)"
    by (auto simp: decodeSnapshot_def Let_def split: sum.splits)
  from assms g obtain body where body: "read_limited (maxSnapshotJSON + 1) (plain, tail) = Inr body"
    "length body \<le> maxSnapshotJSON" "unmarshal cd body = Inr snap"
    by (auto simp: decodeSnapshot_def Let_def split: sum.splits if_splits)
  from body(1,2) have "tail = None" "body = plain"
    by (auto simp: read_limited_def split: if_splits option.splits)
  with g body show ?thesis by auto
qed

text \<open>A codec for concrete inputs: bodies are stored as they are.\<close>

definition plain_codec :: "string codec" where
  "plain_codec = \<lparr>marshal = Inr, gzip = Inr, gunzip = (\<lambda>raw. Inr (raw, None)), unmarshal = Inr\<rparr>"

theorem decodeSnapshot_bounded_witness:
  "decodeSnapshot plain_codec ''k'' ''{}'' = Inr ''{}''
   \<and> (\<exists>plain. gunzip plain_codec ''{}'' = Inr (plain, None) \<and> length plain \<le> maxSnapshotJSON)"
proof -
  have d: "decodeSnapshot plain_codec ''k'' ''{}'' = Inr ''{}''"
    by (simp add: decodeSnapshot_def read_limited_def maxSnapshotJSON_def plain_codec_def Let_def)
  from decodeSnapshot_bounded [OF d] d show ?thesis by blast
qed

text \<open>
  C23: A model that was stored is read back: after a successful \<open>Put\<close>, \<open>Get\<close> of the same key
  returns that very model, and \<open>Put\<close> leaves the body stored for every other key alone. The codec is
  only assumed to invert itself on this model, whose text must be within the bound \<open>Get\<close> enforces.
\<close>

theorem put_get_roundtrip:
  assumes "pg_Put cd i key rec snap s = (Inr (), s')" "in_fault i = NoFault" "in_fault j = NoFault"
    and "marshal cd snap = Inr text" "gzip cd text = Inr body" "gunzip cd body = Inr (text, None)"
    and "unmarshal cd text = Inr snap" "length text \<le> maxSnapshotJSON"
  shows "fst (pg_Get cd j key s') = Inr (Some snap)
    \<and> (\<forall>k. sql_get k (st_db s') = (if k = key then Some body else sql_get k (st_db s)))"
proof -
  have enc: "encodeSnapshot cd snap = Inr body" using assms(4,5) by (simp add: encodeSnapshot_def)
  from assms(1,2) enc have db: "st_db s' = sql_put (in_now i) key rec body (st_db s)"
    by (auto simp: pg_Put_def split: prod.splits option.splits)
  have ready: "cn_ready (st_conn s')"
    using assms(1,2) enc by (auto simp: pg_Put_def ensure_def Let_def split: prod.splits option.splits if_splits)
  have get: "sql_get k (st_db s') = (if k = key then Some body else sql_get k (st_db s))" for k
    by (simp add: db sql_get_def snap_at_put flip: snap_at_def) (simp add: snap_of_def)
  have "decodeSnapshot cd key body = Inr snap"
    using assms(6-8) by (simp add: decodeSnapshot_def read_limited_def Let_def)
  then have "fst (pg_Get cd j key s') = Inr (Some snap)"
    using get [of key] assms(3) by (simp add: pg_Get_def with_store_def ensure_ready [OF ready])
  with get show ?thesis by blast
qed

definition calm_in :: "instant \<Rightarrow> pg_in" where
  "calm_in t = \<lparr>in_clock = t, in_ping = None, in_migrate = None, in_probes = (\<lambda>q. None), in_now = t,
     in_fault = NoFault, in_locked = []\<rparr>"

theorem put_get_roundtrip_witness:
  "fst (pg_Get plain_codec (calm_in 7) ''k''
     (snd (pg_Put plain_codec (calm_in 5) ''k'' \<lparr>sr_Model = ''baseline'', sr_Season = ''minute-week'',
        sr_Calendar = [], sr_Lookback = hour, sr_TrainedAt = 5\<rparr> ''{}'' (openPostgresStore sample_db)))) = Inr (Some ''{}'')"
proof -
  let ?rec = "\<lparr>sr_Model = ''baseline'', sr_Season = ''minute-week'', sr_Calendar = [], sr_Lookback = hour, sr_TrainedAt = 5\<rparr>"
  let ?put = "pg_Put plain_codec (calm_in 5) ''k'' ?rec ''{}'' (openPostgresStore sample_db)"
  have "?put = (Inr (), snd ?put)"
    by (simp add: pg_Put_def ensure_def calm_in_def openPostgresStore_def encodeSnapshot_def plain_codec_def Let_def)
  from put_get_roundtrip [OF this, of "calm_in 7" "''{}''" "''{}''"] show ?thesis
    by (simp add: calm_in_def plain_codec_def maxSnapshotJSON_def)
qed

end
