(* ===== verification/World.thy ===== *)
theory World imports LeaseView PostgresStore
begin

text \<open>
  A concrete environment for the worker: the Postgres store of \<open>PostgresStore\<close> behind
  \<open>storeBackend\<close>, the Kafka sink, and everything else as inputs. Each call the worker makes
  reads the next entry of an input stream, so a theorem over all streams covers every sequence of
  answers, failures and clock readings. Before each call the other clients of the database act
  (\<open>ci_others\<close>), which interleaves the rest of the fleet with this worker. The world also records what was written to Kafka
  (\<open>wd_topic\<close>) and which messages the sink accepted (\<open>wd_sent\<close>).
\<close>

record 's call_in =
  ci_others :: "pg_db \<Rightarrow> pg_db"
  ci_pg :: pg_in
  ci_spans :: "go_err + metricSpan list"
  ci_series :: "go_err + 's"
  ci_send :: "go_err option"
  ci_lookup :: lookup
  ci_clock :: instant
  ci_ctx :: "go_err option"
  ci_slot :: "go_err option"

record 's world =
  wd_pg :: pg_store
  wd_topic :: "(string \<times> string) list"
  wd_sent :: "BaselineMessage list"
  wd_calls :: nat
  wd_feed :: "nat \<Rightarrow> 's call_in"

text \<open>The third-party code: the forecasting library, the codecs, the cron and zone libraries.\<close>

record ('s, 'f, 'm) outside =
  ou_store :: bool
  ou_lib :: "('s, 'f, 'm) lib"
  ou_codec :: "'m codec"
  ou_marshal :: "BaselineMessage \<Rightarrow> go_err + string"
  ou_order :: "retrainClaim list \<Rightarrow> retrainClaim list"
  ou_quote :: "string \<Rightarrow> string"
  ou_cron :: cron_parser
  ou_location :: "string \<Rightarrow> go_err option"

definition next_in :: "'s world \<Rightarrow> 's call_in \<times> 's world" where
  "next_in w =
     (let i = wd_feed w (wd_calls w); s = wd_pg w
      in (i, w\<lparr>wd_calls := Suc (wd_calls w), wd_pg := s\<lparr>st_db := ci_others i (st_db s)\<rparr>\<rparr>))"

definition ask :: "('s call_in \<Rightarrow> 'a) \<Rightarrow> 's world \<Rightarrow> 'a \<times> 's world" where
  "ask f w = (let (i, w) = next_in w in (f i, w))"

definition on_pg :: "(pg_in \<Rightarrow> pg_store \<Rightarrow> 'a \<times> pg_store) \<Rightarrow> 's world \<Rightarrow> 'a \<times> 's world" where
  "on_pg f w = (let (i, w) = next_in w; (r, s) = f (ci_pg i) (wd_pg w) in (r, w\<lparr>wd_pg := s\<rparr>))"

definition pg_ops :: "'m codec \<Rightarrow> ('s world, 'm) store_ops" where
  "pg_ops cd =
     \<lparr>so_Fresh = (\<lambda>keys. on_pg (\<lambda>i. pg_Fresh i keys)),
      so_Get = (\<lambda>key. on_pg (\<lambda>i. pg_Get cd i key)),
      so_Put = (\<lambda>key rec snap. on_pg (\<lambda>i. pg_Put cd i key rec snap)),
      so_Sweep = (\<lambda>ttl. on_pg (\<lambda>i. pg_SweepSnapshots i ttl)),
      so_Schedule = (\<lambda>keys cron tz. on_pg (\<lambda>i. pg_Schedule i keys cron tz)),
      so_Claim = (\<lambda>owner lease limit. on_pg (\<lambda>i. pg_Claim i owner lease limit)),
      so_Extend = (\<lambda>owner org key lease. on_pg (\<lambda>i. pg_Extend i owner org key lease)),
      so_Done = (\<lambda>owner org key nxt status a. on_pg (\<lambda>i. pg_Done i owner org key nxt status a)),
      so_BaselineKeys = on_pg pg_BaselineKeys,
      so_Retire = (\<lambda>keys. on_pg (\<lambda>i. pg_Retire i keys)),
      so_Heartbeat = (\<lambda>wid owned n. on_pg (\<lambda>i. pg_Heartbeat i wid owned n)),
      so_Peers = (\<lambda>ttl. on_pg (\<lambda>i. pg_Peers i ttl))\<rparr>"

definition write_message :: "string \<Rightarrow> string \<Rightarrow> 's world \<Rightarrow> go_err option \<times> 's world" where
  "write_message key body w =
     (case ask ci_send w of
        (Some e, w) \<Rightarrow> (Some e, w)
      | (None, w) \<Rightarrow> (None, w\<lparr>wd_topic := wd_topic w @ [(key, body)]\<rparr>))"

definition sink_publish :: "(BaselineMessage \<Rightarrow> go_err + string) \<Rightarrow> BaselineMessage \<Rightarrow> 's world
    \<Rightarrow> go_err option \<times> 's world" where
  "sink_publish marshal_msg msg w =
     (case kafka_Publish marshal_msg write_message msg w of
        (Some e, w) \<Rightarrow> (Some e, w)
      | (None, w) \<Rightarrow> (None, w\<lparr>wd_sent := wd_sent w @ [msg]\<rparr>))"

definition world_env :: "('s, 'f, 'm) outside \<Rightarrow> ('s world, 's, 'f, 'm) env" where
  "world_env ou =
     \<lparr>ev_lib = ou_lib ou,
      ev_store = (if ou_store ou then Some (pg_ops (ou_codec ou)) else None),
      ev_Hashes = (\<lambda>from to. ask ci_spans),
      ev_Series = (\<lambda>key from to. ask ci_series),
      ev_Publish = sink_publish (ou_marshal ou),
      ev_LookupHost = (\<lambda>name. ask ci_lookup),
      ev_now = ask ci_clock,
      ev_ctxErr = ask ci_ctx,
      ev_acquire = ask ci_slot,
      ev_heldOrder = ou_order ou,
      ev_quote = ou_quote ou,
      ev_cron = ou_cron ou,
      ev_location = ou_location ou\<rparr>"

lemma ask_frame [simp]:
  "wd_topic (snd (ask f w)) = wd_topic w" "wd_sent (snd (ask f w)) = wd_sent w"
  by (simp_all add: ask_def next_in_def Let_def)

lemma on_pg_frame [simp]:
  "wd_topic (snd (on_pg f w)) = wd_topic w" "wd_sent (snd (on_pg f w)) = wd_sent w"
  by (simp_all add: on_pg_def next_in_def Let_def split: prod.split)

lemma sink_publish_sent:
  "wd_sent (snd (sink_publish m msg w))
     = wd_sent w @ (if fst (sink_publish m msg w) = None then [msg] else [])"
  using ask_frame [of ci_send w]
  by (auto simp: sink_publish_def kafka_Publish_def write_message_def ask_def next_in_def Let_def
      split: sum.split prod.splits option.splits)

lemma pg_ops_sent:
  "wd_sent (snd (so_Fresh (pg_ops cd) keys w)) = wd_sent w"
  "wd_sent (snd (so_Get (pg_ops cd) key w)) = wd_sent w"
  "wd_sent (snd (so_Put (pg_ops cd) key rec snap w)) = wd_sent w"
  "wd_sent (snd (so_Sweep (pg_ops cd) ttl w)) = wd_sent w"
  "wd_sent (snd (so_Schedule (pg_ops cd) keys cron tz w)) = wd_sent w"
  "wd_sent (snd (so_Claim (pg_ops cd) owner lease limit w)) = wd_sent w"
  "wd_sent (snd (so_Extend (pg_ops cd) owner org key lease w)) = wd_sent w"
  "wd_sent (snd (so_Done (pg_ops cd) owner org key nxt status a w)) = wd_sent w"
  "wd_sent (snd (so_BaselineKeys (pg_ops cd) w)) = wd_sent w"
  "wd_sent (snd (so_Retire (pg_ops cd) keys w)) = wd_sent w"
  "wd_sent (snd (so_Heartbeat (pg_ops cd) wid owned n w)) = wd_sent w"
  "wd_sent (snd (so_Peers (pg_ops cd) ttl w)) = wd_sent w"
  by (simp_all add: pg_ops_def)

interpretation sent: sink_log "world_env ou" wd_sent
  by unfold_locales (auto simp: world_env_def pg_ops_sent sink_publish_sent split: if_splits)

section \<open>The leases of this worker in the store\<close>

text \<open>
  An input is tame for a worker when the other clients keep the table's invariant and lease it no
  row in its name, and when no reply of the database is lost: a claim whose reply is lost leaves
  leases its worker cannot know of, and they wait for their expiry.
\<close>

definition tame :: "string \<Rightarrow> 's call_in \<Rightarrow> bool" where
  "tame me i \<longleftrightarrow> (\<forall>e. in_fault (ci_pg i) \<noteq> ReplyLost e)
     \<and> (\<forall>db. queue_inv db \<longrightarrow> queue_inv (ci_others i db) \<and> leased_to me (ci_others i db) \<subseteq> leased_to me db)"

definition world_db :: "'s world \<Rightarrow> pg_db" where
  "world_db w = st_db (wd_pg w)"

definition world_ok :: "string \<Rightarrow> 's world \<Rightarrow> bool" where
  "world_ok me w \<longleftrightarrow> queue_inv (world_db w) \<and> (\<forall>n. tame me (wd_feed w n))"

lemma next_in_ok:
  assumes "world_ok me w" "next_in w = (i, v)"
  shows "world_ok me v" "tame me i" "leased_to me (world_db v) \<subseteq> leased_to me (world_db w)"
proof -
  from assms(2) have v: "i = wd_feed w (wd_calls w)" "wd_feed v = wd_feed w"
    "world_db v = ci_others i (world_db w)"
    by (auto simp: next_in_def Let_def world_db_def)
  with assms(1) show t: "tame me i" by (simp add: world_ok_def)
  with assms(1) have "queue_inv (world_db v) \<and> leased_to me (world_db v) \<subseteq> leased_to me (world_db w)"
    unfolding v(3) world_ok_def tame_def by blast
  with assms(1) v(2) show "world_ok me v" "leased_to me (world_db v) \<subseteq> leased_to me (world_db w)"
    by (simp_all add: world_ok_def)
qed

lemma ask_ok:
  "world_ok me w \<longrightarrow> world_ok me (snd (ask f w)) \<and> leased_to me (world_db (snd (ask f w))) \<subseteq> leased_to me (world_db w)"
  using next_in_ok [of me w] by (auto simp: ask_def split: prod.split)

text \<open>One call of the store runs its method on a state the other clients may have changed.\<close>

lemma on_pgE:
  assumes "world_ok me w"
  obtains i s v where "on_pg f w = (fst (f i s), v)" "world_db v = st_db (snd (f i s))"
    "queue_inv (st_db s)" "\<forall>e. in_fault i \<noteq> ReplyLost e" "leased_to me (st_db s) \<subseteq> leased_to me (world_db w)"
    "queue_inv (st_db (snd (f i s))) \<longrightarrow> world_ok me v"
proof -
  obtain i v where v: "next_in w = (i, v)" by fastforce
  note ok = next_in_ok [OF assms v]
  show thesis
    by (rule that [of "ci_pg i" "wd_pg v" "v\<lparr>wd_pg := snd (f (ci_pg i) (wd_pg v))\<rparr>"])
      (use ok v in \<open>auto simp: on_pg_def world_ok_def world_db_def tame_def split: prod.split\<close>)
qed

section \<open>The statements of one call\<close>

lemma with_store_db:
  "\<forall>e. in_fault i \<noteq> ReplyLost e \<Longrightarrow>
   st_db (snd (with_store i stmt s)) = (case fst (with_store i stmt s) of
      Inl e \<Rightarrow> st_db s | Inr r \<Rightarrow> snd (stmt (st_db s)))
   \<and> (case fst (with_store i stmt s) of Inl e \<Rightarrow> True | Inr r \<Rightarrow> r = fst (stmt (st_db s)))"
  by (auto simp: with_store_def exec_def split: prod.split option.split fault.split)

lemma with_queue_db:
  "\<forall>e. in_fault i \<noteq> ReplyLost e \<Longrightarrow>
   st_db (snd (with_queue f i stmt s)) = (case fst (with_queue f i stmt s) of
      Inl e \<Rightarrow> st_db s | Inr r \<Rightarrow> snd (stmt (st_db s)))
   \<and> (case fst (with_queue f i stmt s) of Inl e \<Rightarrow> True | Inr r \<Rightarrow> r = fst (stmt (st_db s)))"
  by (auto simp: with_queue_def exec_def on_error_def split: prod.split option.split fault.split)

definition keeps_leases :: "string \<Rightarrow> (pg_in \<Rightarrow> pg_store \<Rightarrow> 'a \<times> pg_store) \<Rightarrow> bool" where
  "keeps_leases me f \<longleftrightarrow> (\<forall>i s. queue_inv (st_db s) \<longrightarrow> (\<forall>e. in_fault i \<noteq> ReplyLost e) \<longrightarrow>
     queue_inv (st_db (snd (f i s))) \<and> leased_to me (st_db (snd (f i s))) \<subseteq> leased_to me (st_db s))"

lemma on_pg_keeps:
  assumes "keeps_leases me f" "world_ok me w"
  shows "world_ok me (snd (on_pg f w)) \<and> leased_to me (world_db (snd (on_pg f w))) \<subseteq> leased_to me (world_db w)"
proof -
  obtain i s v where "on_pg f w = (fst (f i s), v)" "world_db v = st_db (snd (f i s))"
    "queue_inv (st_db s)" "\<forall>e. in_fault i \<noteq> ReplyLost e" "leased_to me (st_db s) \<subseteq> leased_to me (world_db w)"
    "queue_inv (st_db (snd (f i s))) \<longrightarrow> world_ok me v"
    by (rule on_pgE [OF assms(2), of f])
  with assms(1) show ?thesis unfolding keeps_leases_def by fastforce
qed

lemma on_pg_mem:
  "k \<in> leased_to me (world_db (snd (on_pg f w))) \<Longrightarrow> keeps_leases me f \<Longrightarrow> world_ok me w \<Longrightarrow> k \<in> leased_to me (world_db w)"
  using on_pg_keeps by blast

lemma with_store_keeps:
  assumes "\<And>i db. queue_inv db \<Longrightarrow> queue_inv (snd (stmt i db)) \<and> leased_to me (snd (stmt i db)) \<subseteq> leased_to me db"
  shows "keeps_leases me (\<lambda>i. with_store i (stmt i))"
proof -
  have "queue_inv (st_db (snd (with_store i (stmt i) s)))
      \<and> leased_to me (st_db (snd (with_store i (stmt i) s))) \<subseteq> leased_to me (st_db s)"
    if "queue_inv (st_db s)" "\<forall>e. in_fault i \<noteq> ReplyLost e" for i s
    using with_store_db [OF that(2), of "stmt i" s] assms [OF that(1), of i] that(1)
    by (cases "fst (with_store i (stmt i) s)") simp_all
  then show ?thesis by (simp add: keeps_leases_def)
qed

lemma with_store_keeps_same: "keeps_leases me (\<lambda>i. with_store i (\<lambda>db. (g i db, db)))"
  by (rule with_store_keeps) simp

lemma pg_keeps_leases:
  "keeps_leases me (\<lambda>i. pg_Fresh i keys)"
  "keeps_leases me (\<lambda>i. pg_SweepSnapshots i ttl)"
  "keeps_leases me pg_BaselineKeys"
  "keeps_leases me (\<lambda>i. pg_Heartbeat i wid o1 n)"
  "keeps_leases me (\<lambda>i. pg_Peers i ttl)"
  using with_store_keeps [of "\<lambda>i. sql_sweep (in_now i) ttl" me]
    with_store_keeps [of "\<lambda>i db. ((), sql_heartbeat (in_now i) wid o1 n db)" me]
  by (simp_all add: pg_Fresh_def [abs_def] pg_SweepSnapshots_def [abs_def] pg_BaselineKeys_def [abs_def]
      pg_Heartbeat_def [abs_def] pg_Peers_def [abs_def] with_store_keeps_same queue_inv_intros leased_frame)

lemma pg_Retire_keeps: "keeps_leases me (\<lambda>i. pg_Retire i keys)"
proof (cases "keys = []")
  case False
  then show ?thesis using with_store_keeps [of "\<lambda>i. sql_retire keys" me]
    by (auto simp: pg_Retire_def [abs_def] queue_inv_intros leased_retire)
qed (simp add: pg_Retire_def keeps_leases_def)

lemma pg_Get_keeps: "keeps_leases me (\<lambda>i. pg_Get cd i key)"
proof -
  have "snd (pg_Get cd i key s) = snd (with_store i (\<lambda>db. (sql_get key db, db)) s)" for i s
    by (auto simp: pg_Get_def split: prod.split sum.split option.split)
  then show ?thesis
    using with_store_keeps_same [of me "\<lambda>i. sql_get key"] by (simp add: keeps_leases_def)
qed

lemma pg_Put_keeps: "keeps_leases me (\<lambda>i. pg_Put cd i key rec snap)"
  unfolding keeps_leases_def
  by (auto simp: pg_Put_def exec_def queue_inv_intros leased_frame split: prod.split option.split sum.split fault.split)

lemma pg_Schedule_keeps: "keeps_leases me (\<lambda>i. pg_Schedule i keys cron tz)"
  unfolding keeps_leases_def
  by (auto simp: pg_Schedule_def insert_schedules_def exec_def on_error_def queue_inv_intros leased_schedule
      split: prod.split option.split fault.split)

lemma pg_Extend_keeps: "keeps_leases me (\<lambda>i. pg_Extend i owner org key lease)"
proof -
  have "queue_inv (st_db (snd (pg_Extend i owner org key lease s)))
      \<and> leased_to me (st_db (snd (pg_Extend i owner org key lease s))) \<subseteq> leased_to me (st_db s)"
    if inv: "queue_inv (st_db s)" and f: "\<forall>e. in_fault i \<noteq> ReplyLost e" for i s
  proof -
    let ?q = "with_queue missingAttemptsError i (sql_extend (in_now i) owner org key lease) s"
    have "snd (pg_Extend i owner org key lease s) = snd ?q"
      by (simp add: pg_Extend_def case_prod_beta)
    with with_queue_db [OF f, of missingAttemptsError "sql_extend (in_now i) owner org key lease" s] inv
    show ?thesis by (cases "fst ?q") (simp_all add: queue_inv_intros leased_extend)
  qed
  then show ?thesis by (simp add: keeps_leases_def)
qed

lemma pg_Claim_leases:
  assumes "queue_inv (st_db s)" "\<forall>e. in_fault i \<noteq> ReplyLost e"
  shows "queue_inv (st_db (snd (pg_Claim i me lease n s)))
    \<and> leased_to me (st_db (snd (pg_Claim i me lease n s)))
        \<subseteq> leased_to me (st_db s) \<union> (case fst (pg_Claim i me lease n s) of Inl e \<Rightarrow> {} | Inr cs \<Rightarrow> rc_Key ` set cs)
    \<and> (case fst (pg_Claim i me lease n s) of Inl e \<Rightarrow> True | Inr cs \<Rightarrow> list_all (\<lambda>c. rc_OrgID c = 0) cs)"
proof -
  let ?stmt = "sql_claim (in_now i) (\<lambda>pk. pk \<in> set (in_locked i)) me lease n"
  have "list_all (\<lambda>c. rc_OrgID c = 0) (fst (?stmt (st_db s)))"
    by (auto simp: list_all_iff dest: claimed_taken)
  with with_queue_db [OF assms(2), of "claim_error (in_fault i)" ?stmt s] assms(1) show ?thesis
    by (cases "fst (pg_Claim i me lease n s)") (auto simp: pg_Claim_def queue_inv_intros leased_claim)
qed

lemma pg_Done_leases:
  assumes "queue_inv (st_db s)" "\<forall>e. in_fault i \<noteq> ReplyLost e"
  shows "queue_inv (st_db (snd (pg_Done i me 0 key nxt status a s)))
    \<and> leased_to me (st_db (snd (pg_Done i me 0 key nxt status a s)))
        \<subseteq> leased_to me (st_db s) - (case fst (pg_Done i me 0 key nxt status a s) of Inl e \<Rightarrow> {} | Inr _ \<Rightarrow> {key})"
proof -
  let ?stmt = "sql_done (in_now i) me 0 key nxt status a"
  let ?q = "with_queue missingAttemptsError i ?stmt s"
  have "pg_Done i me 0 key nxt status a s = (case fst ?q of Inl e \<Rightarrow> Inl e | Inr n \<Rightarrow> Inr (), snd ?q)"
    by (simp add: pg_Done_def case_prod_beta)
  with with_queue_db [OF assms(2), of missingAttemptsError ?stmt s] assms(1) show ?thesis
    by (cases "fst ?q") (auto simp: queue_inv_intros leased_done)
qed

lemma sink_ok:
  "world_ok me w \<longrightarrow> world_ok me (snd (sink_publish m msg w))
     \<and> leased_to me (world_db (snd (sink_publish m msg w))) \<subseteq> leased_to me (world_db w)"
  using ask_ok [of me w ci_send]
  by (auto simp: sink_publish_def kafka_Publish_def write_message_def world_ok_def world_db_def
      split: sum.split prod.split option.split)

lemma claim_world:
  assumes "world_ok me w" "so_Claim (pg_ops cd) me lease limit w = (r, w')"
  shows "world_ok me w'"
    "leased_to me (world_db w') \<subseteq> leased_to me (world_db w) \<union> (case r of Inl e \<Rightarrow> {} | Inr cs \<Rightarrow> rc_Key ` set cs)"
    "case r of Inl e \<Rightarrow> True | Inr cs \<Rightarrow> list_all (\<lambda>c. rc_OrgID c = 0) cs"
proof -
  from assms(2) have call: "on_pg (\<lambda>i. pg_Claim i me lease limit) w = (r, w')" by (simp add: pg_ops_def)
  obtain i s v where v: "on_pg (\<lambda>i. pg_Claim i me lease limit) w = (fst (pg_Claim i me lease limit s), v)"
    "world_db v = st_db (snd (pg_Claim i me lease limit s))"
    "queue_inv (st_db s)" "\<forall>e. in_fault i \<noteq> ReplyLost e" "leased_to me (st_db s) \<subseteq> leased_to me (world_db w)"
    "queue_inv (st_db (snd (pg_Claim i me lease limit s))) \<longrightarrow> world_ok me v"
    by (rule on_pgE [OF assms(1), of "\<lambda>i. pg_Claim i me lease limit"])
  from v(1) call have r: "r = fst (pg_Claim i me lease limit s)" "w' = v" by simp_all
  note cl = pg_Claim_leases [OF v(3,4), of me lease limit]
  show "world_ok me w'" using cl v(6) r by blast
  show "case r of Inl e \<Rightarrow> True | Inr cs \<Rightarrow> list_all (\<lambda>c. rc_OrgID c = 0) cs" using cl r by simp
  show "leased_to me (world_db w') \<subseteq> leased_to me (world_db w) \<union> (case r of Inl e \<Rightarrow> {} | Inr cs \<Rightarrow> rc_Key ` set cs)"
    using cl v(2,5) unfolding r by (cases "fst (pg_Claim i me lease limit s)") auto
qed

lemma done_world:
  assumes "world_ok me w" "so_Done (pg_ops cd) me 0 key nxt status a w = (d, w')"
  shows "world_ok me w'" "leased_to me (world_db w') \<subseteq> (case d of Inl e \<Rightarrow> leased_to me (world_db w) | Inr _ \<Rightarrow> leased_to me (world_db w) - {key})"
proof -
  let ?f = "\<lambda>i. pg_Done i me 0 key nxt status a"
  from assms(2) have call: "on_pg ?f w = (d, w')" by (simp add: pg_ops_def)
  obtain i s v where v: "on_pg ?f w = (fst (?f i s), v)" "world_db v = st_db (snd (?f i s))"
    "queue_inv (st_db s)" "\<forall>e. in_fault i \<noteq> ReplyLost e" "leased_to me (st_db s) \<subseteq> leased_to me (world_db w)"
    "queue_inv (st_db (snd (?f i s))) \<longrightarrow> world_ok me v"
    by (rule on_pgE [OF assms(1), of ?f])
  from v(1) call have r: "d = fst (?f i s)" "w' = v" by simp_all
  note dn = pg_Done_leases [OF v(3,4), of me key nxt status a]
  show "world_ok me w'" using dn v(6) r by blast
  show "leased_to me (world_db w') \<subseteq> (case d of Inl e \<Rightarrow> leased_to me (world_db w) | Inr _ \<Rightarrow> leased_to me (world_db w) - {key})"
    using dn v(2,5) unfolding r by (cases "fst (?f i s)") auto
qed

lemma world_env_store: "ev_store (world_env ou) = Some so \<Longrightarrow> so = pg_ops (ou_codec ou)"
  by (simp add: world_env_def split: if_splits)

interpretation leases: lease_view "world_env ou" "world_ok me" "\<lambda>w. leased_to me (world_db w)" me
proof (unfold_locales, goal_cases)
  case (20 so w lease limit r w')
  then show ?case using claim_world [of me w "ou_codec ou" lease limit r w'] by (auto dest: world_env_store)
next
  case (21 so w key nxt status a d w')
  then show ?case using done_world [of me w "ou_codec ou" key nxt status a d w'] by (auto dest: world_env_store)
qed (auto simp: world_env_def ask_ok sink_ok pg_ops_def on_pg_keeps pg_keeps_leases pg_Retire_keeps
    pg_Get_keeps pg_Put_keeps pg_Schedule_keeps pg_Extend_keeps split: if_splits dest!: on_pg_mem)

end
