(* ===== verification/Scenarios.thy ===== *)
theory Scenarios imports World
begin

text \<open>
  The worker in the concrete environment of \<open>World\<close>: the properties of a whole tick and of a
  whole run, and concrete inputs on which the properties of \<open>Worker\<close>, \<open>Retrain\<close> and
  \<open>Emit\<close> are applied. The demonstration library keeps a series as its points, a model as the
  value it predicts and a snapshot as its text.
\<close>

section \<open>Concrete inputs\<close>

type_synonym demo_series = "(instant \<times> f64) list"

definition demo_at :: "demo_series \<Rightarrow> int \<Rightarrow> go_err + instant \<times> f64" where
  "demo_at s i = (if 0 \<le> i \<and> i < int (length s) then Inr (s ! nat i) else Inl (Err ''index''))"

definition demo_lib :: "(demo_series, f64, string) lib" where
  "demo_lib =
     \<lparr>lb_Len = (\<lambda>s. int (length s)), lb_Empty = (\<lambda>s. s = []),
      lb_Time = (\<lambda>s i. map_sum id fst (demo_at s i)), lb_At = demo_at,
      lb_Fit = (\<lambda>s. Inr (snd (last s))), lb_SnapshotOf = (\<lambda>f. Inr ''{}''), lb_Restore = (\<lambda>m. Inr (F64_Fin 7)),
      lb_Last = (\<lambda>m. 0), lb_ForecastRange = (\<lambda>f a b. if a \<le> b then Inr [(a, f), (b, f)] else Inl EmptyRange),
      lb_Forecast = (\<lambda>f n. Inr [(0, f)])\<rparr>"

definition demo_outside :: "(demo_series, f64, string) outside" where
  "demo_outside =
     \<lparr>ou_store = True, ou_lib = demo_lib, ou_codec = plain_codec, ou_marshal = (\<lambda>m. Inr ''{}''),
      ou_order = (\<lambda>cs. cs), ou_quote = (\<lambda>s. s), ou_cron = (\<lambda>c. Inr (\<lambda>tz t. t + 24 * hour)),
      ou_location = (\<lambda>tz. None)\<rparr>"

definition demo_now :: instant where
  "demo_now = 1000 * 24 * hour"

definition demo_span :: metricSpan where
  "demo_span = \<lparr>sp_Hash = ''k1'', sp_Min = 900 * 24 * hour, sp_Max = demo_now\<rparr>"

text \<open>Every call succeeds; \<open>demo_outage\<close> is the same feed with Druid and the database failing.\<close>

definition demo_feed :: "nat \<Rightarrow> demo_series call_in" where
  "demo_feed n =
     \<lparr>ci_others = (\<lambda>db. db), ci_pg = calm_in demo_now, ci_spans = Inr [demo_span],
      ci_series = Inr [(demo_now - minute, F64_Fin 5), (demo_now, F64_Fin 5)],
      ci_send = None, ci_lookup = Inr [], ci_clock = demo_now, ci_ctx = None, ci_slot = None\<rparr>"

definition demo_outage :: "nat \<Rightarrow> demo_series call_in" where
  "demo_outage n = (demo_feed n)\<lparr>ci_spans := Inl (Err ''connection refused''),
     ci_pg := (calm_in demo_now)\<lparr>in_fault := StmtFails (Err ''connection refused'')\<rparr>\<rparr>"

definition demo_world :: "pg_db \<Rightarrow> (nat \<Rightarrow> demo_series call_in) \<Rightarrow> demo_series world" where
  "demo_world db feed = \<lparr>wd_pg = openPostgresStore db, wd_topic = [], wd_sent = [], wd_calls = 0, wd_feed = feed\<rparr>"

definition empty_db :: pg_db where
  "empty_db = \<lparr>db_snaps = [], db_workers = [], db_retrain = []\<rparr>"

text \<open>A store whose connection is ready.\<close>

definition ready_world :: "demo_series world" where
  "ready_world = (demo_world sample_db demo_feed)\<lparr>wd_pg := \<lparr>st_conn = \<lparr>cn_ready = True, cn_lastErr = None, cn_lastAttempt = 0\<rparr>,
     st_db = sample_db\<rparr>\<rparr>"

text \<open>A worker that has scanned once and holds the claim on \<open>k1\<close> the sample table leases to it.\<close>

definition demo_claim :: retrainClaim where
  "demo_claim = \<lparr>rc_OrgID = 0, rc_Key = ''k1'', rc_Cron = ''0 3 * * *'', rc_Timezone = ''UTC'', rc_Attempts = 0\<rparr>"

definition demo_fit :: "f64 snapshotFit" where
  "demo_fit = \<lparr>sf_updatedAt = 0, sf_last = 0, sf_fitted = F64_Fin 7\<rparr>"

definition demo_worker :: "f64 publisher" where
  "demo_worker =
     \<lparr>pb_cfg = sample_config, pb_published = Map.empty,
      pb_peers = \<lparr>ps_self = ''a'', ps_mode = ''static'', ps_static = [''a''], ps_dnsName = [], ps_ttl = 0,
                  ps_last = [''a''], ps_warned = False\<rparr>,
      pb_scanAt = demo_now, pb_scanSpans = [demo_span], pb_scanOK = True, pb_freshAt = demo_now,
      pb_fitted = [''k1'' \<mapsto> demo_fit], pb_warned = Map.empty, pb_held = [(''k1'', demo_claim)],
      pb_lastPeers = 0, pb_lastOwned = 0, pb_countsLogged = False, pb_hbWarned = False\<rparr>"

lemmas demo_env_defs = demo_outside_def world_env_def ask_def next_in_def on_pg_def pg_ops_def
lemmas demo_feed_defs = demo_world_def demo_feed_def demo_outage_def calm_in_def
lemmas demo_worker_defs = demo_worker_def demo_claim_def demo_fit_def demo_span_def

section \<open>The first half of a tick\<close>

theorem scan_outage_keeps_spans_witness:
  "fst (scan (world_env demo_outside) demo_worker (demo_now + hour) (demo_world sample_db demo_outage)) = Inr [demo_span]
   \<and> \<not> may_retire demo_worker [demo_span] (demo_now + hour)"
proof -
  have ok: "pb_scanOK demo_worker" "HashScanTTL (pb_cfg demo_worker) \<le> time_sub (demo_now + hour) (pb_scanAt demo_worker)"
    "pb_scanSpans demo_worker = [demo_span]"
    by (simp_all add: demo_worker_def sample_config_def unit_defs time_sub_def min64_def max64_def)
  have "fst (ev_Hashes (world_env demo_outside) t u (demo_world sample_db demo_outage)) = Inl (Err ''connection refused'')" for t u
    by (simp add: demo_env_defs demo_feed_defs Let_def)
  from scan_outage_keeps_spans [OF ok(1) this] ok(2,3) show ?thesis by simp
qed

theorem retire_needs_fresh_scan_witness:
  "retire (world_env demo_outside) demo_worker [] demo_now (demo_world sample_db demo_feed)
     = (0, demo_world sample_db demo_feed)"
  by (rule retire_needs_fresh_scan) simp

section \<open>Training\<close>

text \<open>The claim on \<open>k2\<close> is not this worker's; the one on \<open>k1\<close> is.\<close>

lemma demo_trainable: "trainable demo_worker ''k1'' = None"
  by (simp add: trainable_def demo_worker_defs demo_now_def eligible_def sample_config_def time_sub_def
      unit_defs min64_def max64_def)

theorem lost_claim_is_skipped_witness:
  "fst (trainHash (world_env demo_outside) (pg_ops plain_codec) demo_worker (demo_claim\<lparr>rc_Key := ''k2''\<rparr>)
     demo_now (demo_world sample_db demo_feed)) = (False, False)"
proof -
  let ?c = "demo_claim\<lparr>rc_Key := ''k2''\<rparr>" and ?so = "pg_ops plain_codec"
  let ?x = "so_Extend ?so (self_id demo_worker) (rc_OrgID ?c) (rc_Key ?c) (RetrainLease (pb_cfg demo_worker))
     (demo_world sample_db demo_feed)"
  have "fst ?x = Inr False"
    by (simp add: demo_env_defs demo_feed_defs demo_worker_defs sample_config_def pg_Extend_def with_queue_def
        ensure_def openPostgresStore_def on_error_def sql_extend_def held_row_def sample_defs Let_def)
  then have "?x = (Inr False, snd ?x)" by (metis prod.collapse)
  from lost_claim_is_skipped [OF this, of "world_env demo_outside" demo_now] show ?thesis by simp
qed

text \<open>The store refuses the release during the outage, and the claim stays held.\<close>

theorem release_keeps_refused_witness:
  "fst ` set (pb_held (fst (releaseHeld (world_env demo_outside) demo_worker (demo_world sample_db demo_outage)))) = {''k1''}"
proof -
  have "set (fst (refused (world_env demo_outside) (pg_ops plain_codec) ''a'' [demo_claim]
      (demo_world sample_db demo_outage))) = {''k1''}"
    by (simp add: demo_env_defs demo_feed_defs demo_claim_def pg_Done_def with_queue_def ensure_def
        openPostgresStore_def on_error_def exec_def Let_def)
  moreover have "self_id demo_worker = ''a''" "map snd (pb_held demo_worker) = [demo_claim]"
    "fst ` set (pb_held demo_worker) = {''k1''}" "rc_Key demo_claim = ''k1''"
    by (simp_all add: demo_worker_defs)
  ultimately show ?thesis
    using release_keeps_refused [of "world_env demo_outside" "pg_ops plain_codec" demo_worker "[demo_claim]"
      "demo_world sample_db demo_outage"]
    by (simp add: demo_outside_def world_env_def)
qed

end
