(* ===== verification/RequestLimits.thy ===== *)
theory RequestLimits imports Prelude
begin

text \<open>
  The bounds on Druid requests (\<open>limits.go\<close>) and the sleeping timer (\<open>sleepCtx\<close> of
  \<open>druid.go\<close>). Each is a \<open>select\<close> between an event and the end of the caller's context; where both are
  ready Go picks either, which is an input here.
\<close>

section \<open>The semaphore\<close>

text \<open>A buffered channel: its capacity and how many values it holds.\<close>

record semaphore =
  sem_cap :: nat
  sem_used :: nat

definition newSemaphore :: "int \<Rightarrow> semaphore" where
  "newSemaphore n = \<lparr>sem_cap = nat (if n < 1 then 1 else n), sem_used = 0\<rparr>"

datatype 'a selected = Got 'a | GaveUp go_err | Blocked

text \<open>
  \<open>ctx\<close> is the context's error once it has ended. A nil semaphore grants at once, and its release
  does nothing.
\<close>

definition acquire :: "semaphore option \<Rightarrow> go_err option \<Rightarrow> bool \<Rightarrow> semaphore option selected" where
  "acquire sem ctx pick =
     (case sem of
        None \<Rightarrow> Got None
      | Some s \<Rightarrow>
          (let free = sem_used s < sem_cap s; taken = Got (Some (s\<lparr>sem_used := Suc (sem_used s)\<rparr>))
           in case ctx of
                None \<Rightarrow> if free then taken else Blocked
              | Some e \<Rightarrow> if free \<and> pick then taken else GaveUp e))"

definition release :: "semaphore option \<Rightarrow> semaphore option" where
  "release sem = map_option (\<lambda>s. s\<lparr>sem_used := sem_used s - 1\<rparr>) sem"

text \<open>
  Callers around one semaphore. A caller is inside from a granted \<open>acquire\<close> to its release, which it
  calls once (\<open>defer release()\<close>).
\<close>

datatype caller = Outside | Inside

inductive slot_step :: "semaphore option \<times> (nat \<Rightarrow> caller) \<Rightarrow> semaphore option \<times> (nat \<Rightarrow> caller) \<Rightarrow> bool" where
  enter: "\<lbrakk>procs i = Outside; acquire sem ctx pick = Got sem'\<rbrakk> \<Longrightarrow> slot_step (sem, procs) (sem', procs(i := Inside))"
| give_up: "\<lbrakk>procs i = Outside; acquire sem ctx pick = GaveUp e\<rbrakk> \<Longrightarrow> slot_step (sem, procs) (sem, procs)"
| leave: "procs i = Inside \<Longrightarrow> slot_step (sem, procs) (release sem, procs(i := Outside))"

inductive_cases slot_stepE: "slot_step st st'"

section \<open>The rate limiter\<close>

text \<open>
  A ticker: its period, the time of its next tick, and whether its one-slot channel holds a tick that
  nobody has received. A tick that finds the channel full is dropped.
\<close>

record rateLimiter =
  rl_period :: duration
  rl_next :: instant
  rl_token :: bool

definition newRateLimiter :: "int \<Rightarrow> instant \<Rightarrow> rateLimiter option" where
  "newRateLimiter rps now =
     (if rps \<le> 0 then None
      else let period = go_div second rps;
               period = (if period < 1 then 1 else period)
           in Some \<lparr>rl_period = period, rl_next = now + period, rl_token = False\<rparr>)"

text \<open>The ticks up to time \<open>t\<close>.\<close>

definition tick_to :: "instant \<Rightarrow> rateLimiter \<Rightarrow> rateLimiter" where
  "tick_to t l =
     (if rl_next l \<le> t
      then l\<lparr>rl_token := True, rl_next := rl_next l + rl_period l * ((t - rl_next l) div rl_period l + 1)\<rparr>
      else l)"

text \<open>
  \<open>wait\<close> called at time \<open>t\<close>, with the time and the error the caller's context ends with: its
  error, the time it returns, and the limiter after it. Callers are served one after the other, so one
  that arrived while another was waiting is a call at the time that other one was served.
\<close>

definition wait :: "rateLimiter option \<Rightarrow> (instant \<times> go_err) option \<Rightarrow> bool \<Rightarrow> instant
    \<Rightarrow> go_err option \<times> instant \<times> rateLimiter option" where
  "wait limiter ctx pick t =
     (case limiter of
        None \<Rightarrow> (None, t, None)
      | Some l \<Rightarrow>
          (let l = tick_to t l;
               due = (if rl_token l then t else rl_next l);
               taken = l\<lparr>rl_token := False, rl_next := (if rl_token l then rl_next l else rl_next l + rl_period l)\<rparr>
           in case ctx of
                None \<Rightarrow> (None, due, Some taken)
              | Some (stop, e) \<Rightarrow>
                  if due < stop \<or> (max t stop = due \<and> pick) then (None, due, Some taken)
                  else (Some e, max t stop, Some l)))"

text \<open>\<open>sleepCtx\<close>: the timer of a duration that is not positive fires at once.\<close>

definition sleepCtx :: "duration \<Rightarrow> (instant \<times> go_err) option \<Rightarrow> bool \<Rightarrow> instant \<Rightarrow> go_err option \<times> instant" where
  "sleepCtx d ctx pick t =
     (let due = t + max 0 d in
      case ctx of
        None \<Rightarrow> (None, due)
      | Some (stop, e) \<Rightarrow> if due < stop \<or> (max t stop = due \<and> pick) then (None, due) else (Some e, max t stop))"

text \<open>The times at which a sequence of calls gets its tokens; each call comes some time after the last.\<close>

fun grants :: "rateLimiter option \<Rightarrow> instant \<Rightarrow> (nat \<times> (instant \<times> go_err) option \<times> bool) list \<Rightarrow> instant list" where
  "grants l now [] = []"
| "grants l now ((gap, ctx, pick) # calls) =
     (case wait l ctx pick (now + int gap) of
        (None, due, l) \<Rightarrow> due # grants l due calls
      | (Some e, due, l) \<Rightarrow> grants l due calls)"

section \<open>Lemmas\<close>

definition slot_inv :: "nat \<Rightarrow> semaphore option \<times> (nat \<Rightarrow> caller) \<Rightarrow> bool" where
  "slot_inv n st \<longleftrightarrow> finite {i. snd st i = Inside}
     \<and> (\<exists>s. fst st = Some s \<and> sem_cap s = n \<and> sem_used s = card {i. snd st i = Inside} \<and> sem_used s \<le> n)"

lemma inside_add: "procs i = Outside \<Longrightarrow> {j. (procs(i := Inside)) j = Inside} = insert i {j. procs j = Inside}"
  by auto

lemma inside_remove: "{j. (procs(i := Outside)) j = Inside} = {j. procs j = Inside} - {i}"
  by auto

lemma acquire_Got:
  "acquire (Some s) ctx pick = Got sem' \<Longrightarrow> sem_used s < sem_cap s \<and> sem' = Some (s\<lparr>sem_used := Suc (sem_used s)\<rparr>)"
  by (auto simp: acquire_def Let_def split: option.splits if_splits)

lemma slot_step_inv: "slot_step st st' \<Longrightarrow> slot_inv n st \<Longrightarrow> slot_inv n st'"
proof (induction rule: slot_step.induct)
  case (enter procs i sem ctx pick sem')
  then obtain s where s: "sem = Some s" "sem_cap s = n" "sem_used s = card {i. procs i = Inside}"
    and fin: "finite {i. procs i = Inside}" by (auto simp: slot_inv_def)
  from enter acquire_Got [of s ctx pick sem'] s fin show ?case
    by (simp add: slot_inv_def inside_add [of procs i] del: fun_upd_apply)
next
  case (leave procs i sem)
  then show ?case by (auto simp: slot_inv_def release_def inside_remove card_Diff_singleton simp del: fun_upd_apply)
qed

lemma slot_run_inv: "slot_step\<^sup>*\<^sup>* st st' \<Longrightarrow> slot_inv n st \<Longrightarrow> slot_inv n st'"
  by (induction rule: rtranclp_induct) (auto intro: slot_step_inv)

text \<open>The time of the oldest tick the next token can come from.\<close>

definition earliest :: "rateLimiter \<Rightarrow> instant" where
  "earliest l = (if rl_token l then rl_next l - rl_period l else rl_next l)"

definition limiter_ok :: "rateLimiter \<Rightarrow> instant \<Rightarrow> bool" where
  "limiter_ok l now \<longleftrightarrow> 0 < rl_period l \<and> (rl_token l \<longrightarrow> rl_next l - rl_period l \<le> now)"

lemma tick_to_ok:
  assumes "limiter_ok l now" "now \<le> t"
  shows "limiter_ok (tick_to t l) t" "earliest l \<le> earliest (tick_to t l)" "t < rl_next (tick_to t l)"
    "rl_period (tick_to t l) = rl_period l"
proof -
  let ?p = "rl_period l" and ?q = "(t - rl_next l) div rl_period l"
  have p: "0 < ?p" using assms(1) by (simp add: limiter_ok_def)
  have "?p * ?q + (t - rl_next l) mod ?p = t - rl_next l" by (simp add: mult_div_mod_eq)
  moreover have "0 \<le> (t - rl_next l) mod ?p" "(t - rl_next l) mod ?p < ?p" using p by simp_all
  ultimately have q: "?p * ?q \<le> t - rl_next l" "t - rl_next l < ?p * ?q + ?p" by linarith+
  have "rl_next l \<le> t \<Longrightarrow> 0 \<le> ?p * ?q" using p by (simp add: pos_imp_zdiv_nonneg_iff)
  with assms p q show "limiter_ok (tick_to t l) t" "earliest l \<le> earliest (tick_to t l)"
    "t < rl_next (tick_to t l)" "rl_period (tick_to t l) = rl_period l"
    by (auto simp: tick_to_def limiter_ok_def earliest_def algebra_simps)
qed

text \<open>A served call takes a token that is a period younger than the one before.\<close>

definition served :: "rateLimiter \<Rightarrow> go_err option \<Rightarrow> instant \<Rightarrow> rateLimiter \<Rightarrow> bool" where
  "served l err due l1 \<longleftrightarrow>
     (if err = None then earliest l \<le> due \<and> due < earliest l1 \<and> earliest l + rl_period l \<le> earliest l1
      else earliest l \<le> earliest l1)"

lemma wait_ok:
  assumes "limiter_ok l now" "now \<le> t" "wait (Some l) ctx pick t = (err, due, l')"
  obtains l1 where "l' = Some l1" "limiter_ok l1 due" "t \<le> due" "rl_period l1 = rl_period l"
    "served l err due l1"
proof -
  note tick = tick_to_ok [OF assms(1,2)]
  let ?l = "tick_to t l"
  have p: "0 < rl_period l" using assms(1) by (simp add: limiter_ok_def)
  from assms(3) tick p that show ?thesis
    by (auto simp: wait_def Let_def limiter_ok_def earliest_def served_def split: option.splits if_splits prod.splits)
qed

lemma grants_step:
  assumes "limiter_ok l now"
  obtains err due l1 where "wait (Some l) ctx pick (now + int gap) = (err, due, Some l1)" "limiter_ok l1 due"
    "rl_period l1 = rl_period l" "served l err due l1"
proof -
  obtain err due l' where w: "wait (Some l) ctx pick (now + int gap) = (err, due, l')"
    by (cases "wait (Some l) ctx pick (now + int gap)")
  have "now \<le> now + int gap" by simp
  from wait_ok [OF assms this w] w that show ?thesis by metis
qed

lemma grant_after:
  "limiter_ok l now \<Longrightarrow> k < length (grants (Some l) now calls)
    \<Longrightarrow> earliest l + int k * rl_period l \<le> grants (Some l) now calls ! k"
proof (induction calls arbitrary: l now k)
  case (Cons c calls)
  obtain gap ctx pick where c: "c = (gap, ctx, pick)" by (cases c)
  obtain err due l1 where w: "wait (Some l) ctx pick (now + int gap) = (err, due, Some l1)"
    and ok: "limiter_ok l1 due" "rl_period l1 = rl_period l" and s: "served l err due l1"
    using grants_step [OF Cons.prems(1)] .
  show ?case
  proof (cases err)
    case None
    with s have g: "earliest l \<le> due" "earliest l + rl_period l \<le> earliest l1" by (auto simp: served_def)
    show ?thesis
    proof (cases k)
      case (Suc j)
      with Cons.prems(2) c w None have "earliest l1 + int j * rl_period l1 \<le> grants (Some l1) due calls ! j"
        by (intro Cons.IH ok) simp
      with Suc c w None g ok show ?thesis by (simp add: algebra_simps)
    qed (use c w None g in simp)
  next
    case (Some e)
    with Cons.prems(2) c w have "earliest l1 + int k * rl_period l1 \<le> grants (Some l1) due calls ! k"
      by (intro Cons.IH ok) simp
    with Some s c w ok show ?thesis by (simp add: served_def)
  qed
qed simp

lemma grants_spaced:
  "limiter_ok l now \<Longrightarrow> i + Suc n < length (grants (Some l) now calls)
    \<Longrightarrow> int n * rl_period l \<le> grants (Some l) now calls ! (i + Suc n) - grants (Some l) now calls ! i"
proof (induction calls arbitrary: l now i)
  case (Cons c calls)
  obtain gap ctx pick where c: "c = (gap, ctx, pick)" by (cases c)
  obtain err due l1 where w: "wait (Some l) ctx pick (now + int gap) = (err, due, Some l1)"
    and ok: "limiter_ok l1 due" "rl_period l1 = rl_period l" and s: "served l err due l1"
    using grants_step [OF Cons.prems(1)] .
  show ?case
  proof (cases err)
    case None
    show ?thesis
    proof (cases i)
      case 0
      with Cons.prems(2) c w None have "n < length (grants (Some l1) due calls)" by simp
      from grant_after [OF ok(1) this] s 0 c w None ok show ?thesis by (simp add: served_def)
    next
      case (Suc j)
      with Cons.IH [OF ok(1), of j] Cons.prems(2) c w None ok show ?thesis by simp
    qed
  next
    case (Some e)
    with Cons.IH [OF ok(1), of i] Cons.prems(2) c w ok show ?thesis by simp
  qed
qed simp

lemma newRateLimiter_ok:
  assumes "newRateLimiter rps now = Some l"
  shows "limiter_ok l now" "rl_period l = max 1 (second div rps)"
  using assms by (auto simp: newRateLimiter_def limiter_ok_def Let_def go_div_nonneg second_def split: if_splits)

section \<open>Properties\<close>

text \<open>
  C13: The number of requests in flight stays within the limit, whatever the order in which callers ask
  for a slot, give up and return it; and a caller whose context has not ended only waits while every slot
  is taken.
\<close>

theorem requests_bounded:
  assumes "slot_step\<^sup>*\<^sup>* (Some (newSemaphore n), \<lambda>i. Outside) (sem, procs)"
  shows "finite {i. procs i = Inside} \<and> card {i. procs i = Inside} \<le> nat (max 1 n)
    \<and> (acquire sem None pick = Blocked \<longleftrightarrow> card {i. procs i = Inside} = nat (max 1 n))"
proof -
  have "slot_inv (nat (max 1 n)) (Some (newSemaphore n), \<lambda>i. Outside)"
    by (simp add: slot_inv_def newSemaphore_def max_def)
  from slot_run_inv [OF assms this] show ?thesis
    by (auto simp: slot_inv_def acquire_def Let_def split: if_splits)
qed

theorem requests_bounded_witness:
  "\<exists>sem (procs :: nat \<Rightarrow> caller). procs 7 = Inside \<and> procs 8 = Outside \<and> acquire sem None True = Blocked
     \<and> card {i. procs i = Inside} \<le> 1"
proof -
  have "slot_step (Some (newSemaphore 1), \<lambda>i. Outside) (Some \<lparr>sem_cap = 1, sem_used = 1\<rparr>, (\<lambda>i. Outside)(7 := Inside))"
    by (rule enter [where ctx = None and pick = True]) (simp_all add: acquire_def newSemaphore_def)
  then have "slot_step\<^sup>*\<^sup>* (Some (newSemaphore 1), \<lambda>i. Outside)
      (Some \<lparr>sem_cap = 1, sem_used = 1\<rparr>, (\<lambda>i. Outside)(7 := Inside))" by (rule r_into_rtranclp)
  from requests_bounded [OF this, of True] show ?thesis
    by (intro exI [of _ "Some \<lparr>sem_cap = 1, sem_used = 1\<rparr>"] exI [of _ "(\<lambda>i. Outside)(7 := Inside)"])
      (simp add: acquire_def)
qed

text \<open>
  Tokens are not banked: over any sequence of calls, with callers that give up among them, \<open>n + 2\<close>
  consecutive tokens take at least \<open>n\<close> periods of the limiter, the period being a second divided by
  the configured rate and never less than a nanosecond.
\<close>

theorem tokens_are_spaced:
  assumes "newRateLimiter rps start = Some l" "i + Suc n < length (grants (Some l) start calls)"
  shows "int n * max 1 (second div rps)
    \<le> grants (Some l) start calls ! (i + Suc n) - grants (Some l) start calls ! i"
  using grants_spaced [OF newRateLimiter_ok(1) [OF assms(1)] assms(2)] newRateLimiter_ok(2) [OF assms(1)] by simp

text \<open>Four requests a second: after a quiet half second two tokens come at once, and no third.\<close>

theorem tokens_are_spaced_witness:
  "let l = \<lparr>rl_period = 250 * millisecond, rl_next = 250 * millisecond, rl_token = False\<rparr>;
       calls = [(700000000, None, True), (50000000, None, True), (0, None, True)]
   in grants (Some l) 0 calls = [700 * millisecond, 750 * millisecond, 1000 * millisecond]
      \<and> 250 * millisecond \<le> grants (Some l) 0 calls ! 2 - grants (Some l) 0 calls ! 0"
proof -
  let ?l = "\<lparr>rl_period = 250 * millisecond, rl_next = 250 * millisecond, rl_token = False\<rparr>"
  let ?calls = "[(700000000, None, True), (50000000, None, True), (0, None, True)]
    :: (nat \<times> (instant \<times> go_err) option \<times> bool) list"
  have new: "newRateLimiter 4 0 = Some ?l"
    by (simp add: newRateLimiter_def Let_def go_div_def second_def millisecond_def)
  have run: "grants (Some ?l) 0 ?calls = [700 * millisecond, 750 * millisecond, 1000 * millisecond]"
    by (simp add: wait_def tick_to_def millisecond_def)
  with tokens_are_spaced [OF new, of 0 1 ?calls] show ?thesis
    by (simp add: second_def millisecond_def)
qed

end
