(* ===== verification/TrainPool.thy ===== *)
theory TrainPool imports World RequestLimits
begin

text \<open>
  The training pool of \<open>retrain\<close> (\<open>publisher.go\<close>) with its goroutines interleaved. A goroutine advances
  by one call of the store or the reader, or one access to what the mutexes guard, at a time; the loop that
  starts them takes a slot of the training semaphore for each and stops when the context ends. \<open>Retrain\<close>
  runs the goroutines one after the other, which is one run of this relation.
\<close>

section \<open>One goroutine\<close>

text \<open>Where \<open>trainHash\<close> of one claim is: what it does next. The pair is its answer, trained and failed.\<close>

datatype 'm stage =
    ToExtend | ToLoad | ToPut 'm | ToFinish instant string int "bool \<times> bool" | ToUnhold "bool \<times> bool"
  | ToCount "bool \<times> bool" | ToRelease | Ended

record ('f, 'w) shared =
  sh_pub :: "'f publisher"
  sh_counts :: retrainCounts
  sh_sem :: "semaphore option"
  sh_world :: 'w

text \<open>The part of \<open>fitHash\<close> between the reader and the store.\<close>

definition fit_model :: "('s, 'f, 'm) lib \<Rightarrow> duration \<Rightarrow> 's \<Rightarrow> go_err + 'm" where
  "fit_model lib lookback s =
     (if lb_Empty lib s then Inl (Err (''no data in the last '' @ duration_text lookback))
      else if lastStep lib s \<noteq> minute
      then Inl (Err (''step between the last two points is '' @ duration_text (lastStep lib s) @ '', want 1m''))
      else case lb_Fit lib s of
             Inl e \<Rightarrow> Inl e
           | Inr fitted \<Rightarrow> lb_SnapshotOf lib fitted)"

definition finish_stage :: "Config \<Rightarrow> retrainClaim \<Rightarrow> instant \<Rightarrow> go_err + instant \<Rightarrow> 'm stage" where
  "finish_stage cfg c now outcome =
     (case outcome of
        Inr nxt \<Rightarrow> ToFinish nxt ''ok'' 0 (True, False)
      | Inl err \<Rightarrow>
          (let attempts = i64 (rc_Attempts c + 1)
           in ToFinish (retry_at cfg now attempts) (retryStatus err attempts) attempts (False, True)))"

fun advance :: "('w, 's, 'f, 'm) env \<Rightarrow> ('w, 'm) store_ops \<Rightarrow> instant \<Rightarrow> retrainClaim \<Rightarrow> 'm stage \<Rightarrow> ('f, 'w) shared
    \<Rightarrow> 'm stage \<times> ('f, 'w) shared" where
  "advance ev so now c ToExtend sh =
     (let p = sh_pub sh;
          (ext, w) = so_Extend so (self_id p) (rc_OrgID c) (rc_Key c) (RetrainLease (pb_cfg p)) (sh_world sh)
      in (if ext = Inr False then ToCount (False, False) else ToLoad, sh\<lparr>sh_world := w\<rparr>))"
| "advance ev so now c ToLoad sh =
     (let cfg = pb_cfg (sh_pub sh) in
      case trainable (sh_pub sh) (rc_Key c) of
        Some e \<Rightarrow> (finish_stage cfg c now (Inl e), sh)
      | None \<Rightarrow>
          (let (r, w) = ev_Series ev (rc_Key c) (time_add now (i64 (- Lookback cfg))) now (sh_world sh)
           in (case r of
                 Inl e \<Rightarrow> finish_stage cfg c now (Inl e)
               | Inr s \<Rightarrow>
                   (case fit_model (ev_lib ev) (Lookback cfg) s of
                      Inl e \<Rightarrow> finish_stage cfg c now (Inl e)
                    | Inr snap \<Rightarrow> ToPut snap), sh\<lparr>sh_world := w\<rparr>)))"
| "advance ev so now c (ToPut snap) sh =
     (let cfg = pb_cfg (sh_pub sh);
          (r, w) = so_Put so (rc_Key c) (fit_record cfg now) snap (sh_world sh)
      in (finish_stage cfg c now
            (case r of
               Inl e \<Rightarrow> Inl e
             | Inr u \<Rightarrow> nextRun (ev_quote ev) (ev_cron ev) (ev_location ev) (rc_Cron c) (rc_Timezone c) now),
          sh\<lparr>sh_world := w\<rparr>))"
| "advance ev so now c (ToFinish nxt status attempts r) sh =
     (let (d, w) = so_Done so (self_id (sh_pub sh)) (rc_OrgID c) (rc_Key c) nxt status attempts (sh_world sh)
      in (case d of Inl e \<Rightarrow> ToCount r | Inr u \<Rightarrow> ToUnhold r, sh\<lparr>sh_world := w\<rparr>))"
| "advance ev so now c (ToUnhold r) sh = (ToCount r, sh\<lparr>sh_pub := unhold (rc_Key c) (sh_pub sh)\<rparr>)"
| "advance ev so now c (ToCount r) sh = (ToRelease, sh\<lparr>sh_counts := count_train r (sh_counts sh)\<rparr>)"
| "advance ev so now c ToRelease sh = (Ended, sh\<lparr>sh_sem := release (sh_sem sh)\<rparr>)"
| "advance ev so now c Ended sh = (Ended, sh)"

section \<open>The pool\<close>

text \<open>
  What is shared, the claims that are not started yet, and the goroutines. The source keeps one \<open>trainSem\<close>
  per publisher; \<open>retrain\<close> waits for all its goroutines, each of which has released its slot by then, and
  nothing else acquires it, so every \<open>retrain\<close> begins with all the slots free, as a new semaphore does.
\<close>

type_synonym ('f, 'w, 'm) pool = "('f, 'w) shared \<times> retrainClaim list \<times> (retrainClaim \<times> 'm stage) list"

definition pool_start :: "'f publisher \<Rightarrow> retrainClaim list \<Rightarrow> 'w \<Rightarrow> ('f, 'w, 'm) pool" where
  "pool_start p claims w =
     (\<lparr>sh_pub = fold hold claims p, sh_counts = no_counts\<lparr>ct_claimed := int (length claims)\<rparr>,
       sh_sem = Some (newSemaphore (TrainConcurrency (pb_cfg p))), sh_world = w\<rparr>, claims, [])"

text \<open>
  \<open>ev_acquire\<close> is the context as \<open>acquire\<close> sees it. With no slot free and the context alive the loop waits,
  which is no step.
\<close>

inductive pool_step :: "('w, 's, 'f, 'm) env \<Rightarrow> ('w, 'm) store_ops \<Rightarrow> instant \<Rightarrow> ('f, 'w, 'm) pool \<Rightarrow> ('f, 'w, 'm) pool \<Rightarrow> bool"
  for ev :: "('w, 's, 'f, 'm) env" and so :: "('w, 'm) store_ops" and now :: instant where
  start: "\<lbrakk>ev_acquire ev (sh_world sh) = (ctx, w); acquire (sh_sem sh) ctx pick = Got sem\<rbrakk> \<Longrightarrow>
     pool_step ev so now (sh, c # left, gs) (sh\<lparr>sh_sem := sem, sh_world := w\<rparr>, left, gs @ [(c, ToExtend)])"
| stop: "\<lbrakk>ev_acquire ev (sh_world sh) = (ctx, w); acquire (sh_sem sh) ctx pick = GaveUp e\<rbrakk> \<Longrightarrow>
     pool_step ev so now (sh, c # left, gs) (sh\<lparr>sh_world := w\<rparr>, [], gs)"
| work: "\<lbrakk>i < length gs; gs ! i = (c, st); st \<noteq> Ended; advance ev so now c st sh = (st', sh')\<rbrakk> \<Longrightarrow>
     pool_step ev so now (sh, left, gs) (sh', left, gs[i := (c, st')])"

inductive_cases pool_stepE: "pool_step ev so now st st'"

text \<open>\<open>wg.Wait\<close> returns.\<close>

definition active :: "(retrainClaim \<times> 'm stage) list \<Rightarrow> nat" where
  "active gs = length (filter (\<lambda>(c, st). st \<noteq> Ended) gs)"

definition pool_done :: "('f, 'w, 'm) pool \<Rightarrow> bool" where
  "pool_done st = (fst (snd st) = [] \<and> active (snd (snd st)) = 0)"

section \<open>Lemmas: slots, progress and termination\<close>

text \<open>How many steps a goroutine has left at most.\<close>

fun rank :: "'m stage \<Rightarrow> nat" where
  "rank ToExtend = 7"
| "rank ToLoad = 6"
| "rank (ToPut m) = 5"
| "rank (ToFinish t s a r) = 4"
| "rank (ToUnhold r) = 3"
| "rank (ToCount r) = 2"
| "rank ToRelease = 1"
| "rank Ended = 0"

fun steps_left :: "('f, 'w, 'm) pool \<Rightarrow> nat" where
  "steps_left (sh, left, gs) = 8 * length left + sum_list (map (rank \<circ> snd) gs)"

lemma rank_finish [simp]: "rank (finish_stage cfg c now out) = 4"
  by (simp add: finish_stage_def Let_def split: sum.split)

lemma rank_advance: "advance ev so now c st sh = (st', sh') \<Longrightarrow> st \<noteq> Ended \<Longrightarrow> rank st' < rank st"
  by (cases st) (auto simp: Let_def case_prod_beta split: option.splits sum.splits if_splits)

lemma sum_list_update: "i < length xs \<Longrightarrow> xs ! i + sum_list (xs[i := (n :: nat)]) = n + sum_list xs"
  by (induction xs arbitrary: i) (auto split: nat.split)

lemma step_decreases: "pool_step ev so now st st' \<Longrightarrow> steps_left st' < steps_left st"
proof (induction rule: pool_step.induct)
  case (work i gs c st sh st' sh' left)
  from sum_list_update [of i "map (rank \<circ> snd) gs" "rank st'"] rank_advance [OF work(4,3)] work(1,2)
  show ?case by (simp add: map_update)
qed simp_all

lemma run_length: "(pool_step ev so now ^^ n) st st' \<Longrightarrow> n + steps_left st' \<le> steps_left st"
proof (induction n arbitrary: st')
  case (Suc n)
  then obtain u where "(pool_step ev so now ^^ n) st u" "pool_step ev so now u st'" by auto
  with Suc.IH [of u] step_decreases [of ev so now u st'] show ?case by simp
qed simp

text \<open>The semaphore counts the goroutines that have not ended.\<close>

definition slots_ok :: "nat \<Rightarrow> ('f, 'w, 'm) pool \<Rightarrow> bool" where
  "slots_ok n st \<longleftrightarrow> (\<exists>s. sh_sem (fst st) = Some s \<and> sem_cap s = n \<and> sem_used s = active (snd (snd st)) \<and> active (snd (snd st)) \<le> n)"

lemma active_update:
  "i < length gs \<Longrightarrow> gs ! i = (c, st) \<Longrightarrow> st \<noteq> Ended \<Longrightarrow> active (gs[i := (c, st')]) = (if st' = Ended then active gs - 1 else active gs)"
proof (induction gs arbitrary: i)
  case (Cons g gs)
  show ?case
  proof (cases i)
    case 0
    with Cons.prems show ?thesis by (simp add: active_def)
  next
    case (Suc j)
    with Cons have IH: "active (gs[j := (c, st')]) = (if st' = Ended then active gs - 1 else active gs)" by simp
    have "0 < active gs" using Suc Cons.prems nth_mem [of j gs]
      by (force simp: active_def filter_empty_conv)
    with IH Suc show ?thesis by (auto simp: active_def case_prod_beta)
  qed
qed simp

lemma advance_sem:
  "advance ev so now c st sh = (st', sh') \<Longrightarrow> st \<noteq> Ended \<Longrightarrow>
     (st' = Ended) = (st = ToRelease) \<and> sh_sem sh' = (if st = ToRelease then release (sh_sem sh) else sh_sem sh)"
  by (cases st) (auto simp: Let_def case_prod_beta finish_stage_def split: option.splits sum.splits if_splits)

lemma active_snoc [simp]: "active (gs @ [(c, ToExtend)]) = Suc (active gs)"
  by (simp add: active_def)

lemma step_slots: "pool_step ev so now st st' \<Longrightarrow> slots_ok n st \<Longrightarrow> slots_ok n st'"
proof (induction rule: pool_step.induct)
  case (start sh ctx w pick sem c left gs)
  then show ?case by (auto simp: slots_ok_def dest!: acquire_Got)
next
  case (work i gs c st sh st' sh' left)
  from active_update [OF work(1,2,3), of st'] advance_sem [OF work(4,3)] work(5)
  show ?case by (auto simp: slots_ok_def release_def)
qed (auto simp: slots_ok_def)

lemma run_slots: "(pool_step ev so now)\<^sup>*\<^sup>* st st' \<Longrightarrow> slots_ok n st \<Longrightarrow> slots_ok n st'"
  by (induction rule: rtranclp_induct) (auto intro: step_slots)

lemma start_slots: "slots_ok (nat (max 1 (TrainConcurrency (pb_cfg p)))) (pool_start p claims w)"
  by (simp add: slots_ok_def pool_start_def newSemaphore_def active_def max_def)

text \<open>A pool that is not done can move: the loop only waits while a goroutine runs.\<close>

lemma pool_moves:
  assumes "slots_ok n st" "0 < n" "\<not> pool_done st"
  shows "\<exists>st'. pool_step ev so now st st'"
proof -
  obtain sh left gs where st: "st = (sh, left, gs)" by (cases st)
  show ?thesis
  proof (cases "active gs = 0")
    case True
    with assms st obtain c rest s where left: "left = c # rest" and s: "sh_sem sh = Some s" "sem_used s < sem_cap s"
      by (cases left) (auto simp: pool_done_def slots_ok_def)
    obtain ctx w where acq: "ev_acquire ev (sh_world sh) = (ctx, w)" by fastforce
    have "acquire (sh_sem sh) ctx True = Got (Some (s\<lparr>sem_used := Suc (sem_used s)\<rparr>))"
      using s by (simp add: acquire_def Let_def split: option.split)
    with acq st left show ?thesis by (blast intro: pool_step.start)
  next
    case False
    then obtain i c g where "i < length gs" "gs ! i = (c, g)" "g \<noteq> Ended"
      by (auto simp: active_def filter_empty_conv in_set_conv_nth)
    moreover obtain g' sh' where "advance ev so now c g sh = (g', sh')" by fastforce
    ultimately show ?thesis using st by (blast intro: pool_step.work)
  qed
qed

section \<open>Lemmas: one goroutine after the other\<close>

lemma work_last:
  assumes "st \<noteq> Ended" "advance ev so now c st sh = (st', sh')"
    and "(pool_step ev so now)\<^sup>*\<^sup>* (sh', left, gs @ [(c, st')]) q"
  shows "(pool_step ev so now)\<^sup>*\<^sup>* (sh, left, gs @ [(c, st)]) q"
proof -
  have "pool_step ev so now (sh, left, gs @ [(c, st)]) (sh', left, (gs @ [(c, st)])[length gs := (c, st')])"
    by (rule pool_step.work) (use assms in simp_all)
  with assms(3) show ?thesis by (simp add: converse_rtranclp_into_rtranclp)
qed

text \<open>The shared state after a claim was worked on.\<close>

definition worked :: "bool \<times> bool \<Rightarrow> 'f publisher \<Rightarrow> 'w \<Rightarrow> ('f, 'w) shared \<Rightarrow> ('f, 'w) shared" where
  "worked r p w sh =
     sh\<lparr>sh_pub := p, sh_counts := count_train r (sh_counts sh), sh_sem := release (sh_sem sh), sh_world := w\<rparr>"

lemma worked_again [simp]:
  "worked r p w (sh\<lparr>sh_world := v\<rparr>) = worked r p w sh" "worked r p w (sh\<lparr>sh_pub := q\<rparr>) = worked r p w sh"
  by (simp_all add: worked_def)

lemma count_run:
  "(pool_step ev so now)\<^sup>*\<^sup>* (sh, left, gs @ [(c, ToCount r)]) (worked r (sh_pub sh) (sh_world sh) sh, left, gs @ [(c, Ended)])"
  by (rule work_last, simp, simp, rule work_last, simp, simp) (simp add: worked_def)

lemma finish_run:
  assumes "finish so (sh_pub sh) c nxt status a (sh_world sh) = (p, w)"
  shows "(pool_step ev so now)\<^sup>*\<^sup>* (sh, left, gs @ [(c, ToFinish nxt status a r)]) (worked r p w sh, left, gs @ [(c, Ended)])"
proof -
  obtain d v where d: "so_Done so (self_id (sh_pub sh)) (rc_OrgID c) (rc_Key c) nxt status a (sh_world sh) = (d, v)"
    by fastforce
  let ?sh = "sh\<lparr>sh_world := v\<rparr>"
  show ?thesis
  proof (cases d)
    case (Inl e)
    with d assms have pw: "p = sh_pub sh" "w = v" by (simp_all add: finish_def)
    have adv: "advance ev so now c (ToFinish nxt status a r) sh = (ToCount r, ?sh)" using d Inl by simp
    show ?thesis
      by (rule work_last [OF _ adv]) (use count_run [of ev so now ?sh left gs c r] pw in simp_all)
  next
    case (Inr u)
    let ?sh' = "?sh\<lparr>sh_pub := unhold (rc_Key c) (sh_pub sh)\<rparr>"
    from Inr d assms have pw: "p = unhold (rc_Key c) (sh_pub sh)" "w = v" by (simp_all add: finish_def)
    have adv: "advance ev so now c (ToFinish nxt status a r) sh = (ToUnhold r, ?sh)" using d Inr by simp
    have adv': "advance ev so now c (ToUnhold r) ?sh = (ToCount r, ?sh')" by simp
    have "(pool_step ev so now)\<^sup>*\<^sup>* (?sh, left, gs @ [(c, ToUnhold r)]) (worked r p w sh, left, gs @ [(c, Ended)])"
      by (rule work_last [OF _ adv']) (use count_run [of ev so now ?sh' left gs c r] pw in simp_all)
    then show ?thesis by (intro work_last [OF _ adv]) simp
  qed
qed

text \<open>What \<open>trainHash\<close> does with the outcome of its work.\<close>

definition train_end :: "('w, 'm) store_ops \<Rightarrow> 'f publisher \<Rightarrow> retrainClaim \<Rightarrow> instant \<Rightarrow> go_err + instant \<Rightarrow> 'w
    \<Rightarrow> (bool \<times> bool) \<times> 'f publisher \<times> 'w" where
  "train_end so p c now out w =
     (case finish_stage (pb_cfg p) c now out :: unit stage of
        ToFinish nxt status a r \<Rightarrow> (r, finish so p c nxt status a w)
      | _ \<Rightarrow> undefined)"

lemma train_end_simps:
  "train_end so p c now (Inr nxt) w = ((True, False), finish so p c nxt ''ok'' 0 w)"
  "train_end so p c now (Inl err) w = ((False, True), finish so p c (retry_at (pb_cfg p) now (i64 (rc_Attempts c + 1)))
     (retryStatus err (i64 (rc_Attempts c + 1))) (i64 (rc_Attempts c + 1)) w)"
  by (simp_all add: train_end_def finish_stage_def Let_def)

lemma trainHash_parts:
  assumes "so_Extend so (self_id p) (rc_OrgID c) (rc_Key c) (RetrainLease (pb_cfg p)) w = (x, v)"
  shows "trainHash ev so p c now w =
    (if x = Inr False then ((False, False), p, v)
     else case train_work ev so p c now v of (out, u) \<Rightarrow> train_end so p c now out u)"
  using assms by (auto simp: trainHash_def Let_def train_end_simps case_prod_beta split: sum.split)

lemma end_run:
  assumes "train_end so (sh_pub sh) c now out (sh_world sh) = (r, p, w)"
  shows "(pool_step ev so now)\<^sup>*\<^sup>* (sh, left, gs @ [(c, finish_stage (pb_cfg (sh_pub sh)) c now out)])
    (worked r p w sh, left, gs @ [(c, Ended)])"
proof (cases out)
  case (Inl e)
  with assms show ?thesis by (auto simp: train_end_simps finish_stage_def Let_def intro: finish_run)
next
  case (Inr t)
  with assms show ?thesis by (auto simp: train_end_simps finish_stage_def intro: finish_run)
qed

lemma fitHash_parts:
  "fitHash ev so p key now w =
    (case ev_Series ev key (time_add now (i64 (- Lookback (pb_cfg p)))) now w of
       (Inl e, w) \<Rightarrow> (Some e, w)
     | (Inr s, w) \<Rightarrow>
         (case fit_model (ev_lib ev) (Lookback (pb_cfg p)) s of
            Inl e \<Rightarrow> (Some e, w)
          | Inr snap \<Rightarrow>
              (case so_Put so key (fit_record (pb_cfg p) now) snap w of (Inl e, w) \<Rightarrow> (Some e, w) | (Inr u, w) \<Rightarrow> (None, w))))"
  by (auto simp: fitHash_def fit_model_def Let_def split: sum.split prod.split)

lemma load_run:
  assumes "train_work ev so (sh_pub sh) c now (sh_world sh) = (out, u)"
    and "train_end so (sh_pub sh) c now out u = (r, p, w)"
  shows "(pool_step ev so now)\<^sup>*\<^sup>* (sh, left, gs @ [(c, ToLoad)]) (worked r p w sh, left, gs @ [(c, Ended)])"
proof (cases "trainable (sh_pub sh) (rc_Key c)")
  case (Some e)
  with assms(1) have "out = Inl e" "u = sh_world sh" by (simp_all add: train_work_def)
  with Some assms(2) show ?thesis by (intro work_last [OF _ _ end_run]) simp_all
next
  case None
  let ?p = "sh_pub sh" and ?key = "rc_Key c"
  let ?cfg = "pb_cfg ?p"
  obtain y v where y: "ev_Series ev ?key (time_add now (i64 (- Lookback ?cfg))) now (sh_world sh) = (y, v)"
    by fastforce
  let ?sh = "sh\<lparr>sh_world := v\<rparr>"
  show ?thesis
  proof (cases "\<exists>s snap. y = Inr s \<and> fit_model (ev_lib ev) (Lookback ?cfg) s = Inr snap")
    case False
    then obtain e where e: "advance ev so now c ToLoad sh = (finish_stage ?cfg c now (Inl e), ?sh)"
      "out = Inl e" "u = v"
      using None y assms(1) by (auto simp: train_work_def fitHash_parts Let_def split: sum.splits)
    with assms(2) end_run [of so ?sh c now out r p w ev left gs] show ?thesis
      by (intro work_last [OF _ e(1)]) simp_all
  next
    case True
    then obtain s snap where s: "y = Inr s" "fit_model (ev_lib ev) (Lookback ?cfg) s = Inr snap" by blast
    obtain z t where z: "so_Put so ?key (fit_record ?cfg now) snap v = (z, t)" by fastforce
    let ?sh' = "sh\<lparr>sh_world := t\<rparr>"
    have load: "advance ev so now c ToLoad sh = (ToPut snap, ?sh)" using None y s by simp
    have out: "out = (case z of Inl e \<Rightarrow> Inl e
        | Inr x \<Rightarrow> nextRun (ev_quote ev) (ev_cron ev) (ev_location ev) (rc_Cron c) (rc_Timezone c) now)" "u = t"
      using None y s z assms(1) by (auto simp: train_work_def fitHash_parts split: sum.splits)
    have put: "advance ev so now c (ToPut snap) ?sh = (finish_stage ?cfg c now out, ?sh')"
      using z out by simp
    have "(pool_step ev so now)\<^sup>*\<^sup>* (?sh, left, gs @ [(c, ToPut snap)]) (worked r p w sh, left, gs @ [(c, Ended)])"
      by (rule work_last [OF _ put]) (use end_run [of so ?sh' c now out r p w ev left gs] assms(2) out(2) in simp_all)
    then show ?thesis by (intro work_last [OF _ load]) simp
  qed
qed

lemma goroutine_run:
  assumes "trainHash ev so (sh_pub sh) c now (sh_world sh) = (r, p, w)"
  shows "(pool_step ev so now)\<^sup>*\<^sup>* (sh, left, gs @ [(c, ToExtend)]) (worked r p w sh, left, gs @ [(c, Ended)])"
proof -
  let ?p = "sh_pub sh"
  obtain x v where x: "so_Extend so (self_id ?p) (rc_OrgID c) (rc_Key c) (RetrainLease (pb_cfg ?p)) (sh_world sh) = (x, v)"
    by fastforce
  let ?sh = "sh\<lparr>sh_world := v\<rparr>"
  note parts = trainHash_parts [OF x, of ev now]
  show ?thesis
  proof (cases "x = Inr False")
    case True
    with parts assms have r: "r = (False, False)" "p = ?p" "w = v" by simp_all
    have adv: "advance ev so now c ToExtend sh = (ToCount r, ?sh)" using x True r by simp
    show ?thesis
      by (rule work_last [OF _ adv]) (use count_run [of ev so now ?sh left gs c r] r in simp_all)
  next
    case False
    have adv: "advance ev so now c ToExtend sh = (ToLoad, ?sh)" using x False by simp
    obtain out u where tw: "train_work ev so ?p c now v = (out, u)" by fastforce
    with False parts assms have "train_end so ?p c now out u = (r, p, w)" by simp
    with tw show ?thesis
      by (intro work_last [OF _ adv]) (use load_run [of ev so ?sh c now out u r p w left gs] in simp_all)
  qed
qed

lemma release_acquired: "release (Some (s\<lparr>sem_used := Suc (sem_used s)\<rparr>)) = Some s"
  by (simp add: release_def)

lemma sequential_run:
  assumes "sem_used s < sem_cap s"
  shows "active gs = 0 \<Longrightarrow> \<exists>gs'. active gs' = 0
    \<and> (pool_step ev so now)\<^sup>*\<^sup>* (\<lparr>sh_pub = p, sh_counts = n, sh_sem = Some s, sh_world = w\<rparr>, cs, gs)
        (case train_claims ev so cs now n p w of (n', p', w') \<Rightarrow>
           (\<lparr>sh_pub = p', sh_counts = n', sh_sem = Some s, sh_world = w'\<rparr>, [], gs'))"
proof (induction cs arbitrary: n p w gs)
  case (Cons c cs)
  let ?sh = "\<lparr>sh_pub = p, sh_counts = n, sh_sem = Some s, sh_world = w\<rparr>"
  obtain x w1 where x: "ev_acquire ev w = (x, w1)" by fastforce
  show ?case
  proof (cases x)
    case (Some e)
    have "acquire (sh_sem ?sh) (Some e) False = GaveUp e" by (simp add: acquire_def Let_def)
    with x Some have "pool_step ev so now (?sh, c # cs, gs) (?sh\<lparr>sh_world := w1\<rparr>, [], gs)"
      by (intro pool_step.stop) simp_all
    with x Some Cons.prems show ?thesis by auto
  next
    case None
    let ?s = "s\<lparr>sem_used := Suc (sem_used s)\<rparr>"
    let ?sh1 = "?sh\<lparr>sh_sem := Some ?s, sh_world := w1\<rparr>"
    have "acquire (sh_sem ?sh) None False = Got (Some ?s)" using assms by (simp add: acquire_def)
    with x None have first: "pool_step ev so now (?sh, c # cs, gs) (?sh1, cs, gs @ [(c, ToExtend)])"
      by (intro pool_step.start) simp_all
    obtain r p2 w2 where th: "trainHash ev so p c now w1 = (r, p2, w2)" by (rule prod_cases3)
    have "(pool_step ev so now)\<^sup>*\<^sup>* (?sh1, cs, gs @ [(c, ToExtend)]) (worked r p2 w2 ?sh1, cs, gs @ [(c, Ended)])"
      by (rule goroutine_run) (use th in simp)
    moreover have "worked r p2 w2 ?sh1
        = \<lparr>sh_pub = p2, sh_counts = count_train r n, sh_sem = Some s, sh_world = w2\<rparr>"
      using release_acquired [of s] by (simp add: worked_def)
    moreover have "active (gs @ [(c, Ended)]) = 0" using Cons.prems by (simp add: active_def)
    moreover note Cons.IH [OF this, of p2 "count_train r n" w2]
    ultimately show ?thesis using first x None th
      by (auto intro: converse_rtranclp_into_rtranclp rtranclp_trans)
  qed
qed auto

section \<open>Lemmas: counts\<close>

fun answer_of :: "'m stage \<Rightarrow> bool \<times> bool" where
  "answer_of (ToFinish t s a r) = r"
| "answer_of (ToUnhold r) = r"
| "answer_of (ToCount r) = r"
| "answer_of st = (False, False)"

definition counted :: "(retrainClaim \<times> 'm stage) list \<Rightarrow> nat" where
  "counted gs = length (filter (\<lambda>g. rank (snd g) \<le> 1) gs)"

definition counts_ok :: "int \<Rightarrow> ('f, 'w, 'm) pool \<Rightarrow> bool" where
  "counts_ok n st \<longleftrightarrow> (case st of (sh, left, gs) \<Rightarrow>
     ct_claimed (sh_counts sh) = n \<and> int (length gs) + int (length left) \<le> n
     \<and> 0 \<le> ct_trained (sh_counts sh) \<and> 0 \<le> ct_failed (sh_counts sh)
     \<and> ct_trained (sh_counts sh) + ct_failed (sh_counts sh) \<le> int (counted gs)
     \<and> (\<forall>g \<in> set gs. answer_of (snd g) \<noteq> (True, True)))"

lemma advance_counts:
  "advance ev so now c st sh = (st', sh') \<Longrightarrow> st \<noteq> Ended \<Longrightarrow> answer_of st \<noteq> (True, True) \<Longrightarrow>
     answer_of st' \<noteq> (True, True)
     \<and> (if rank st = 2 then rank st' = 1 \<and> sh_counts sh' = count_train (answer_of st) (sh_counts sh)
        else (rank st' \<le> 1 \<longleftrightarrow> rank st \<le> 1) \<and> sh_counts sh' = sh_counts sh)"
  by (cases st) (auto simp: Let_def case_prod_beta finish_stage_def split: option.splits sum.splits if_splits)

lemma counted_Cons: "counted (a # gs) = (if rank (snd a) \<le> 1 then 1 else 0) + counted gs"
  by (simp add: counted_def)

lemma counted_update:
  "i < length gs \<Longrightarrow> counted (gs[i := g]) + (if rank (snd (gs ! i)) \<le> 1 then 1 else 0)
     = counted gs + (if rank (snd g) \<le> 1 then 1 else 0)"
proof (induction gs arbitrary: i)
  case (Cons a gs)
  show ?case
  proof (cases i)
    case (Suc j)
    with Cons.IH [of j] Cons.prems show ?thesis by (simp add: counted_Cons)
  qed (simp add: counted_Cons)
qed simp

lemma step_counts: "pool_step ev so now st st' \<Longrightarrow> counts_ok n st \<Longrightarrow> counts_ok n st'"
proof (induction rule: pool_step.induct)
  case (start sh ctx w pick sem c left gs)
  then show ?case by (auto simp: counts_ok_def counted_def)
next
  case (stop sh ctx w pick e c left gs)
  then show ?case by (auto simp: counts_ok_def)
next
  case (work i gs c st sh st' sh' left)
  have "(c, st) \<in> set gs" using work(1,2) nth_mem by metis
  with work(5) have ans: "answer_of st \<noteq> (True, True)" by (auto simp: counts_ok_def)
  note adv = advance_counts [OF work(4,3) ans]
  have "\<forall>g \<in> set (gs[i := (c, st')]). answer_of (snd g) \<noteq> (True, True)"
    using adv work(5) set_update_subset_insert [of gs i "(c, st')"] by (auto simp: counts_ok_def)
  with adv ans counted_update [OF work(1), of "(c, st')"] work(2,5) show ?case
    by (cases "answer_of st") (auto simp: counts_ok_def count_train_def split: if_splits)
qed

lemma run_counts: "(pool_step ev so now)\<^sup>*\<^sup>* st st' \<Longrightarrow> counts_ok n st \<Longrightarrow> counts_ok n st'"
  by (induction rule: rtranclp_induct) (auto intro: step_counts)

lemma start_counts: "counts_ok (int (length claims)) (pool_start p claims w)"
  by (simp add: counts_ok_def pool_start_def no_counts_def counted_def)

section \<open>Lemmas: leases\<close>

context lease_view
begin

definition pool_held :: "('f, 'w, 'm) pool \<Rightarrow> bool" where
  "pool_held st \<longleftrightarrow> (case st of (sh, left, gs) \<Rightarrow>
     held_ok (sh_pub sh) (sh_world sh) \<and> list_all (\<lambda>c. rc_OrgID c = 0) left
     \<and> (\<forall>(c, g) \<in> set gs. rc_OrgID c = 0 \<and> (rank g = 3 \<longrightarrow> rc_Key c \<notin> mine (sh_world sh))))"

lemma advance_world:
  assumes "ev_store ev = Some so" "held_ok (sh_pub sh) (sh_world sh)" "rc_OrgID c = 0"
    and "rank g = 3 \<longrightarrow> rc_Key c \<notin> mine (sh_world sh)" "advance ev so now c g sh = (g', sh')"
  shows "held_ok (sh_pub sh') (sh_world sh') \<and> mine (sh_world sh') \<subseteq> mine (sh_world sh)
    \<and> (rank g' = 3 \<longrightarrow> rc_Key c \<notin> mine (sh_world sh'))"
proof -
  have keep: "held_ok (sh_pub sh) w \<and> mine w \<subseteq> mine (sh_world sh)"
    if "good (sh_world sh) \<longrightarrow> good w \<and> mine w \<subseteq> mine (sh_world sh)" for w
    using assms(2) that by (auto simp: held_ok_def)
  have me: "self_id (sh_pub sh) = me" "good (sh_world sh)" using assms(2) by (simp_all add: held_ok_def)
  note calls [simp] = keep [OF R_Extend [OF assms(1)]] keep [OF R_Series] keep [OF R_Put [OF assms(1)]]
  note subs = calls [THEN conjunct2, THEN subsetD]
  show ?thesis
  proof (cases g)
    case ToExtend
    with assms(5) show ?thesis
      by (auto simp: Let_def case_prod_beta split: if_splits intro: subs)
  next
    case ToLoad
    with assms(2,5) show ?thesis
      by (auto simp: Let_def case_prod_beta finish_stage_def split: option.splits sum.splits intro: subs)
  next
    case (ToPut m)
    with assms(5) show ?thesis
      by (auto simp: Let_def case_prod_beta finish_stage_def split: sum.splits intro: subs)
  next
    case (ToFinish t s a r)
    obtain d w where d: "so_Done so me 0 (rc_Key c) t s a (sh_world sh) = (d, w)" by fastforce
    note dn = mine_Done [OF assms(1) me(2) d]
    from dn have "mine w \<subseteq> mine (sh_world sh)" by (auto split: sum.splits)
    with dn keep [of w] have "held_ok (sh_pub sh) w" by simp
    with dn ToFinish assms(3,5) me(1) d show ?thesis by (cases d) auto
  next
    case (ToUnhold r)
    with assms(2,4,5) held_keys_unhold [of "rc_Key c" "sh_pub sh"] claims_ok_unhold [of "sh_pub sh" "rc_Key c"]
    show ?thesis by (auto simp: held_ok_def unhold_def)
  qed (use assms in auto)
qed

lemma step_held:
  "pool_step ev so now st st' \<Longrightarrow> ev_store ev = Some so \<Longrightarrow> pool_held st \<Longrightarrow> pool_held st'"
proof (induction rule: pool_step.induct)
  case (start sh ctx w pick sem c left gs)
  with held_ok_step [of "sh_pub sh" "sh_world sh" "ev_acquire ev (sh_world sh)"] R_acquire [of "sh_world sh"]
  show ?case by (fastforce simp: pool_held_def held_ok_def)
next
  case (stop sh ctx w pick e c left gs)
  with held_ok_step [of "sh_pub sh" "sh_world sh" "ev_acquire ev (sh_world sh)"] R_acquire [of "sh_world sh"]
  show ?case by (fastforce simp: pool_held_def held_ok_def)
next
  case (work i gs c g sh g' sh' left)
  have at: "(c, g) \<in> set gs" using work(1,2) nth_mem by metis
  with work(6) have "held_ok (sh_pub sh) (sh_world sh)" "rc_OrgID c = 0" "rank g = 3 \<longrightarrow> rc_Key c \<notin> mine (sh_world sh)"
    by (auto simp: pool_held_def)
  note adv = advance_world [OF work(5) this work(4)]
  have "\<forall>(d, h) \<in> set (gs[i := (c, g')]). rc_OrgID d = 0 \<and> (rank h = 3 \<longrightarrow> rc_Key d \<notin> mine (sh_world sh'))"
    using adv at work(6) set_update_subset_insert [of gs i "(c, g')"] by (fastforce simp: pool_held_def)
  with adv work(6) show ?case by (simp add: pool_held_def)
qed

lemma run_held:
  assumes "ev_store ev = Some so" "(pool_step ev so now)\<^sup>*\<^sup>* st st'" "pool_held st"
  shows "pool_held st'"
  using assms(2,3) by (induction rule: rtranclp_induct) (auto intro: step_held [OF _ assms(1)])

text \<open>The pool starts with every claim held.\<close>

lemma claimed_held:
  assumes "ev_store ev = Some so" "held_ok p w0" "so_Claim so me lease limit w0 = (Inr claims, w)"
  shows "pool_held (pool_start p claims w)"
proof -
  have "good w0" using assms(2) by (simp add: held_ok_def)
  note cl = mine_Claim [OF assms(1) this assms(3)]
  then have org: "list_all (\<lambda>c. rc_OrgID c = 0) claims" by simp
  from holds_ok [OF _ org, of p] cl assms(2) same_but_held_fields(2) [OF fold_hold_same [of p claims]] org
  show ?thesis by (auto simp: pool_held_def pool_start_def held_ok_def)
qed

end

end
