(* ===== verification/PoolTick.thy ===== *)
theory PoolTick imports TrainPool
begin

text \<open>
  The tick and the loop of \<open>Run\<close> with the interleaved training pool (\<open>publisher.go\<close>): \<open>retrain_run\<close> is
  \<open>retrain\<close> ending in any complete run of the pool, and \<open>tick_run\<close> and \<open>worker_run\<close> are the tick and the
  loop on it. The functions of \<open>Retrain\<close> and \<open>Tick\<close> are one run of these relations.
\<close>

section \<open>The relations\<close>

inductive retrain_run :: "('w, 's, 'f, 'm) env \<Rightarrow> 'f publisher \<Rightarrow> string list \<Rightarrow> instant \<Rightarrow> 'w
    \<Rightarrow> retrainCounts \<times> 'f publisher \<times> 'w \<Rightarrow> bool"
  for ev :: "('w, 's, 'f, 'm) env" and p :: "'f publisher" and keys :: "string list" and now :: instant and w :: 'w where
  no_store: "ev_store ev = None \<Longrightarrow> retrain_run ev p keys now w (no_counts, p, w)"
| claim_fails: "\<lbrakk>ev_store ev = Some so; so_Schedule so keys (DefaultRetrainCron (pb_cfg p)) ''UTC'' w = (r, w1);
     so_Claim so (self_id p) (RetrainLease (pb_cfg p)) (TrainConcurrency (pb_cfg p)) w1 = (Inl e, w2)\<rbrakk>
     \<Longrightarrow> retrain_run ev p keys now w (no_counts, p, w2)"
| nothing_due: "\<lbrakk>ev_store ev = Some so; so_Schedule so keys (DefaultRetrainCron (pb_cfg p)) ''UTC'' w = (r, w1);
     so_Claim so (self_id p) (RetrainLease (pb_cfg p)) (TrainConcurrency (pb_cfg p)) w1 = (Inr [], w2)\<rbrakk>
     \<Longrightarrow> retrain_run ev p keys now w (no_counts, p, w2)"
| trains: "\<lbrakk>ev_store ev = Some so; so_Schedule so keys (DefaultRetrainCron (pb_cfg p)) ''UTC'' w = (r, w1);
     so_Claim so (self_id p) (RetrainLease (pb_cfg p)) (TrainConcurrency (pb_cfg p)) w1 = (Inr claims, w2);
     claims \<noteq> []; (pool_step ev so now)\<^sup>*\<^sup>* (pool_start p claims w2) (sh, [], gs); pool_done (sh, [], gs)\<rbrakk>
     \<Longrightarrow> retrain_run ev p keys now w (sh_counts sh, sh_pub sh, sh_world sh)"

inductive tick_run :: "('w, 's, 'f, 'm) env \<Rightarrow> 'f publisher \<Rightarrow> 'w \<Rightarrow> tickResult option \<times> 'f publisher \<times> 'w \<Rightarrow> bool"
  for ev :: "('w, 's, 'f, 'm) env" and p :: "'f publisher" and w :: 'w where
  cancelled: "ev_ctxErr ev w = (Some e, v) \<Longrightarrow> tick_run ev p w (None, p, v)"
| scan_fails: "\<lbrakk>fst (ev_ctxErr ev w) = None; tick_start ev p w = (now, ps, Inl e, p2, w4)\<rbrakk>
     \<Longrightarrow> tick_run ev p w (None, p2, w4)"
| passes: "\<lbrakk>fst (ev_ctxErr ev w) = None; tick_start ev p w = (now, ps, Inr spans, p2, w4);
     owned = ownedSpans spans (self_id p2) ps;
     ready = readyKeys spans owned (Lookback (pb_cfg p2)) (StaleAfter (pb_cfg p2)) now;
     heartbeat ev p2 (int (length (ownedKeys spans owned))) (int (length ps)) w4 = (p3, w5);
     retire ev p3 spans now w5 = (retired, w6);
     retrain_run ev p3 ready now (sweep ev p3 w6) (counts, p4, w7);
     emit ev spans ready owned now p4 w7 = (n, p5, w8)\<rbrakk>
     \<Longrightarrow> tick_run ev p w
       (Some \<lparr>tr_peers = int (length ps), tr_owned = int (length (ownedKeys spans owned)),
          tr_skipped = int (length spans) - int (length (ownedKeys spans owned)),
          tr_ineligible = int (length (ownedKeys spans owned)) - int (length ready),
          tr_published = n, tr_retrained = ct_trained counts, tr_claimed = ct_claimed counts,
          tr_failed = ct_failed counts, tr_retired = retired\<rparr>, p5, w8)"

definition logged :: "tickResult option \<Rightarrow> 'f publisher \<Rightarrow> 'f publisher" where
  "logged r p = (case r of None \<Rightarrow> p | Some r \<Rightarrow> logTick r p)"

inductive loop_run :: "('w, 's, 'f, 'm) env \<Rightarrow> loop_event list \<Rightarrow> 'f publisher \<Rightarrow> 'w \<Rightarrow> bool \<times> 'f publisher \<times> 'w \<Rightarrow> bool"
  for ev :: "('w, 's, 'f, 'm) env" where
  waiting: "loop_run ev [] p w (False, p, w)"
| returns: "releaseHeld ev p w = (p1, w1) \<Longrightarrow> loop_run ev (Cancelled # es) p w (True, p1, w1)"
| ticks: "\<lbrakk>tick_run ev p w (r, p1, w1); loop_run ev es (logged r p1) w1 out\<rbrakk> \<Longrightarrow> loop_run ev (Fired # es) p w out"

definition worker_run :: "('w, 's, 'f, 'm) env \<Rightarrow> loop_event list \<Rightarrow> 'f publisher \<Rightarrow> 'w \<Rightarrow> bool \<times> 'f publisher \<times> 'w \<Rightarrow> bool" where
  "worker_run ev es p w out \<longleftrightarrow> (\<exists>r p1 w1. tick_run ev p w (r, p1, w1) \<and> loop_run ev es (logged r p1) w1 out)"

inductive_cases retrain_runE: "retrain_run ev p keys now w out"
inductive_cases tick_runE: "tick_run ev p w out"

section \<open>Lemmas: the functions are runs\<close>

lemma sequential_pool:
  "\<exists>sh gs. (pool_step ev so now)\<^sup>*\<^sup>* (pool_start p claims w) (sh, [], gs) \<and> pool_done (sh, [], gs)
     \<and> train_claims ev so claims now (no_counts\<lparr>ct_claimed := int (length claims)\<rparr>) (fold hold claims p) w
       = (sh_counts sh, sh_pub sh, sh_world sh)"
proof -
  let ?s = "newSemaphore (TrainConcurrency (pb_cfg p))"
  let ?n = "no_counts\<lparr>ct_claimed := int (length claims)\<rparr>"
  obtain n' p' w' where t: "train_claims ev so claims now ?n (fold hold claims p) w = (n', p', w')" by (rule prod_cases3)
  have "sem_used ?s < sem_cap ?s" "active [] = 0" by (simp_all add: newSemaphore_def active_def)
  from sequential_run [OF this(1), of "[]" ev so now "fold hold claims p" ?n w claims] t
  show ?thesis by (fastforce simp: pool_start_def pool_done_def active_def)
qed

lemma retrain_is_run: "retrain_run ev p keys now w (retrain ev p keys now w)"
proof (cases "ev_store ev")
  case None
  then show ?thesis by (simp add: retrain_def no_store)
next
  case (Some so)
  obtain r w1 where sched: "so_Schedule so keys (DefaultRetrainCron (pb_cfg p)) ''UTC'' w = (r, w1)" by fastforce
  obtain c w2 where claim: "so_Claim so (self_id p) (RetrainLease (pb_cfg p)) (TrainConcurrency (pb_cfg p)) w1 = (c, w2)"
    by fastforce
  show ?thesis
  proof (cases c)
    case (Inl e)
    with Some sched claim claim_fails [of ev so keys p w r w1 e w2 now] show ?thesis by (simp add: retrain_def Let_def)
  next
    case (Inr claims)
    show ?thesis
    proof (cases "claims = []")
      case True
      with Inr Some sched claim nothing_due [of ev so keys p w r w1 w2 now] show ?thesis by (simp add: retrain_def Let_def)
    next
      case False
      obtain sh gs where run: "(pool_step ev so now)\<^sup>*\<^sup>* (pool_start p claims w2) (sh, [], gs)" "pool_done (sh, [], gs)"
        and t: "train_claims ev so claims now (no_counts\<lparr>ct_claimed := int (length claims)\<rparr>) (fold hold claims p) w2
           = (sh_counts sh, sh_pub sh, sh_world sh)"
        using sequential_pool [of ev so now p claims w2] by auto
      from trains [OF Some sched claim [unfolded Inr] False run] Inr False Some sched claim t
      show ?thesis by (simp add: retrain_def Let_def)
    qed
  qed
qed

lemma runTick_is_run: "tick_run ev p w (runTick ev p w)"
proof -
  obtain e v where ctx: "ev_ctxErr ev w = (e, v)" by fastforce
  show ?thesis
  proof (cases e)
    case (Some err)
    with ctx show ?thesis by (simp add: runTick_cancelled cancelled)
  next
    case None
    with ctx have live: "fst (ev_ctxErr ev w) = None" by simp
    obtain now ps r p2 w4 where st: "tick_start ev p w = (now, ps, r, p2, w4)" by (rule prod_cases5)
    show ?thesis
    proof (cases r)
      case (Inl err)
      with runTick_fails [OF live] scan_fails [OF live] st show ?thesis by simp
    next
      case (Inr spans)
      let ?owned = "ownedSpans spans (self_id p2) ps"
      let ?ready = "readyKeys spans ?owned (Lookback (pb_cfg p2)) (StaleAfter (pb_cfg p2)) now"
      obtain p3 w5 where hb: "heartbeat ev p2 (int (length (ownedKeys spans ?owned))) (int (length ps)) w4 = (p3, w5)"
        by fastforce
      obtain d w6 where rt: "retire ev p3 spans now w5 = (d, w6)" by fastforce
      obtain c p4 w7 where tr: "retrain ev p3 ?ready now (sweep ev p3 w6) = (c, p4, w7)" by (rule prod_cases3)
      obtain n p5 w8 where em: "emit ev spans ?ready ?owned now p4 w7 = (n, p5, w8)" by (rule prod_cases3)
      have rr: "retrain_run ev p3 ?ready now (sweep ev p3 w6) (c, p4, w7)"
        using retrain_is_run [of ev p3 ?ready now "sweep ev p3 w6"] tr by simp
      show ?thesis
        unfolding runTick_steps [OF live st [unfolded Inr] refl refl hb rt tr em]
        by (rule passes [OF live st [unfolded Inr] refl refl hb rt rr em])
    qed
  qed
qed

lemma run_loop_is_run: "loop_run ev es p w (run_loop ev es p w)"
proof (induction es arbitrary: p w)
  case (Cons e es)
  show ?case
  proof (cases e)
    case Fired
    obtain r p1 w1 where t: "runTick ev p w = (r, p1, w1)" by (rule prod_cases3)
    with runTick_is_run [of ev p w] have "tick_run ev p w (r, p1, w1)" by simp
    from ticks [OF this Cons.IH] Fired t show ?thesis by (auto simp: tick_def logged_def split: option.split)
  next
    case Cancelled
    obtain p1 w1 where rel: "releaseHeld ev p w = (p1, w1)" by fastforce
    from returns [OF this] Cancelled rel show ?thesis by simp
  qed
qed (simp add: waiting)

lemma Run_is_run: "worker_run ev es p w (Run ev es p w)"
proof -
  obtain r p1 w1 where t: "runTick ev p w = (r, p1, w1)" by (rule prod_cases3)
  with runTick_is_run [of ev p w] have "tick_run ev p w (r, p1, w1)" by simp
  moreover have "Run ev es p w = run_loop ev es (logged r p1) w1"
    using t by (auto simp: Run_def tick_def logged_def split: option.split)
  ultimately show ?thesis unfolding worker_run_def using run_loop_is_run by metis
qed

section \<open>Lemmas: the pool only changes the held claims\<close>

lemma advance_same: "advance ev so now c st sh = (st', sh') \<Longrightarrow> same_but_held (sh_pub sh) (sh_pub sh')"
  by (cases st) (auto simp: Let_def case_prod_beta unhold_same split: option.splits sum.splits if_splits)

lemma pool_step_same: "pool_step ev so now st st' \<Longrightarrow> same_but_held (sh_pub (fst st)) (sh_pub (fst st'))"
  by (induction rule: pool_step.induct) (auto intro: advance_same)

lemma pool_run_same: "(pool_step ev so now)\<^sup>*\<^sup>* st st' \<Longrightarrow> same_but_held (sh_pub (fst st)) (sh_pub (fst st'))"
  by (induction rule: rtranclp_induct) (auto intro: same_but_held_trans pool_step_same)

lemma retrain_run_same:
  assumes "retrain_run ev p keys now w (c, q, v)"
  shows "same_but_held p q"
  using assms
proof (cases rule: retrain_run.cases)
  case (trains so r w1 claims w2 sh gs)
  with pool_run_same [OF trains(8)] show ?thesis
    by (auto simp: pool_start_def intro: same_but_held_trans [OF fold_hold_same])
qed simp_all

section \<open>Lemmas: what a tick sends\<close>

text \<open>
  What the messages of a tick are, given the spans and the peers of its start. \<open>log0\<close> and \<open>log1\<close> are the
  messages the sink had accepted before and has accepted after it.
\<close>

definition tick_messages :: "'f publisher \<Rightarrow> string list \<Rightarrow> BaselineMessage list \<Rightarrow> tickResult option \<Rightarrow> 'f publisher
    \<Rightarrow> BaselineMessage list \<Rightarrow> bool" where
  "tick_messages p ready log0 r p' log1 \<longleftrightarrow>
     (\<exists>ms res. r = Some res \<and> log1 = log0 @ ms \<and> tr_published res = int (length ms) \<and> subseq (map MetricHash ms) ready
        \<and> list_all (\<lambda>m. \<not> is_nan (BaselineValue m)) ms \<and> rising (pb_published p |` set ready) ms
        \<and> pb_published p' = foldl set_mark (pb_published p |` set ready) ms)"

context sink_log
begin

lemma advance_log:
  assumes "ev_store ev = Some so" "advance ev so now c st sh = (st', sh')"
  shows "log (sh_world sh') = log (sh_world sh)"
  using assms(2)
  by (cases st) (auto simp: Let_def case_prod_beta R_Extend [OF assms(1)] R_Series R_Put [OF assms(1)] log_Done [OF assms(1)]
      split: option.splits sum.splits)

lemma pool_step_log:
  "pool_step ev so now st st' \<Longrightarrow> ev_store ev = Some so \<Longrightarrow> log (sh_world (fst st')) = log (sh_world (fst st))"
proof (induction rule: pool_step.induct)
  case (start sh ctx w pick sem c left gs)
  with R_acquire [of "sh_world sh"] show ?case by simp
next
  case (stop sh ctx w pick e c left gs)
  with R_acquire [of "sh_world sh"] show ?case by simp
next
  case (work i gs c st sh st' sh' left)
  with advance_log [OF work(5,4)] show ?case by simp
qed

lemma pool_run_log:
  assumes "ev_store ev = Some so" "(pool_step ev so now)\<^sup>*\<^sup>* st st'"
  shows "log (sh_world (fst st')) = log (sh_world (fst st))"
  using assms(2) by (induction rule: rtranclp_induct) (simp_all add: pool_step_log [OF _ assms(1)])

lemma retrain_run_log:
  assumes "retrain_run ev p keys now w (c, q, v)"
  shows "log v = log w"
  using assms
proof (cases rule: retrain_run.cases)
  case (claim_fails so r w1 e)
  with R_Schedule [OF claim_fails(3)] log_Claim [OF claim_fails(3)] show ?thesis by (metis snd_conv)
next
  case (nothing_due so r w1)
  with R_Schedule [OF nothing_due(3)] log_Claim [OF nothing_due(3)] show ?thesis by (metis snd_conv)
next
  case (trains so r w1 claims w2 sh gs)
  from pool_run_log [OF trains(4,8)] have "log v = log w2" using trains(3) by (simp add: pool_start_def)
  with trains R_Schedule [OF trains(4)] log_Claim [OF trains(4)] show ?thesis by (metis snd_conv)
qed simp_all

lemma tick_run_log:
  assumes "tick_run ev p w (r, q, v)"
  shows "case (fst (ev_ctxErr ev w), tick_start ev p w) of
     (None, now, ps, Inr spans, p2, w4) \<Rightarrow>
       tick_messages p (readyKeys spans (ownedSpans spans (self_id p) ps) (Lookback (pb_cfg p)) (StaleAfter (pb_cfg p)) now)
         (log w) r q (log v)
   | _ \<Rightarrow> r = None \<and> log v = log w"
  using assms
proof (cases rule: tick_run.cases)
  case (cancelled e)
  with R_ctxErr [of w] show ?thesis by simp
next
  case (scan_fails now ps e)
  with tick_start_R [OF scan_fails(3)] show ?thesis by simp
next
  case (passes now ps spans p2 w4 owned ready p3 w5 retired w6 counts p4 w7 n)
  note frame = tick_start_frame [OF passes(3)]
  have p4: "pb_cfg p4 = pb_cfg p" "pb_published p4 = pb_published p"
    using frame heartbeat_frame [of ev p2 "int (length (ownedKeys spans owned))" "int (length ps)" w4] passes(6)
      same_but_held_fields [OF retrain_run_same [OF passes(8)]] by simp_all
  have w7: "log w7 = log w"
    using tick_start_R [OF passes(3)] heartbeat_R [of p2 "int (length (ownedKeys spans owned))" "int (length ps)" w4]
      retire_R [of p3 spans now w5] sweep_R [of p3 w6] retrain_run_log [OF passes(8)] passes(6,7) by simp
  obtain q' ms where "emitted (readyKeys spans owned (Lookback (pb_cfg p4)) (StaleAfter (pb_cfg p4)) now) q' w7 ms q v"
    "n = int (length ms)" "pb_published q' = pb_published p4 |` set ready"
    using emit_emitted [of spans owned p4 now w7 ready] passes(9) by (metis fst_conv snd_conv)
  with w7 p4 frame passes(1,2,3,4,5) show ?thesis
    by (auto simp: tick_messages_def emitted_def list_all_iff intro!: exI [of _ ms])
qed

end

section \<open>Lemmas: leases\<close>

context lease_view
begin

lemma retrain_run_held:
  assumes "retrain_run ev p keys now w (c, q, v)" "held_ok p w"
  shows "held_ok q v"
proof -
  have sched: "held_ok p w1" if "ev_store ev = Some so" "so_Schedule so ks cron tz w = (r, w1)" for so ks cron tz r w1
    using held_ok_step [OF assms(2) R_Schedule [OF that(1)]] that(2) by (metis snd_conv)
  have me: "self_id p = me" using assms(2) by (simp add: held_ok_def)
  have quiet: "held_ok p w2" if "ev_store ev = Some so" "held_ok p w1"
    "so_Claim so (self_id p) lease limit w1 = (x, w2)" "x = Inl e \<or> x = Inr []" for so w1 lease limit x w2 e
  proof -
    have "good w1" using that(2) by (simp add: held_ok_def)
    from mine_Claim [OF that(1) this that(3) [unfolded me]] that(2,4) show ?thesis
      by (auto simp: held_ok_def)
  qed
  from assms(1) show ?thesis
  proof (cases rule: retrain_run.cases)
    case no_store
    with assms(2) show ?thesis by simp
  next
    case (claim_fails so r w1 e)
    with quiet [OF claim_fails(3) sched [OF claim_fails(3,4)] claim_fails(5)] show ?thesis by simp
  next
    case (nothing_due so r w1)
    with quiet [OF nothing_due(3) sched [OF nothing_due(3,4)] nothing_due(5)] show ?thesis by simp
  next
    case (trains so r w1 claims w2 sh gs)
    from claimed_held [OF trains(4) sched [OF trains(4,5)] trains(6) [unfolded me]]
    have "pool_held (pool_start p claims w2)" .
    from run_held [OF trains(4,8) this] trains(2,3) show ?thesis by (simp add: pool_held_def)
  qed
qed

lemma tick_run_held:
  assumes "tick_run ev p w (r, q, v)" "held_ok p w"
  shows "held_ok q v"
  using assms(1)
proof (cases rule: tick_run.cases)
  case (cancelled e)
  with held_ok_step [OF assms(2) R_ctxErr] show ?thesis by (metis snd_conv)
next
  case (scan_fails now ps e)
  from held_ok_mono [OF assms(2) tick_start_R [OF scan_fails(3)]] tick_start_frame [OF scan_fails(3)]
  show ?thesis by simp
next
  case (passes now ps spans p2 w4 owned ready p3 w5 retired w6 counts p4 w7 n)
  let ?n = "int (length (ownedKeys spans owned))" and ?m = "int (length ps)"
  have p2: "held_ok p2 w4"
    using held_ok_mono [OF assms(2) tick_start_R [OF passes(3)]] tick_start_frame [OF passes(3)] by simp
  have "held_ok p3 w5"
    using held_ok_mono [OF p2 heartbeat_R] heartbeat_frame [of ev p2 ?n ?m w4] passes(6) by (metis fst_conv snd_conv)
  with held_ok_step [OF _ retire_R] passes(7) have "held_ok p3 w6" by (metis snd_conv)
  then have "held_ok p3 (sweep ev p3 w6)" using held_ok_mono [OF _ sweep_R] by metis
  from retrain_run_held [OF passes(8) this] have p4: "held_ok p4 w7" .
  show ?thesis
    using held_ok_mono [OF p4 emit_R] emit_frame [of ev spans ready owned now p4 w7] passes(9)
    by (metis fst_conv snd_conv)
qed

lemma logged_held: "held_ok p w \<Longrightarrow> held_ok (logged r p) w"
  by (auto simp: logged_def held_ok_def logTick_def split: option.split)

lemma loop_run_held:
  "loop_run ev es p w out \<Longrightarrow> (\<And>cs. set (ev_heldOrder ev cs) = set cs) \<Longrightarrow> held_ok p w
    \<Longrightarrow> held_ok (fst (snd out)) (snd (snd out))"
proof (induction rule: loop_run.induct)
  case (returns p w p1 w1 es)
  with releaseHeld_held [of p w] show ?case by simp
next
  case (ticks p w r p1 w1 es out)
  from ticks.IH [OF ticks.prems(1) logged_held [OF tick_run_held [OF ticks.hyps(1) ticks.prems(2)]]] show ?case .
qed simp

lemma worker_run_held:
  assumes "worker_run ev es p w (fin, q, v)" "\<And>cs. set (ev_heldOrder ev cs) = set cs" "held_ok p w"
  shows "held_ok q v"
proof -
  obtain r p1 w1 where t: "tick_run ev p w (r, p1, w1)" and l: "loop_run ev es (logged r p1) w1 (fin, q, v)"
    using assms(1) by (auto simp: worker_run_def)
  from loop_run_held [OF l assms(2) logged_held [OF tick_run_held [OF t assms(3)]]] show ?thesis by simp
qed

end
end
