(* ===== verification/StoreFleet.thy ===== *)
theory StoreFleet imports PostgresStore
begin

text \<open>
  The stores of a fleet: any number of workers, each with its own connection, call any methods of
  \<open>postgresStore\<close> on one database, with every outcome of a call, lost replies included.
\<close>

datatype 'm store_call =
    CallPut string snapshotRecord 'm | CallGet string | CallFresh "string list" | CallSweep duration
  | CallBaselineKeys | CallRetire "string list" | CallHeartbeat string int int | CallPeers duration
  | CallSchedule "string list" string string | CallClaim string duration int
  | CallExtend string int string duration | CallDone string int string instant string int

fun run_call :: "'m codec \<Rightarrow> pg_in \<Rightarrow> 'm store_call \<Rightarrow> pg_store \<Rightarrow> pg_store" where
  "run_call cd i (CallPut key rec snap) s = snd (pg_Put cd i key rec snap s)"
| "run_call cd i (CallGet key) s = snd (pg_Get cd i key s)"
| "run_call cd i (CallFresh keys) s = snd (pg_Fresh i keys s)"
| "run_call cd i (CallSweep ttl) s = snd (pg_SweepSnapshots i ttl s)"
| "run_call cd i CallBaselineKeys s = snd (pg_BaselineKeys i s)"
| "run_call cd i (CallRetire keys) s = snd (pg_Retire i keys s)"
| "run_call cd i (CallHeartbeat wid owned peers) s = snd (pg_Heartbeat i wid owned peers s)"
| "run_call cd i (CallPeers ttl) s = snd (pg_Peers i ttl s)"
| "run_call cd i (CallSchedule keys cron tz) s = snd (pg_Schedule i keys cron tz s)"
| "run_call cd i (CallClaim owner lease limit) s = snd (pg_Claim i owner lease limit s)"
| "run_call cd i (CallExtend owner org key lease) s = snd (pg_Extend i owner org key lease s)"
| "run_call cd i (CallDone owner org key nxt status attempts) s = snd (pg_Done i owner org key nxt status attempts s)"

fun store_fleet :: "'m codec \<Rightarrow> (nat \<times> pg_in \<times> 'm store_call) list \<Rightarrow> (nat \<Rightarrow> conn) \<times> pg_db \<Rightarrow> (nat \<Rightarrow> conn) \<times> pg_db" where
  "store_fleet cd [] st = st"
| "store_fleet cd ((w, i, c) # cs) (conns, db) =
     (let s = run_call cd i c \<lparr>st_conn = conns w, st_db = db\<rparr>
      in store_fleet cd cs (conns(w := st_conn s), st_db s))"

section \<open>Lemmas\<close>

text \<open>A call leaves the database alone or runs its statement on it.\<close>

lemma exec_db: "snd (exec flt stmt db) = db \<or> snd (exec flt stmt db) = snd (stmt db)"
  by (simp add: exec_def split: fault.split)

lemma with_store_db_cases:
  "st_db (snd (with_store i stmt s)) = st_db s \<or> st_db (snd (with_store i stmt s)) = snd (stmt (st_db s))"
  using exec_db [of "in_fault i" stmt "st_db s"]
  by (auto simp: with_store_def case_prod_beta split: option.split)

lemma with_queue_db_cases:
  "st_db (snd (with_queue f i stmt s)) = st_db s \<or> st_db (snd (with_queue f i stmt s)) = snd (stmt (st_db s))"
  using exec_db [of "in_fault i" stmt "st_db s"]
  by (auto simp: with_queue_def on_error_def case_prod_beta split: option.split sum.split)

lemma with_store_inv:
  "queue_inv (st_db s) \<Longrightarrow> queue_inv (snd (stmt (st_db s))) \<Longrightarrow> queue_inv (st_db (snd (with_store i stmt s)))"
  using with_store_db_cases [of i stmt s] by auto

lemma with_queue_inv:
  "queue_inv (st_db s) \<Longrightarrow> queue_inv (snd (stmt (st_db s))) \<Longrightarrow> queue_inv (st_db (snd (with_queue f i stmt s)))"
  using with_queue_db_cases [of f i stmt s] by auto

lemma pg_Put_inv: "queue_inv (st_db s) \<Longrightarrow> queue_inv (st_db (snd (pg_Put cd i key rec snap s)))"
  using other_rows_ok(1) [of "st_db s" "in_now i" key rec]
  by (auto simp: pg_Put_def exec_def split: option.split sum.split prod.split fault.split)

lemma pg_Schedule_inv: "queue_inv (st_db s) \<Longrightarrow> queue_inv (st_db (snd (pg_Schedule i keys cron tz s)))"
  using schedule_rows_ok [of "st_db s" "in_now i" keys cron tz]
  by (auto simp: pg_Schedule_def insert_schedules_def on_error_def exec_def
      split: option.split sum.split prod.split fault.split)

lemma pg_Get_db: "st_db (snd (pg_Get cd i key s)) = st_db s"
  using with_store_db_cases [of i "\<lambda>db. (sql_get key db, db)" s]
  by (auto simp: pg_Get_def split: prod.split sum.split option.split)

lemma run_call_inv: "queue_inv (st_db s) \<Longrightarrow> queue_inv (st_db (run_call cd i c s))"
  by (cases c)
    (auto simp: pg_Put_inv pg_Schedule_inv pg_Get_db pg_Fresh_def pg_SweepSnapshots_def pg_BaselineKeys_def pg_Retire_def
      pg_Heartbeat_def pg_Peers_def pg_Claim_def pg_Extend_def pg_Done_def case_prod_beta
      claim_rows_ok extend_rows_ok done_rows_ok retire_rows_ok other_rows_ok
      intro!: with_store_inv with_queue_inv)

lemma store_fleet_inv: "queue_inv db \<Longrightarrow> queue_inv (snd (store_fleet cd calls (conns, db)))"
proof (induction calls arbitrary: conns db)
  case (Cons c calls)
  obtain w i call where c: "c = (w, i, call)" by (cases c)
  have "queue_inv (st_db (run_call cd i call \<lparr>st_conn = conns w, st_db = db\<rparr>))"
    using Cons.prems by (intro run_call_inv) simp
  with Cons.IH c show ?case by (simp add: Let_def)
qed simp

section \<open>Properties\<close>

text \<open>
  C19: The tables stay well formed: over any interleaving of store calls of any workers, with failures and
  lost replies at any point, every table keeps its keys unique and every queue row is either leased, with
  an owner and an end, or has neither.
\<close>

theorem store_keeps_constraints:
  assumes "queue_inv db"
  shows "queue_inv (snd (store_fleet cd calls (conns, db)))"
  using assms by (rule store_fleet_inv)

text \<open>A worker loses the reply of its claim; another one heartbeats and claims.\<close>

theorem store_keeps_constraints_witness:
  "queue_inv (snd (store_fleet plain_codec
     [(0, (calm_in 5)\<lparr>in_fault := ReplyLost (Err ''timeout'')\<rparr>, CallClaim ''a'' hour 1),
      (1, calm_in 6, CallHeartbeat ''b'' 0 1), (1, calm_in 7, CallClaim ''b'' hour 1)]
     (\<lambda>w. st_conn (openPostgresStore sample_db), sample_db)))"
  by (rule store_keeps_constraints) (rule sample_queue_inv)

end
