(* ===== verification/FleetWorld.thy ===== *)
theory FleetWorld imports World StoreFleet
begin

text \<open>
  What a worker of \<open>World\<close> assumes of the other clients of its database, discharged for the rest of the
  fleet: any sequence of store calls by workers with other ids is tame.
\<close>

text \<open>The worker a call takes leases for.\<close>

fun claims_for :: "'m store_call \<Rightarrow> string option" where
  "claims_for (CallClaim owner lease limit) = Some owner"
| "claims_for call = None"

section \<open>Lemmas\<close>

lemma leased_done_other: "queue_inv db \<Longrightarrow> leased_to me (snd (sql_done now w org key nxt status a db)) \<subseteq> leased_to me db"
  by (auto simp: leased_to_def holder_done split: if_splits)

lemma leased_claim_other:
  "queue_inv db \<Longrightarrow> w \<noteq> me \<Longrightarrow> leased_to me (snd (sql_claim now locked w l n db)) \<subseteq> leased_to me db"
  by (auto simp: leased_to_def holder_claim split: if_splits)

lemma with_store_leased:
  "leased_to me (snd (stmt (st_db s))) \<subseteq> leased_to me (st_db s) \<Longrightarrow>
   leased_to me (st_db (snd (with_store i stmt s))) \<subseteq> leased_to me (st_db s)"
  using with_store_db_cases [of i stmt s] by auto

lemma with_queue_leased:
  "leased_to me (snd (stmt (st_db s))) \<subseteq> leased_to me (st_db s) \<Longrightarrow>
   leased_to me (st_db (snd (with_queue f i stmt s))) \<subseteq> leased_to me (st_db s)"
  using with_queue_db_cases [of f i stmt s] by auto

lemma pg_Put_leased: "leased_to me (st_db (snd (pg_Put cd i key rec snap s))) = leased_to me (st_db s)"
  by (auto simp: pg_Put_def exec_def leased_frame split: option.split sum.split prod.split fault.split)

lemma pg_Schedule_leased: "leased_to me (st_db (snd (pg_Schedule i keys cron tz s))) = leased_to me (st_db s)"
  by (auto simp: pg_Schedule_def insert_schedules_def on_error_def exec_def leased_schedule
      split: option.split sum.split prod.split fault.split)

lemma run_call_leased:
  assumes "queue_inv (st_db s)" "claims_for c \<noteq> Some me"
  shows "leased_to me (st_db (run_call cd i c s)) \<subseteq> leased_to me (st_db s)"
  using assms
  by (cases c)
    (simp_all add: pg_Put_leased pg_Schedule_leased pg_Get_db pg_Fresh_def pg_SweepSnapshots_def pg_BaselineKeys_def
      pg_Retire_def pg_Heartbeat_def pg_Peers_def pg_Claim_def pg_Extend_def pg_Done_def case_prod_beta
      with_store_leased with_queue_leased leased_frame leased_retire leased_extend leased_done_other leased_claim_other)

lemma store_fleet_leased:
  "queue_inv db \<Longrightarrow> \<forall>(w, i, c) \<in> set calls. claims_for c \<noteq> Some me \<Longrightarrow>
   leased_to me (snd (store_fleet cd calls (conns, db))) \<subseteq> leased_to me db"
proof (induction calls arbitrary: conns db)
  case (Cons c calls)
  obtain w i call where c: "c = (w, i, call)" by (cases c)
  let ?s = "run_call cd i call \<lparr>st_conn = conns w, st_db = db\<rparr>"
  have "queue_inv (st_db ?s)" using Cons.prems(1) by (intro run_call_inv) simp
  moreover have "leased_to me (st_db ?s) \<subseteq> leased_to me db"
    using run_call_leased [of "\<lparr>st_conn = conns w, st_db = db\<rparr>" call me cd i] Cons.prems c by simp
  ultimately show ?case using Cons.IH [of "st_db ?s"] Cons.prems c by (auto simp: Let_def)
qed simp

section \<open>Inputs from a fleet\<close>

text \<open>
  An input of worker \<open>me\<close> whose own reply is not lost, and before which other workers made any store calls:
  with their own connections, clocks, failures and lost replies.
\<close>

definition fleet_input :: "'m codec \<Rightarrow> string \<Rightarrow> 's call_in \<Rightarrow> bool" where
  "fleet_input cd me i \<longleftrightarrow> (\<forall>e. in_fault (ci_pg i) \<noteq> ReplyLost e)
     \<and> (\<exists>calls conns. ci_others i = (\<lambda>db. snd (store_fleet cd calls (conns, db)))
          \<and> (\<forall>(w, j, c) \<in> set calls. claims_for c \<noteq> Some me))"

definition in_fleet :: "'m codec \<Rightarrow> string \<Rightarrow> 's world \<Rightarrow> bool" where
  "in_fleet cd me w \<longleftrightarrow> queue_inv (world_db w) \<and> (\<forall>n. fleet_input cd me (wd_feed w n))"

lemma fleet_tame: "fleet_input cd me i \<Longrightarrow> tame me i"
  using store_fleet_inv store_fleet_leased by (fastforce simp: fleet_input_def tame_def)

lemma in_fleet_ok: "in_fleet cd me w \<Longrightarrow> world_ok me w"
  by (auto simp: in_fleet_def world_ok_def intro: fleet_tame)

end
