(* ===== verification/PoolRuns.thy ===== *)
theory PoolRuns imports Scenarios PoolTick FleetWorld
begin

text \<open>
  The properties of the training pool over every interleaving of its goroutines, and a concrete run.
\<close>

section \<open>A pool of two goroutines\<close>

abbreviation demo_store :: "(demo_series world, string) store_ops" where
  "demo_store \<equiv> pg_ops plain_codec"

lemma demo_claimed:
  "\<exists>c1 c2 w. so_Claim demo_store ''a'' minute 2 (demo_world sample_db demo_feed) = (Inr [c1, c2], w) \<and> wd_feed w = demo_feed"
  by (simp add: demo_env_defs demo_feed_defs Let_def pg_Claim_def with_queue_def ensure_def exec_def on_error_def
      openPostgresStore_def sql_claim_def due_rows_def due_def sample_defs demo_now_def unit_defs)

lemma demo_acquire: "wd_feed w = demo_feed \<Longrightarrow> \<exists>v. ev_acquire (world_env demo_outside) w = (None, v) \<and> wd_feed v = demo_feed"
  by (simp add: demo_env_defs demo_feed_def Let_def)

lemma demo_two_started:
  assumes "wd_feed w = demo_feed"
  shows "\<exists>sh. (pool_step (world_env demo_outside) demo_store demo_now ^^ 2)
    (pool_start demo_worker [c1, c2] w) (sh, [], [(c1, ToExtend), (c2, ToExtend)])"
proof -
  let ?ev = "world_env demo_outside"
  let ?sem = "\<lambda>n. Some \<lparr>sem_cap = 2, sem_used = n\<rparr>"
  let ?sh = "\<lparr>sh_pub = fold hold [c1, c2] demo_worker, sh_counts = no_counts\<lparr>ct_claimed := 2\<rparr>, sh_sem = ?sem 0, sh_world = w\<rparr>"
  obtain w1 where w1: "ev_acquire ?ev w = (None, w1)" "wd_feed w1 = demo_feed" using demo_acquire [OF assms] by blast
  obtain w2 where w2: "ev_acquire ?ev w1 = (None, w2)" using demo_acquire [OF w1(2)] by blast
  let ?sh1 = "?sh\<lparr>sh_sem := ?sem 1, sh_world := w1\<rparr>"
  let ?sh2 = "?sh1\<lparr>sh_sem := ?sem 2, sh_world := w2\<rparr>"
  have "pool_step ?ev demo_store demo_now (?sh, [c1, c2], []) (?sh1, [c2], [] @ [(c1, ToExtend)])"
    by (rule pool_step.start [where ctx = None and pick = True]) (use w1 in \<open>simp_all add: acquire_def\<close>)
  moreover have "pool_step ?ev demo_store demo_now (?sh1, [c2], [] @ [(c1, ToExtend)])
      (?sh2, [], ([] @ [(c1, ToExtend)]) @ [(c2, ToExtend)])"
    by (rule pool_step.start [where ctx = None and pick = True]) (use w2 in \<open>simp_all add: acquire_def\<close>)
  moreover have "pool_start demo_worker [c1, c2] w = (?sh, [c1, c2], [])"
    by (simp add: pool_start_def newSemaphore_def demo_worker_def sample_config_def)
  ultimately have "(pool_step ?ev demo_store demo_now ^^ 2) (pool_start demo_worker [c1, c2] w)
      (?sh2, [], [(c1, ToExtend), (c2, ToExtend)])"
    by (auto simp: numeral_2_eq_2)
  then show ?thesis by blast
qed

section \<open>Properties\<close>

text \<open>
  C5: However the goroutines of the training pool interleave, with each other, with the loop that starts
  them and with the rest of the fleet, and wherever the pool is looked at: every row leased to this worker is
  among the claims it holds, so a shutdown there hands all of them back; at most TRAIN_CONCURRENCY
  goroutines run; and the counts of the tick stay within the claims.
\<close>

theorem pool_keeps_leases:
  assumes "ou_store ou" "world_ok (self_id p) w0" "leased_to (self_id p) (world_db w0) \<subseteq> fst ` set (pb_held p)"
    and "list_all (\<lambda>(k, c). rc_Key c = k \<and> rc_OrgID c = 0) (pb_held p)"
    and "so_Claim (pg_ops (ou_codec ou)) (self_id p) lease limit w0 = (Inr claims, w)"
    and "(pool_step (world_env ou) (pg_ops (ou_codec ou)) now)\<^sup>*\<^sup>* (pool_start p claims w) (sh, left, gs)"
  shows "leased_to (self_id p) (world_db (sh_world sh)) \<subseteq> fst ` set (pb_held (sh_pub sh))
    \<and> active gs \<le> nat (max 1 (TrainConcurrency (pb_cfg p)))
    \<and> 0 \<le> ct_trained (sh_counts sh) \<and> 0 \<le> ct_failed (sh_counts sh)
    \<and> ct_trained (sh_counts sh) + ct_failed (sh_counts sh) \<le> int (length gs)
    \<and> length gs + length left \<le> length claims"
proof -
  have store: "ev_store (world_env ou) = Some (pg_ops (ou_codec ou))" using assms(1) by (simp add: world_env_def)
  have "leases.held_ok (self_id p) p w0"
    using assms(2,3,4) by (simp add: leases.held_ok_def leases.claims_ok_def)
  from leases.run_held [OF store assms(6) leases.claimed_held [OF store this assms(5)]]
  have "leased_to (self_id p) (world_db (sh_world sh)) \<subseteq> fst ` set (pb_held (sh_pub sh))"
    by (simp add: leases.pool_held_def leases.held_ok_def)
  moreover have "active gs \<le> nat (max 1 (TrainConcurrency (pb_cfg p)))"
    using run_slots [OF assms(6) start_slots] by (auto simp: slots_ok_def)
  moreover have "counted gs \<le> length gs" by (simp add: counted_def)
  ultimately show ?thesis using run_counts [OF assms(6) start_counts] by (simp add: counts_ok_def)
qed

theorem pool_keeps_leases_witness:
  "\<exists>c1 c2 w sh. so_Claim demo_store ''a'' minute 2 (demo_world sample_db demo_feed) = (Inr [c1, c2], w)
     \<and> (pool_step (world_env demo_outside) demo_store demo_now)\<^sup>*\<^sup>* (pool_start demo_worker [c1, c2] w)
         (sh, [], [(c1, ToExtend), (c2, ToExtend)])
     \<and> leased_to ''a'' (world_db (sh_world sh)) \<subseteq> fst ` set (pb_held (sh_pub sh))"
proof -
  obtain c1 c2 w where cl: "so_Claim demo_store ''a'' minute 2 (demo_world sample_db demo_feed) = (Inr [c1, c2], w)"
    and feed: "wd_feed w = demo_feed" using demo_claimed by blast
  from demo_two_started [OF feed, of c1 c2] obtain sh where run:
    "(pool_step (world_env demo_outside) demo_store demo_now)\<^sup>*\<^sup>* (pool_start demo_worker [c1, c2] w)
       (sh, [], [(c1, ToExtend), (c2, ToExtend)])" by (meson relpowp_imp_rtranclp)
  have me: "self_id demo_worker = ''a''" and held: "pb_held demo_worker = [(''k1'', demo_claim)]"
    by (simp_all add: demo_worker_def)
  have ok: "world_ok (self_id demo_worker) (demo_world sample_db demo_feed)"
    using sample_queue_inv by (simp add: world_ok_def world_db_def tame_def demo_feed_defs openPostgresStore_def)
  have mine: "leased_to (self_id demo_worker) (world_db (demo_world sample_db demo_feed)) \<subseteq> fst ` set (pb_held demo_worker)"
    unfolding me held
    by (auto simp: leased_to_def holder_def row_at_def row_holder_def world_db_def demo_world_def openPostgresStore_def
        sample_defs rt_pk_def lease_key_def split: if_splits)
  have outside: "ou_store demo_outside" "ou_codec demo_outside = plain_codec" by (simp_all add: demo_outside_def)
  from pool_keeps_leases [OF outside(1) ok mine, unfolded outside(2) me, OF _ cl run] held cl run show ?thesis
    by (auto simp: demo_claim_def)
qed

text \<open>
  C6: The pool always comes to its end: it takes at most eight steps for each claim, however they interleave,
  and a state from which nothing can happen is one in which every claim was started or dropped and every
  goroutine has ended, so the wait for them returns.
\<close>

theorem pool_returns:
  assumes "(pool_step ev so now ^^ n) (pool_start p claims w) st"
  shows "n \<le> 8 * length claims \<and> (pool_done st \<or> (\<exists>st'. pool_step ev so now st st'))"
proof
  show "n \<le> 8 * length claims" using run_length [OF assms] by (simp add: pool_start_def)
  have "slots_ok (nat (max 1 (TrainConcurrency (pb_cfg p)))) st"
    using run_slots [OF relpowp_imp_rtranclp [OF assms] start_slots] .
  from pool_moves [OF this, of ev so now] show "pool_done st \<or> (\<exists>st'. pool_step ev so now st st')"
    by (cases "pool_done st") simp_all
qed

theorem pool_returns_witness:
  "\<exists>sh st'. (pool_step (world_env demo_outside) demo_store demo_now ^^ 2)
      (pool_start demo_worker [demo_claim, demo_claim\<lparr>rc_Key := ''k3''\<rparr>] (demo_world sample_db demo_feed))
      (sh, [], [(demo_claim, ToExtend), (demo_claim\<lparr>rc_Key := ''k3''\<rparr>, ToExtend)])
    \<and> pool_step (world_env demo_outside) demo_store demo_now
        (sh, [], [(demo_claim, ToExtend), (demo_claim\<lparr>rc_Key := ''k3''\<rparr>, ToExtend)]) st'"
proof -
  have "wd_feed (demo_world sample_db demo_feed) = demo_feed" by (simp add: demo_world_def)
  from demo_two_started [OF this] obtain sh where run: "(pool_step (world_env demo_outside) demo_store demo_now ^^ 2)
      (pool_start demo_worker [demo_claim, demo_claim\<lparr>rc_Key := ''k3''\<rparr>] (demo_world sample_db demo_feed))
      (sh, [], [(demo_claim, ToExtend), (demo_claim\<lparr>rc_Key := ''k3''\<rparr>, ToExtend)])" by blast
  from pool_returns [OF this] run show ?thesis by (auto simp: pool_done_def active_def)
qed

section \<open>A whole tick and a whole run\<close>

text \<open>
  C4: A worker of a fleet always knows the leases it holds: starting without a lease, after any number of
  ticks and a shutdown, with its training goroutines interleaved in any order, over every sequence of
  answers and failures and whatever store calls the workers with other ids make in between, lost replies
  of theirs included, every row the store has leased to this worker is among the claims it still holds, so
  its shutdown hands all of them back. Only replies to the worker itself are not lost: a claim it never
  heard of waits for its expiry.
\<close>

theorem fleet_worker_keeps_leases:
  fixes ou :: "('s, 'f, 'm) outside" and p0 :: "'f publisher"
  assumes "p0 = newPublisher h cfg st" "\<And>cs. set (ou_order ou cs) = set cs"
    and "in_fleet cd (self_id p0) w" "leased_to (self_id p0) (world_db w) = {}"
    and "worker_run (world_env ou) es p0 w (fin, p', w')"
  shows "leased_to (self_id p0) (world_db w') \<subseteq> fst ` set (pb_held p')"
proof -
  have ord: "set (ev_heldOrder (world_env ou) cs) = set cs" for cs
    using assms(2) by (simp add: world_env_def)
  have "leases.held_ok (self_id p0) p0 w"
    using assms(1,4) in_fleet_ok [OF assms(3)]
    by (simp add: leases.held_ok_def leases.claims_ok_def newPublisher_def Let_def)
  from leases.worker_run_held [OF assms(5) ord this] show ?thesis by (simp add: leases.held_ok_def)
qed

text \<open>A worker on an empty queue, for two ticks and a shutdown, next to one that heartbeats and claims.\<close>

definition busy_feed :: "nat \<Rightarrow> demo_series call_in" where
  "busy_feed n = (demo_feed n)\<lparr>ci_others := (\<lambda>db. snd (store_fleet plain_codec
     [(1, calm_in demo_now, CallHeartbeat ''b'' 0 2), (1, calm_in demo_now, CallClaim ''b'' hour 1)]
     (\<lambda>w. st_conn (openPostgresStore db), db)))\<rparr>"

theorem fleet_worker_keeps_leases_witness:
  "\<exists>fin p' w'. worker_run (world_env demo_outside) [Fired, Cancelled]
       (newPublisher \<lparr>host_ifaces = None, host_name = Some ''w0''\<rparr> sample_config True) (demo_world empty_db busy_feed) (fin, p', w')
     \<and> leased_to (self_id (newPublisher \<lparr>host_ifaces = None, host_name = Some ''w0''\<rparr> sample_config True :: f64 publisher))
         (world_db w') \<subseteq> fst ` set (pb_held p')"
proof -
  define p0 :: "f64 publisher" where "p0 = newPublisher \<lparr>host_ifaces = None, host_name = Some ''w0''\<rparr> sample_config True"
  have "trim_space ''w0'' = ''w0''" by code_simp
  then have me: "self_id p0 = ''w0''"
    by (simp add: p0_def newPublisher_def Let_def newPeerSource_def shardID_def sample_config_def)
  have inv: "queue_inv empty_db" by (simp add: queue_inv_def db_inv_def empty_db_def)
  have fleet: "in_fleet plain_codec (self_id p0) (demo_world empty_db busy_feed)"
    unfolding me
    by (auto simp: in_fleet_def fleet_input_def world_db_def busy_feed_def demo_feed_defs openPostgresStore_def inv
        intro!: exI [of _ "[(1, calm_in demo_now, CallHeartbeat ''b'' 0 2), (1, calm_in demo_now, CallClaim ''b'' hour 1)]"])
  have free: "leased_to (self_id p0) (world_db (demo_world empty_db busy_feed)) = {}"
    by (simp add: leased_to_def holder_def row_at_def world_db_def demo_world_def openPostgresStore_def empty_db_def)
  have ord: "set (ou_order demo_outside cs) = set cs" for cs by (simp add: demo_outside_def)
  obtain fin p' w' where run: "Run (world_env demo_outside) [Fired, Cancelled] p0 (demo_world empty_db busy_feed) = (fin, p', w')"
    by (rule prod_cases3)
  with Run_is_run [of "world_env demo_outside" "[Fired, Cancelled]" p0 "demo_world empty_db busy_feed"]
  have wr: "worker_run (world_env demo_outside) [Fired, Cancelled] p0 (demo_world empty_db busy_feed) (fin, p', w')" by simp
  from fleet_worker_keeps_leases [OF p0_def ord fleet free wr] wr show ?thesis unfolding p0_def by blast
qed

text \<open>
  C10: What a tick publishes, however its training goroutines interleave: a tick that is cancelled or finds no
  spans publishes nothing; otherwise the messages the sink accepted during the tick are at most one per
  ready hash, in the order of the spans, none with a NaN value, each newer than its hash's publish mark; the
  marks afterwards record exactly them, and their number is the tick's published count.
\<close>

theorem tick_sends:
  assumes "tick_run (world_env ou) p w (r, p', w')"
  shows "case (fst (ev_ctxErr (world_env ou) w), tick_start (world_env ou) p w) of
     (None, now, ps, Inr spans, p2, w4) \<Rightarrow>
       (let ready = readyKeys spans (ownedSpans spans (self_id p) ps) (Lookback (pb_cfg p)) (StaleAfter (pb_cfg p)) now
        in \<exists>ms res. r = Some res \<and> wd_sent w' = wd_sent w @ ms
          \<and> tr_published res = int (length ms) \<and> subseq (map MetricHash ms) ready
          \<and> list_all (\<lambda>m. \<not> is_nan (BaselineValue m)) ms \<and> rising (pb_published p |` set ready) ms
          \<and> pb_published p' = foldl set_mark (pb_published p |` set ready) ms)
   | _ \<Rightarrow> r = None \<and> wd_sent w' = wd_sent w"
  using sent.tick_run_log [OF assms] unfolding tick_messages_def Let_def .

theorem tick_sends_witness:
  "case runTick (world_env demo_outside) demo_worker (demo_world sample_db demo_feed) of (r, p', w') \<Rightarrow>
     list_all (\<lambda>m. \<not> is_nan (BaselineValue m)) (wd_sent w')"
proof -
  let ?ev = "world_env demo_outside" and ?w = "demo_world sample_db demo_feed"
  obtain r p' w' where run: "runTick ?ev demo_worker ?w = (r, p', w')" by (rule prod_cases3)
  with runTick_is_run [of ?ev demo_worker ?w] have "tick_run ?ev demo_worker ?w (r, p', w')" by simp
  note sends = tick_sends [OF this]
  have "wd_sent ?w = []" by (simp add: demo_world_def)
  moreover obtain now ps x p2 w4 where "tick_start ?ev demo_worker ?w = (now, ps, x, p2, w4)" by (rule prod_cases5)
  ultimately have "list_all (\<lambda>m. \<not> is_nan (BaselineValue m)) (wd_sent w')"
    using sends by (cases "fst (ev_ctxErr ?ev ?w)"; cases x) (auto simp: Let_def)
  with run show ?thesis by simp
qed

text \<open>The sequential run among any other clients that are tame.\<close>

corollary run_holds_its_leases:
  fixes ou :: "('s, 'f, 'm) outside" and p0 :: "'f publisher"
  assumes "p0 = newPublisher h cfg st" "\<And>cs. set (ou_order ou cs) = set cs"
    and "world_ok (self_id p0) w" "leased_to (self_id p0) (world_db w) = {}"
  shows "leased_to (self_id p0) (world_db (snd (snd (Run (world_env ou) es p0 w))))
    \<subseteq> fst ` set (pb_held (fst (snd (Run (world_env ou) es p0 w))))"
proof -
  have ord: "set (ev_heldOrder (world_env ou) cs) = set cs" for cs
    using assms(2) by (simp add: world_env_def)
  have "leases.held_ok (self_id p0) p0 w"
    using assms(1,3,4) by (simp add: leases.held_ok_def leases.claims_ok_def newPublisher_def Let_def)
  moreover obtain fin p' w' where "Run (world_env ou) es p0 w = (fin, p', w')" by (rule prod_cases3)
  ultimately show ?thesis
    using leases.worker_run_held [of ou es p0 w fin p' w', OF _ ord] Run_is_run [of "world_env ou" es p0 w]
    by (simp add: leases.held_ok_def)
qed

text \<open>What the tick of \<open>runTick\<close> publishes.\<close>

corollary tick_publishes:
  "case (fst (ev_ctxErr (world_env ou) w), tick_start (world_env ou) p w) of
     (None, now, ps, Inr spans, p2, w4) \<Rightarrow>
       tick_messages p (readyKeys spans (ownedSpans spans (self_id p) ps) (Lookback (pb_cfg p)) (StaleAfter (pb_cfg p)) now)
         (wd_sent w) (fst (runTick (world_env ou) p w)) (fst (snd (runTick (world_env ou) p w)))
         (wd_sent (snd (snd (runTick (world_env ou) p w))))
   | _ \<Rightarrow> fst (runTick (world_env ou) p w) = None \<and> wd_sent (snd (snd (runTick (world_env ou) p w))) = wd_sent w"
  using sent.tick_run_log [of ou p w "fst (runTick (world_env ou) p w)" "fst (snd (runTick (world_env ou) p w))"
      "snd (snd (runTick (world_env ou) p w))"] runTick_is_run [of "world_env ou" p w] by simp

end
