(* ===== verification/GoDuration.thy ===== *)
theory GoDuration imports Prelude "HOL-Library.Log_Nat"
begin

text \<open>
  \<open>time.ParseDuration\<close>, which reads every duration of the environment and of the command line. The
  value is summed in an unsigned 64-bit integer; only the fraction of a term is computed in floating
  point.
\<close>

section \<open>Rounding to a float64\<close>

text \<open>
  The nearest number with a 53-bit significand, ties to even, for a positive rational in the range of
  normal numbers: \<open>k\<close> is the exponent that leaves 53 bits before the point.
\<close>

definition half_even :: "rat \<Rightarrow> int" where
  "half_even q =
     (let n = \<lfloor>q\<rfloor>; r = q - of_int n
      in if r < 1 / 2 then n else if 1 / 2 < r then n + 1 else if even n then n else n + 1)"

definition pow2 :: "int \<Rightarrow> rat" where
  "pow2 k = (if 0 \<le> k then 2 ^ nat k else 1 / 2 ^ nat (- k))"

definition round_f64 :: "rat \<Rightarrow> rat" where
  "round_f64 q =
     (if q \<le> 0 then 0
      else let (a, b) = quotient_of q;
               k = bitlen a - bitlen b - 53;
               k = (if q / pow2 k < 2 ^ 53 then k else k + 1)
           in of_int (half_even (q / pow2 k)) * pow2 k)"

section \<open>ParseDuration\<close>

definition unit_of :: "string \<Rightarrow> nat option" where
  "unit_of u =
     (if u = ''ns'' then Some 1
      else if u = ''us'' \<or> u = bytes [194, 181] @ ''s'' \<or> u = bytes [206, 188] @ ''s'' then Some 1000
      else if u = ''ms'' then Some 1000000
      else if u = ''s'' then Some 1000000000
      else if u = ''m'' then Some 60000000000
      else if u = ''h'' then Some 3600000000000
      else None)"

text \<open>The digits at the front; the value may not exceed \<open>1 << 63\<close>.\<close>

definition leadingInt :: "string \<Rightarrow> (nat \<times> string) option" where
  "leadingInt s =
     (let v = digits_value (takeWhile digit_char s) 0
      in if 2 ^ 63 < v then None else Some (v, dropWhile digit_char s))"

text \<open>The digits of a fraction that fit in 63 bits, and the power of ten they are to be divided by.\<close>

fun leadingFraction :: "string \<Rightarrow> nat \<Rightarrow> nat \<Rightarrow> nat \<times> nat" where
  "leadingFraction [] x scale = (x, scale)"
| "leadingFraction (c # s) x scale =
     (let y = 10 * x + (of_char c - 48)
      in if (2 ^ 63 - 1) div 10 < x \<or> 2 ^ 63 < y then (x, scale) else leadingFraction s y (10 * scale))"

definition fraction_ns :: "nat \<Rightarrow> nat \<Rightarrow> nat \<Rightarrow> nat" where
  "fraction_ns f unit scale = nat \<lfloor>round_f64 (round_f64 (of_nat f) * round_f64 (of_nat unit / of_nat scale))\<rfloor>"

definition unit_char :: "char \<Rightarrow> bool" where
  "unit_char c \<longleftrightarrow> c \<noteq> CHR ''.'' \<and> \<not> digit_char c"

text \<open>One term: an integer, a fraction (one of them may be missing) and a unit.\<close>

definition split_fraction :: "string \<Rightarrow> (nat \<times> nat) \<times> bool \<times> string" where
  "split_fraction s =
     (case s of
        c # t \<Rightarrow>
          if c = CHR ''.''
          then (leadingFraction (takeWhile digit_char t) 0 1, takeWhile digit_char t \<noteq> [], dropWhile digit_char t)
          else ((0, 1), False, s)
      | [] \<Rightarrow> ((0, 1), False, []))"

definition parse_term :: "string \<Rightarrow> (nat \<times> string) option" where
  "parse_term s =
     (case leadingInt s of
        None \<Rightarrow> None
      | Some (v, s1) \<Rightarrow>
          (let pre = (takeWhile digit_char s \<noteq> []);
               ((f, scale), post, s2) = split_fraction s1;
               u = takeWhile unit_char s2
           in if \<not> pre \<and> \<not> post \<or> u = [] then None
              else case unit_of u of
                     None \<Rightarrow> None
                   | Some k \<Rightarrow>
                       (let v' = v * k + (if 0 < f then fraction_ns f k scale else 0)
                        in if 2 ^ 63 div k < v \<or> 0 < f \<and> 2 ^ 63 < v' then None
                           else Some (v', dropWhile unit_char s2))))"

lemma split_fraction_shorter: "length (snd (snd (split_fraction s))) \<le> length s"
proof (cases s)
  case (Cons c t)
  then show ?thesis using length_dropWhile_le [of digit_char t] by (simp add: split_fraction_def)
qed (simp add: split_fraction_def)

lemma parse_term_shorter:
  assumes "parse_term s = Some (v, r)"
  shows "length r < length s"
proof -
  obtain v0 s1 where i: "leadingInt s = Some (v0, s1)" using assms by (auto simp: parse_term_def split: option.splits)
  then have s1: "length s1 \<le> length s" using length_dropWhile_le [of digit_char s] by (auto simp: leadingInt_def Let_def split: if_splits)
  obtain f scale post s2 where sp: "split_fraction s1 = ((f, scale), post, s2)" by (metis surj_pair)
  then have s2: "length s2 \<le> length s1" using split_fraction_shorter [of s1] by simp
  from assms i sp have u: "takeWhile unit_char s2 \<noteq> []" "r = dropWhile unit_char s2"
    by (auto simp: parse_term_def Let_def split: if_splits option.splits)
  have "length (takeWhile unit_char s2) + length (dropWhile unit_char s2) = length s2"
    by (metis length_append takeWhile_dropWhile_id)
  with u s1 s2 show ?thesis by (cases "takeWhile unit_char s2") auto
qed

text \<open>The terms; each must start with a digit or a point, and the sum wraps like the source's.\<close>

function parse_terms :: "string \<Rightarrow> nat \<Rightarrow> nat option" where
  "parse_terms s d =
     (if s = [] then Some d
      else if hd s \<noteq> CHR ''.'' \<and> \<not> digit_char (hd s) then None
      else case parse_term s of
             None \<Rightarrow> None
           | Some (v, r) \<Rightarrow>
               (let d = (d + v) mod 2 ^ 64 in if 2 ^ 63 < d then None else parse_terms r d))"
  by pat_completeness auto
termination
  by (relation "measure (\<lambda>(s, d). length s)") (auto dest: parse_term_shorter)

declare parse_terms.simps [simp del]

definition ParseDuration :: "string \<Rightarrow> duration option" where
  "ParseDuration s =
     (let (neg, s) = (case s of
            [] \<Rightarrow> (False, [])
          | c # t \<Rightarrow> if c = CHR ''-'' then (True, t) else if c = CHR ''+'' then (False, t) else (False, s))
      in if s = ''0'' then Some 0
         else if s = [] then None
         else case parse_terms s 0 of
                None \<Rightarrow> None
              | Some d \<Rightarrow> if neg then Some (- int d) else if 2 ^ 63 - 1 < d then None else Some (int d))"

section \<open>Lemmas\<close>

lemma digits_takeWhile: "list_all digit_char ds \<Longrightarrow> \<not> digit_char c \<Longrightarrow>
    takeWhile digit_char (ds @ c # s) = ds \<and> dropWhile digit_char (ds @ c # s) = c # s"
  by (induction ds) simp_all

lemma unit_takeWhile: "list_all unit_char u \<Longrightarrow> s = [] \<or> \<not> unit_char (hd s) \<Longrightarrow>
    takeWhile unit_char (u @ s) = u \<and> dropWhile unit_char (u @ s) = s"
proof (induction u)
  case Nil
  then show ?case by (cases s) auto
qed simp

lemma unit_char_code: "unit_char c \<longleftrightarrow> of_char c \<noteq> (46 :: nat) \<and> (of_char c < (48 :: nat) \<or> (57 :: nat) < of_char c)"
proof -
  have "c = CHR ''.'' \<longleftrightarrow> of_char c = (of_char (CHR ''.'') :: nat)" by (simp only: of_char_eq_iff)
  then show ?thesis by (auto simp: unit_char_def digit_char_def)
qed

lemma unit_of_chars: "unit_of u = Some k \<Longrightarrow> list_all unit_char u \<and> u \<noteq> [] \<and> 0 < k"
  by (auto simp: unit_of_def unit_char_code bytes_def split: if_splits)

text \<open>A whole number of a unit is read exactly.\<close>

lemma parse_term_whole:
  assumes "unit_of u = Some k" "n * k \<le> 2 ^ 63" "s = [] \<or> \<not> unit_char (hd s)"
  shows "parse_term (digits n @ u @ s) = Some (n * k, s)"
proof -
  obtain c t where u: "u = c # t" using unit_of_chars [OF assms(1)] by (cases u) auto
  then have c: "\<not> digit_char c" "c \<noteq> CHR ''.''" using unit_of_chars [OF assms(1)] by (auto simp: unit_char_def)
  have k: "0 < k" using unit_of_chars [OF assms(1)] by simp
  then have "n \<le> 2 ^ 63 div k" using assms(2) by (simp add: less_eq_div_iff_mult_less_eq)
  moreover have "n \<le> 2 ^ 63" using assms(2) k by (metis dual_order.trans mult.commute mult_le_mono1 nat_mult_1 Suc_leI One_nat_def)
  moreover have "takeWhile digit_char (digits n @ u @ s) = digits n" "dropWhile digit_char (digits n @ u @ s) = u @ s"
    using digits_takeWhile [OF digits_all c(1), of n "t @ s"] u by simp_all
  moreover have "split_fraction (u @ s) = ((0, 1), False, u @ s)" using u c(2) by (simp add: split_fraction_def)
  ultimately show ?thesis
    using unit_takeWhile [of u s] unit_of_chars [OF assms(1)] assms(1,3)
    by (simp add: parse_term_def leadingInt_def digits_value_digits Let_def)
qed

lemma ParseDuration_whole:
  assumes "unit_of u = Some k" "n * k \<le> 2 ^ 63 - 1"
  shows "ParseDuration (digits n @ u) = Some (int (n * k))"
proof -
  obtain c t where d: "digits n = c # t" using digits_not_Nil by (cases "digits n") auto
  then have c: "digit_char c" using digits_all [of n] by simp
  then have "c \<noteq> CHR ''-''" "c \<noteq> CHR ''+''" by (auto simp: digit_char_def)
  moreover have "digits n @ u \<noteq> ''0''" using d unit_of_chars [OF assms(1)] by auto
  moreover have "parse_term (digits n @ u) = Some (n * k, [])"
    using parse_term_whole [of u k n "[]"] assms by simp
  moreover have "n * k mod 2 ^ 64 = n * k" using assms(2) by simp
  moreover have "u \<noteq> []" using unit_of_chars [OF assms(1)] by simp
  ultimately show ?thesis
    using assms(2) c d parse_terms.simps [of "digits n @ u" 0] parse_terms.simps [of "[]" "n * k"]
    by (simp add: ParseDuration_def Let_def)
qed

text \<open>
  Floating point does not show in a fraction whose digits the unit can hold (\<open>1.5h\<close>, \<open>0.25s\<close>): whole
  numbers below \<open>2 ^ 53\<close> are represented exactly.
\<close>

lemma half_even_int [simp]: "half_even (of_int n) = n"
  by (simp add: half_even_def)

lemma round_f64_int: "n < 2 ^ 53 \<Longrightarrow> round_f64 (of_nat n) = of_nat n"
proof (cases "n = 0")
  case False
  assume small: "n < 2 ^ 53"
  let ?k = "bitlen (int n) - bitlen 1 - 53"
  define k where "k = (if of_nat n / pow2 ?k < (2 ^ 53 :: rat) then ?k else ?k + 1)"
  have "bitlen (int n) \<le> 53"
    using small by (simp add: bitlen_le_iff_power)
  then have "k \<le> 0" by (simp add: k_def bitlen_alt_def)
  then obtain j where k: "pow2 k = 1 / 2 ^ j" by (cases "k = 0") (auto simp: pow2_def intro: that [of 0])
  have "quotient_of (of_nat n) = (int n, 1)" using quotient_of_int [of "int n"] by (simp add: Rat.of_int_def)
  then have "round_f64 (of_nat n) = of_int (half_even (of_nat n / pow2 k)) * pow2 k"
    using False by (simp add: round_f64_def k_def Let_def)
  also have "of_nat n / pow2 k = of_int (int n * 2 ^ j)" by (simp add: k)
  finally show ?thesis by (simp only: half_even_int) (simp add: k)
qed (simp add: round_f64_def)

lemma fraction_exact:
  assumes "unit = q * scale" "0 < scale" "f < 2 ^ 53" "q < 2 ^ 53" "f * q < 2 ^ 53"
  shows "fraction_ns f unit scale = f * q"
proof -
  have "of_nat unit / of_nat scale = (of_nat q :: rat)" using assms(1,2) by simp
  then have "round_f64 (of_nat f) * round_f64 (of_nat unit / of_nat scale) = of_nat (f * q)"
    using assms(3,4) by (simp add: round_f64_int)
  then show ?thesis using round_f64_int [OF assms(5)] by (simp add: fraction_ns_def del: of_nat_mult)
qed

lemma half_hour: "fraction_ns 5 3600000000000 10 = 1800000000000"
  using fraction_exact [of 3600000000000 360000000000 10 5] by simp

end
