(* ===== verification/StoreUrl.thy ===== *)
theory StoreUrl imports Prelude
begin

text \<open>
  The DSN of the store (\<open>storedsn.go\<close>), with the part of \<open>net/url\<close> that it uses: percent-encoding
  and \<open>URL.String\<close> for a URL with a scheme, userinfo, a host, a rooted path and a query.
\<close>

section \<open>Percent-encoding\<close>

datatype encoding = EncodePath | EncodeHost | EncodeUserPassword | EncodeQueryComponent

definition alnum :: "char \<Rightarrow> bool" where
  "alnum c \<longleftrightarrow> (let n = of_char c :: nat in 48 \<le> n \<and> n \<le> 57 \<or> 65 \<le> n \<and> n \<le> 90 \<or> 97 \<le> n \<and> n \<le> 122)"

text \<open>Byte values: \<open>0x22\<close> is the double quote and \<open>0x27\<close> the single one.\<close>

definition shouldEscape :: "encoding \<Rightarrow> char \<Rightarrow> bool" where
  "shouldEscape mode c =
     (if alnum c then False
      else if mode = EncodeHost \<and> c \<in> set (''!$&()*+,;=:[]<>'' @ [CHR 0x22, CHR 0x27]) then False
      else if c \<in> set ''-_.~'' then False
      else if c \<in> set ''$&+,/:;=?@''
      then (case mode of
              EncodePath \<Rightarrow> c = CHR ''?''
            | EncodeUserPassword \<Rightarrow> c \<in> set ''@/?:''
            | EncodeQueryComponent \<Rightarrow> True
            | EncodeHost \<Rightarrow> True)
      else True)"

definition upper_hex :: "nat \<Rightarrow> char" where
  "upper_hex n = (if n < 10 then char_of (48 + n) else char_of (55 + n))"

definition escape_char :: "encoding \<Rightarrow> char \<Rightarrow> string" where
  "escape_char mode c =
     (if \<not> shouldEscape mode c then [c]
      else if c = CHR '' '' \<and> mode = EncodeQueryComponent then ''+''
      else [CHR ''%'', upper_hex (of_char c div 16), upper_hex (of_char c mod 16)])"

definition escape :: "encoding \<Rightarrow> string \<Rightarrow> string" where
  "escape mode s = concat (map (escape_char mode) s)"

section \<open>The DSN\<close>

text \<open>\<open>url.User\<close> and \<open>url.UserPassword\<close>.\<close>

type_synonym userinfo = "string \<times> string option"

definition userinfo_text :: "userinfo \<Rightarrow> string" where
  "userinfo_text u =
     (if fst u = [] \<and> snd u = None then []
      else escape EncodeUserPassword (fst u)
           @ (case snd u of None \<Rightarrow> [] | Some p \<Rightarrow> '':'' @ escape EncodeUserPassword p))"

text \<open>\<open>URL.String\<close> with a non-empty scheme, userinfo and host, a path that starts with a slash and a query.\<close>

definition url_text :: "string \<Rightarrow> userinfo \<Rightarrow> string \<Rightarrow> string \<Rightarrow> string \<Rightarrow> string" where
  "url_text sch user host path query =
     sch @ ''://'' @ userinfo_text user @ ''@'' @ escape EncodeHost host @ escape EncodePath path @ ''?'' @ query"

definition storeEnv :: "(string \<Rightarrow> string) \<Rightarrow> string \<Rightarrow> string" where
  "storeEnv getenv field =
     (let v = trim_space (getenv (''BASELINE_STORE_'' @ field));
          f = trim_space (getenv (''FORECAST_STORE_'' @ field))
      in if v \<noteq> [] then v else f)"

definition or_text :: "string \<Rightarrow> string \<Rightarrow> string" where
  "or_text v dflt = (if v = [] then dflt else v)"

definition storeDSN :: "(string \<Rightarrow> string) \<Rightarrow> string" where
  "storeDSN getenv =
     (let url = storeEnv getenv ''URL'' in
      if url \<noteq> [] then url
      else let host = storeEnv getenv ''HOST'' in
        if host = [] then []
        else let port = or_text (storeEnv getenv ''PORT'') ''5432'';
                 database = or_text (storeEnv getenv ''DATABASE'') ''overlay'';
                 user = or_text (storeEnv getenv ''USER'') ''overlay'';
                 sslmode = or_text (storeEnv getenv ''SSLMODE'') ''disable'';
                 pass = storeEnv getenv ''PASSWORD''
             in url_text ''postgres'' (user, if pass = [] then None else Some pass) (host @ '':'' @ port)
                  (''/'' @ database) (''sslmode='' @ escape EncodeQueryComponent sslmode))"

section \<open>Reading a DSN\<close>

text \<open>How a URL parser takes the authority apart: userinfo up to the last \<open>@\<close> before the path.\<close>

definition hex_value :: "char \<Rightarrow> nat option" where
  "hex_value c =
     (let n = of_char c in
      if 48 \<le> n \<and> n \<le> 57 then Some (n - 48)
      else if 65 \<le> n \<and> n \<le> 70 then Some (n - 55)
      else if 97 \<le> n \<and> n \<le> 102 then Some (n - 87)
      else None)"

fun unescape :: "string \<Rightarrow> string option" where
  "unescape [] = Some []"
| "unescape (c # s) =
     (if c = CHR ''%''
      then case s of
             a # b # t \<Rightarrow>
               (case (hex_value a, hex_value b) of
                  (Some m, Some n) \<Rightarrow> map_option (\<lambda>r. char_of (16 * m + n) # r) (unescape t)
                | _ \<Rightarrow> None)
           | _ \<Rightarrow> None
      else map_option (\<lambda>r. c # r) (unescape s))"

definition split_last :: "char \<Rightarrow> string \<Rightarrow> (string \<times> string) option" where
  "split_last c s =
     (case dropWhile (\<lambda>x. x \<noteq> c) (rev s) of
        [] \<Rightarrow> None
      | _ # t \<Rightarrow> Some (rev t, rev (takeWhile (\<lambda>x. x \<noteq> c) (rev s))))"

definition read_userinfo :: "string \<Rightarrow> userinfo option" where
  "read_userinfo s =
     (case dropWhile (\<lambda>x. x \<noteq> CHR '':'') s of
        [] \<Rightarrow> map_option (\<lambda>u. (u, None)) (unescape s)
      | _ # p \<Rightarrow>
          (case (unescape (takeWhile (\<lambda>x. x \<noteq> CHR '':'') s), unescape p) of
             (Some u, Some p) \<Rightarrow> Some (u, Some p)
           | _ \<Rightarrow> None))"

definition authority :: "string \<Rightarrow> string" where
  "authority rest = takeWhile (\<lambda>c. c \<notin> set ''/?#'') rest"

definition read_credentials :: "string \<Rightarrow> (userinfo \<times> string) option" where
  "read_credentials dsn =
     (if take 11 dsn \<noteq> ''postgres://'' then None
      else case split_last (CHR ''@'') (authority (drop 11 dsn)) of
             None \<Rightarrow> None
           | Some (info, host) \<Rightarrow> map_option (\<lambda>u. (u, host)) (read_userinfo info))"

section \<open>Lemmas\<close>

lemma hex_value_upper: "n < 16 \<Longrightarrow> hex_value (upper_hex n) = Some n"
  by (auto simp: hex_value_def upper_hex_def Let_def)

lemma char_below: "of_char (c :: char) < (256 :: nat)"
  by (metis mod_less_divisor of_char_mod_256 zero_less_numeral)

lemma unescape_char: "mode \<noteq> EncodeQueryComponent \<Longrightarrow> unescape (escape_char mode c @ s) = map_option (\<lambda>r. c # r) (unescape s)"
proof (cases "shouldEscape mode c")
  case True
  assume "mode \<noteq> EncodeQueryComponent"
  moreover have "of_char c div 16 < (16 :: nat)" "of_char c mod 16 < (16 :: nat)"
    using char_below [of c] by (simp_all add: less_mult_imp_div_less)
  moreover have "char_of (16 * (of_char c div 16) + of_char c mod 16 :: nat) = c" by (simp del: mult_div_mod_eq add: mult_div_mod_eq)
  ultimately show ?thesis using True by (simp add: escape_char_def hex_value_upper)
next
  case False
  then have "c \<noteq> CHR ''%''" by (auto simp: shouldEscape_def alnum_def Let_def split: encoding.splits)
  with False show ?thesis by (simp add: escape_char_def)
qed

lemma unescape_escape: "mode \<noteq> EncodeQueryComponent \<Longrightarrow> unescape (escape mode s) = Some s"
  by (induction s) (simp_all add: escape_def unescape_char)

text \<open>A delimiter that a mode escapes does not occur in what it prints.\<close>

lemma escape_clean:
  assumes "d \<in> set ''@/?#:''" "shouldEscape mode d"
  shows "d \<notin> set (escape mode s)"
proof -
  have hex: "upper_hex n \<noteq> d" if "n < 16" for n
  proof -
    have "of_char (upper_hex n) \<in> {48 ..< 58} \<union> {65 ..< (71 :: nat)}" using that by (auto simp: upper_hex_def)
    with assms(1) show ?thesis by auto
  qed
  have "d \<notin> set (escape_char mode c)" for c
  proof (cases "shouldEscape mode c")
    case True
    have "of_char c div 16 < (16 :: nat)" "of_char c mod 16 < (16 :: nat)"
      using char_below [of c] by (simp_all add: less_mult_imp_div_less)
    with hex have "upper_hex (of_char c div 16) \<noteq> d" "upper_hex (of_char c mod 16) \<noteq> d" by blast+
    with True assms(1) show ?thesis by (auto simp: escape_char_def)
  next
    case False
    with assms(2) show ?thesis by (auto simp: escape_char_def)
  qed
  then show ?thesis by (simp add: escape_def)
qed

lemma escape_user_chars: "c \<in> set (escape EncodeUserPassword s) \<Longrightarrow> c \<notin> set ''@/?#:''"
  using escape_clean [of c EncodeUserPassword s] by (auto simp: shouldEscape_def alnum_def Let_def)

lemma escape_host_chars: "c \<in> set (escape EncodeHost s) \<Longrightarrow> c \<notin> set ''@/?#''"
  using escape_clean [of c EncodeHost s] by (auto simp: shouldEscape_def alnum_def Let_def)

lemma takeWhile_stop: "\<forall>x \<in> set s. P x \<Longrightarrow> \<not> P c \<Longrightarrow> takeWhile P (s @ c # t) = s \<and> dropWhile P (s @ c # t) = c # t"
  by (simp add: takeWhile_append dropWhile_append)

lemma read_userinfo_text:
  assumes "fst u \<noteq> []"
  shows "read_userinfo (userinfo_text u) = Some u"
proof -
  obtain n p where u: "u = (n, p)" by fastforce
  let ?e = "escape EncodeUserPassword"
  have clean: "\<forall>x \<in> set (?e s). x \<noteq> CHR '':''" for s using escape_user_chars by auto
  show ?thesis
  proof (cases p)
    case None
    have "dropWhile (\<lambda>x. x \<noteq> CHR '':'') (?e n) = []" using clean by simp
    with None u assms show ?thesis
      by (simp add: userinfo_text_def read_userinfo_def unescape_escape del: dropWhile_eq_Nil_conv)
  next
    case (Some q)
    with takeWhile_stop [OF clean, of "CHR '':''" n "?e q"] u assms show ?thesis
      by (simp add: userinfo_text_def read_userinfo_def unescape_escape)
  qed
qed

lemma userinfo_chars: "c \<in> set (userinfo_text u) \<Longrightarrow> c \<notin> set ''@/?#''"
  using escape_user_chars by (fastforce simp: userinfo_text_def split: if_splits option.splits)

lemma split_last_at: "c \<notin> set t \<Longrightarrow> split_last c (s @ c # t) = Some (s, t)"
proof -
  assume "c \<notin> set t"
  then have "\<forall>x \<in> set (rev t). x \<noteq> c" by auto
  from takeWhile_stop [OF this, of c "rev s"] show ?thesis by (simp add: split_last_def)
qed

lemma escape_path_start: "escape EncodePath (CHR ''/'' # s) = CHR ''/'' # escape EncodePath s"
  by (simp add: escape_def escape_char_def shouldEscape_def alnum_def)

lemma read_url_text:
  assumes "fst user \<noteq> []" "sch = ''postgres''"
  shows "read_credentials (url_text sch user host (CHR ''/'' # p) q) = Some (user, escape EncodeHost host)"
proof -
  let ?auth = "userinfo_text user @ CHR ''@'' # escape EncodeHost host"
  have clean: "\<forall>c \<in> set ?auth. c \<notin> set ''/?#''"
    using userinfo_chars [of _ user] escape_host_chars [of _ host] by (auto simp: Ball_def)
  have "authority (?auth @ CHR ''/'' # escape EncodePath p @ CHR ''?'' # q) = ?auth"
    unfolding authority_def by (rule takeWhile_stop [THEN conjunct1, OF clean]) simp
  moreover have "split_last (CHR ''@'') ?auth = Some (userinfo_text user, escape EncodeHost host)"
    by (rule split_last_at) (use escape_host_chars in auto)
  ultimately show ?thesis
    using read_userinfo_text [OF assms(1)] by (simp add: read_credentials_def url_text_def escape_path_start assms(2))
qed

lemma or_text_nonempty: "d \<noteq> [] \<Longrightarrow> or_text v d \<noteq> []"
  by (simp add: or_text_def)

lemma storeEnv_preferred:
  "trim_space (getenv (''BASELINE_STORE_'' @ field)) \<noteq> [] \<Longrightarrow> storeEnv getenv field = trim_space (getenv (''BASELINE_STORE_'' @ field))"
  "trim_space (getenv (''BASELINE_STORE_'' @ field)) = [] \<Longrightarrow> storeEnv getenv field = trim_space (getenv (''FORECAST_STORE_'' @ field))"
  by (simp_all add: storeEnv_def Let_def)

section \<open>Properties\<close>

text \<open>
  C24: The credentials stay in their place: whatever bytes the user, the password and the host have, a
  parser that splits the DSN at its delimiters and decodes the percent escapes reads back exactly the
  user and the password that the environment gives, and the rest of the authority is the host and port.
\<close>

theorem dsn_credentials:
  assumes "storeEnv getenv ''URL'' = []" "storeEnv getenv ''HOST'' \<noteq> []"
  shows "read_credentials (storeDSN getenv) =
    Some ((or_text (storeEnv getenv ''USER'') ''overlay'',
           if storeEnv getenv ''PASSWORD'' = [] then None else Some (storeEnv getenv ''PASSWORD'')),
          escape EncodeHost (storeEnv getenv ''HOST'' @ '':'' @ or_text (storeEnv getenv ''PORT'') ''5432''))"
  using assms
  by (simp add: storeDSN_def Let_def read_url_text or_text_nonempty)

text \<open>A password that looks like the rest of a URL.\<close>

definition demo_env :: "string \<Rightarrow> string" where
  "demo_env name =
     (if name = ''BASELINE_STORE_HOST'' then ''db'' else if name = ''FORECAST_STORE_PASSWORD'' then ''p@evil/x?:#%'' else [])"

lemma demo_env_fields:
  "storeEnv demo_env ''URL'' = []" "storeEnv demo_env ''HOST'' = ''db''" "storeEnv demo_env ''USER'' = []"
  "storeEnv demo_env ''PORT'' = []" "storeEnv demo_env ''PASSWORD'' = ''p@evil/x?:#%''"
  by (simp_all add: storeEnv_def demo_env_def trim_graphic graphic_def)

theorem dsn_credentials_witness:
  "read_credentials (storeDSN demo_env) = Some ((''overlay'', Some ''p@evil/x?:#%''), ''db:5432'')"
proof -
  have "escape EncodeHost ''db:5432'' = ''db:5432''"
    by (simp add: escape_def escape_char_def shouldEscape_def alnum_def)
  with dsn_credentials [of demo_env] show ?thesis by (simp add: demo_env_fields or_text_def)
qed

end
