(* ===== verification/Settings.thy ===== *)
theory Settings imports Config GoDuration StoreUrl
begin

text \<open>
  Reading the environment (\<open>ConfigFromEnv\<close>, \<open>envDuration\<close>, \<open>envInt\<close> of \<open>config.go\<close>).
  \<open>getenv\<close> is \<open>os.Getenv\<close>, which answers with the empty string for a variable that is not set;
  \<open>lower\<close> is \<open>strings.ToLower\<close>, a parameter because of its Unicode tables.
\<close>

record environment =
  getenv :: "string \<Rightarrow> string"
  lower :: "string \<Rightarrow> string"

definition setting :: "environment \<Rightarrow> string \<Rightarrow> string" where
  "setting env name = trim_space (getenv env name)"

text \<open>The value, or \<open>None\<close> when the variable is not set.\<close>

definition envDuration :: "environment \<Rightarrow> string \<Rightarrow> go_err + duration option" where
  "envDuration env name =
     (let v = setting env name in
      if v = [] then Inr None
      else case ParseDuration v of
             None \<Rightarrow> Inl (Wrap name (Err ''time: invalid duration''))
           | Some d \<Rightarrow> Inr (Some d))"

definition envInt :: "environment \<Rightarrow> string \<Rightarrow> go_err + int option" where
  "envInt env name =
     (let v = setting env name in
      if v = [] then Inr None
      else case parse_int64 v of
             None \<Rightarrow> Inl (Wrap name (Err ''strconv.Atoi: parsing''))
           | Some n \<Rightarrow> Inr (Some n))"

text \<open>The tables of the two loops: the variable, the field it sets and how it is set.\<close>

definition duration_table :: "(string \<times> (Config \<Rightarrow> duration) \<times> (duration \<Rightarrow> Config \<Rightarrow> Config)) list" where
  "duration_table =
     [(''LOOKBACK'', Lookback, \<lambda>v c. c\<lparr>Lookback := v\<rparr>),
      (''INTERVAL'', Interval, \<lambda>v c. c\<lparr>Interval := v\<rparr>),
      (''DRUID_MAX_RANGE'', DruidMaxRange, \<lambda>v c. c\<lparr>DruidMaxRange := v\<rparr>),
      (''DRUID_TIMEOUT'', DruidTimeout, \<lambda>v c. c\<lparr>DruidTimeout := v\<rparr>),
      (''HASH_SCAN_TTL'', HashScanTTL, \<lambda>v c. c\<lparr>HashScanTTL := v\<rparr>),
      (''SCAN_RANGE'', ScanRange, \<lambda>v c. c\<lparr>ScanRange := v\<rparr>),
      (''SNAPSHOT_CACHE_TTL'', SnapshotCacheTTL, \<lambda>v c. c\<lparr>SnapshotCacheTTL := v\<rparr>),
      (''WORKER_TTL'', WorkerTTL, \<lambda>v c. c\<lparr>WorkerTTL := v\<rparr>),
      (''RETRAIN_RETRY'', RetrainRetry, \<lambda>v c. c\<lparr>RetrainRetry := v\<rparr>),
      (''RETRAIN_LEASE'', RetrainLease, \<lambda>v c. c\<lparr>RetrainLease := v\<rparr>),
      (''RETRAIN_RETRY_MAX'', RetrainRetryMax, \<lambda>v c. c\<lparr>RetrainRetryMax := v\<rparr>),
      (''SNAPSHOT_TTL'', SnapshotTTL, \<lambda>v c. c\<lparr>SnapshotTTL := v\<rparr>),
      (''STALE_AFTER'', StaleAfter, \<lambda>v c. c\<lparr>StaleAfter := v\<rparr>)]"

definition number_table :: "(string \<times> (Config \<Rightarrow> int) \<times> (int \<Rightarrow> Config \<Rightarrow> Config)) list" where
  "number_table =
     [(''AHEAD_MINUTES'', AheadMinutes, \<lambda>v c. c\<lparr>AheadMinutes := v\<rparr>),
      (''DRUID_RETRIES'', DruidRetries, \<lambda>v c. c\<lparr>DruidRetries := v\<rparr>),
      (''DRUID_MAX_RPS'', DruidMaxRPS, \<lambda>v c. c\<lparr>DruidMaxRPS := v\<rparr>),
      (''DRUID_MAX_INFLIGHT'', DruidMaxInflight, \<lambda>v c. c\<lparr>DruidMaxInflight := v\<rparr>),
      (''TRAIN_CONCURRENCY'', TrainConcurrency, \<lambda>v c. c\<lparr>TrainConcurrency := v\<rparr>)]"

fun read_fields :: "(string \<Rightarrow> go_err + int option) \<Rightarrow> (string \<times> (Config \<Rightarrow> int) \<times> (int \<Rightarrow> Config \<Rightarrow> Config)) list
    \<Rightarrow> Config \<Rightarrow> go_err + Config" where
  "read_fields read [] c = Inr c"
| "read_fields read ((name, get, put) # table) c =
     (case read name of
        Inl e \<Rightarrow> Inl e
      | Inr None \<Rightarrow> read_fields read table c
      | Inr (Some v) \<Rightarrow> read_fields read table (put v c))"

definition initial_config :: "environment \<Rightarrow> Config" where
  "initial_config env =
     \<lparr>DruidBroker = setting env ''DRUID_BROKER'', DruidDatasource = setting env ''DRUID_DATASOURCE'',
      KafkaBrokers = splitList (getenv env ''KAFKA_BROKERS''), KafkaTopic = setting env ''KAFKA_TOPIC'',
      Lookback = defaultLookback, AheadMinutes = defaultAheadMinutes, Interval = defaultInterval,
      Calendar = setting env ''CALENDAR'', DruidMaxRange = 0, DruidTimeout = defaultDruidTimeout,
      DruidRetries = defaultDruidRetries, DruidMaxRPS = defaultDruidRPS, DruidMaxInflight = defaultDruidInflight,
      DruidAuthHeader = setting env ''DRUID_AUTH_HEADER'', DruidAuthValue = setting env ''DRUID_AUTH_VALUE'',
      HashScanTTL = defaultHashScanTTL, ScanRange = 0, TrainConcurrency = defaultTrainConcurrency,
      SnapshotCacheTTL = defaultSnapshotCacheTTL, RetrainRetry = defaultRetrainRetry, RetrainLease = 0,
      RetrainRetryMax = 0, WorkerTTL = 0, DefaultRetrainCron = defaultRetrainCron,
      StoreDSN = storeDSN (getenv env), SnapshotTTL = defaultSnapshotTTL, StaleAfter = defaultStaleAfter,
      ShardID = setting env ''SHARD_ID'', ShardPeers = splitList (getenv env ''SHARD_PEERS''),
      ShardDNS = setting env ''SHARD_DNS'', ShardMembership = setting env ''SHARD_MEMBERSHIP'',
      LogLevel = ''info''\<rparr>"

text \<open>The four assignments between the literal and the loops.\<close>

definition text_settings :: "environment \<Rightarrow> Config \<Rightarrow> Config" where
  "text_settings env c =
     (let c = (if DruidDatasource c = [] then c\<lparr>DruidDatasource := defaultDatasource\<rparr> else c);
          c = (if KafkaTopic c = [] then c\<lparr>KafkaTopic := defaultTopic\<rparr> else c);
          level = lower env (setting env ''LOG_LEVEL'');
          c = (if level \<noteq> [] then c\<lparr>LogLevel := level\<rparr> else c);
          cron = setting env ''DEFAULT_RETRAIN_CRON''
      in if cron \<noteq> [] then c\<lparr>DefaultRetrainCron := cron\<rparr> else c)"

definition ConfigFromEnv :: "environment \<Rightarrow> go_err + Config" where
  "ConfigFromEnv env =
     (case read_fields (envDuration env) duration_table (text_settings env (initial_config env)) of
        Inl e \<Rightarrow> Inl e
      | Inr c \<Rightarrow> read_fields (envInt env) number_table c)"

section \<open>Lemmas\<close>

text \<open>
  A table of fields: what is set is read back, and setting a field leaves the others alone.
\<close>

definition good_table :: "(string \<times> (Config \<Rightarrow> int) \<times> (int \<Rightarrow> Config \<Rightarrow> Config)) list \<Rightarrow> bool" where
  "good_table table \<longleftrightarrow> (\<forall>(n, get, put) \<in> set table. \<forall>v c. get (put v c) = v)
     \<and> sorted_wrt (\<lambda>(n, get, put) (n', get', put'). \<forall>v c. get (put' v c) = get c \<and> get' (put v c) = get' c) table"

lemma good_tables: "good_table duration_table" "good_table number_table"
  by (simp_all add: good_table_def duration_table_def number_table_def)

text \<open>What a field holds after the loop.\<close>

definition holds :: "(string \<Rightarrow> go_err + int option) \<Rightarrow> string \<Rightarrow> int \<Rightarrow> int \<Rightarrow> bool" where
  "holds read name dflt v \<longleftrightarrow> (case read name of Inl e \<Rightarrow> False | Inr None \<Rightarrow> v = dflt | Inr (Some w) \<Rightarrow> v = w)"

lemma read_fields_frame:
  assumes "read_fields read table c = Inr c'" "\<forall>(n, get, put) \<in> set table. \<forall>v c. g (put v c) = g c"
  shows "g c' = g c"
  using assms
  by (induction read table c rule: read_fields.induct) (auto split: sum.splits option.splits)

lemma read_fields_holds:
  assumes "read_fields read table c = Inr c'" "good_table table" "(name, get, put) \<in> set table"
  shows "holds read name (get c) (get c')"
  using assms
proof (induction read table c rule: read_fields.induct)
  case (2 read n g s table c)
  have tail: "good_table table" using "2.prems"(2) by (auto simp: good_table_def)
  have apart: "\<forall>(n', get', put') \<in> set table. \<forall>v c. g (put' v c) = g c \<and> get' (s v c) = get' c"
    and own: "g (s v c) = v" for v c using "2.prems"(2) by (auto simp: good_table_def)
  obtain r where r: "read n = Inr r" using "2.prems"(1) by (auto split: sum.splits)
  show ?case
  proof (cases "(name, get, put) = (n, g, s)")
    case True
    then show ?thesis
      using "2.prems"(1) r apart own read_fields_frame [of read table _ c' g]
      by (fastforce simp: holds_def split: option.splits)
  next
    case False
    then have "(name, get, put) \<in> set table" using "2.prems"(3) by auto
    moreover from this apart have "get (s v c) = get c" for v by fastforce
    ultimately show ?thesis
      using "2.IH" tail "2.prems"(1) r by (cases r) auto
  qed
qed simp

lemma read_fields_fails:
  "(\<exists>e. read_fields read table c = Inl e) \<longleftrightarrow> (\<exists>f \<in> set table. isl (read (fst f)))"
  by (induction read table c rule: read_fields.induct) (auto split: sum.splits option.splits)

lemma text_settings_kept:
  "get (text_settings env c) = get c"
  if "\<And>v c. get (c\<lparr>DruidDatasource := v\<rparr>) = get c" "\<And>v c. get (c\<lparr>KafkaTopic := v\<rparr>) = get c"
    "\<And>v c. get (c\<lparr>LogLevel := v\<rparr>) = get c" "\<And>v c. get (c\<lparr>DefaultRetrainCron := v\<rparr>) = get c"
  using that by (simp add: text_settings_def Let_def)

lemmas base_defs = defaultLookback_def defaultAheadMinutes_def defaultInterval_def maxAheadMinutes_def
  defaultTopic_def defaultDatasource_def defaultDruidRetries_def defaultDruidRPS_def defaultSnapshotTTL_def defaultStaleAfter_def

definition only_required :: "environment \<Rightarrow> bool" where
  "only_required env \<longleftrightarrow> (\<forall>name. name \<noteq> ''DRUID_BROKER'' \<longrightarrow> name \<noteq> ''KAFKA_BROKERS'' \<longrightarrow> getenv env name = [])"

text \<open>What the environment gives when only the two required variables are set.\<close>

definition plain_config :: "string \<Rightarrow> string list \<Rightarrow> Config" where
  "plain_config broker brokers =
     \<lparr>DruidBroker = broker, DruidDatasource = defaultDatasource, KafkaBrokers = brokers, KafkaTopic = defaultTopic,
      Lookback = defaultLookback, AheadMinutes = defaultAheadMinutes, Interval = defaultInterval,
      Calendar = [], DruidMaxRange = 0, DruidTimeout = defaultDruidTimeout,
      DruidRetries = defaultDruidRetries, DruidMaxRPS = defaultDruidRPS, DruidMaxInflight = defaultDruidInflight,
      DruidAuthHeader = [], DruidAuthValue = [], HashScanTTL = defaultHashScanTTL, ScanRange = 0,
      TrainConcurrency = defaultTrainConcurrency, SnapshotCacheTTL = defaultSnapshotCacheTTL,
      RetrainRetry = defaultRetrainRetry, RetrainLease = 0, RetrainRetryMax = 0, WorkerTTL = 0,
      DefaultRetrainCron = defaultRetrainCron, StoreDSN = [], SnapshotTTL = defaultSnapshotTTL,
      StaleAfter = defaultStaleAfter, ShardID = [], ShardPeers = [], ShardDNS = [], ShardMembership = [],
      LogLevel = ''info''\<rparr>"

lemma required_config:
  assumes "only_required env"
    and "lower env [] = []"
  shows "ConfigFromEnv env = Inr (plain_config (setting env ''DRUID_BROKER'') (splitList (getenv env ''KAFKA_BROKERS'')))"
proof -
  have unset: "setting env name = []" if "name \<noteq> ''DRUID_BROKER''" "name \<noteq> ''KAFKA_BROKERS''" for name
    using assms(1) that by (simp add: setting_def only_required_def)
  have peers: "splitList (getenv env ''SHARD_PEERS'') = []" using assms(1) by (simp add: splitList_def only_required_def)
  have "storeEnv (getenv env) field = []" for field
    using assms(1) by (simp add: storeEnv_def Let_def only_required_def)
  then have dsn: "storeDSN (getenv env) = []" by (simp add: storeDSN_def)
  have "text_settings env (initial_config env)
      = plain_config (setting env ''DRUID_BROKER'') (splitList (getenv env ''KAFKA_BROKERS''))"
    using assms(2) by (simp add: text_settings_def initial_config_def plain_config_def unset peers dsn)
  then show ?thesis
    by (simp add: ConfigFromEnv_def duration_table_def number_table_def envDuration_def envInt_def unset)
qed

lemma tables_are_read:
  "case ConfigFromEnv env of
     Inl e \<Rightarrow> list_ex (\<lambda>(name, get, put). isl (envDuration env name)) duration_table
              \<or> list_ex (\<lambda>(name, get, put). isl (envInt env name)) number_table
   | Inr c \<Rightarrow>
       list_all (\<lambda>(name, get, put). holds (envDuration env) name (get (initial_config env)) (get c)) duration_table
       \<and> list_all (\<lambda>(name, get, put). holds (envInt env) name (get (initial_config env)) (get c)) number_table"
proof (cases "ConfigFromEnv env")
  case (Inl e)
  then have "(\<exists>f \<in> set duration_table. isl (envDuration env (fst f))) \<or> (\<exists>f \<in> set number_table. isl (envInt env (fst f)))"
    using read_fields_fails unfolding ConfigFromEnv_def by (metis (no_types, lifting) sum.case_eq_if sum.collapse(1) sum.collapse(2) old.sum.exhaust)
  with Inl show ?thesis by (fastforce simp: list_ex_iff)
next
  case (Inr c)
  let ?c0 = "text_settings env (initial_config env)"
  obtain c1 where c1: "read_fields (envDuration env) duration_table ?c0 = Inr c1"
    and c: "read_fields (envInt env) number_table c1 = Inr c"
    using Inr by (auto simp: ConfigFromEnv_def split: sum.splits)
  have start: "list_all (\<lambda>(name, get, put). get ?c0 = get (initial_config env)) (duration_table @ number_table)"
    by (simp add: duration_table_def number_table_def text_settings_kept)
  have later: "get c = get c1" if "(name, get, put) \<in> set duration_table" for name get put
    by (rule read_fields_frame [OF c]) (use that in \<open>auto simp: duration_table_def number_table_def\<close>)
  have earlier: "get c1 = get ?c0" if "(name, get, put) \<in> set number_table" for name get put
    by (rule read_fields_frame [OF c1]) (use that in \<open>auto simp: duration_table_def number_table_def\<close>)
  have same: "get ?c0 = get (initial_config env)" if "(name, get, put) \<in> set (duration_table @ number_table)" for name get put
    using bspec [OF start [unfolded list_all_iff] that] by simp
  have "holds (envDuration env) name (get (initial_config env)) (get c)" if "(name, get, put) \<in> set duration_table" for name get put
    using read_fields_holds [OF c1 good_tables(1) that] later [OF that] same [of name get put] that by simp
  moreover have "holds (envInt env) name (get (initial_config env)) (get c)" if "(name, get, put) \<in> set number_table" for name get put
    using read_fields_holds [OF c good_tables(2) that] earlier [OF that] same [of name get put] that by simp
  ultimately show ?thesis using Inr by (auto simp: list_all_iff)
qed

lemma default_values:
  "defaultLookback = 336 * hour" "defaultInterval = minute" "defaultDruidTimeout = 60 * second"
  "defaultHashScanTTL = 5 * minute" "defaultSnapshotCacheTTL = 60 * second" "defaultRetrainRetry = 5 * minute"
  "defaultSnapshotTTL = 72 * hour" "defaultStaleAfter = 24 * hour" "defaultAheadMinutes = 1"
  "defaultDruidRetries = 2" "defaultDruidRPS = 4" "defaultDruidInflight = 4" "defaultTrainConcurrency = 2"
  by (simp_all add: default_defs base_defs)

section \<open>Properties\<close>


lemma required_settings_valid:
  assumes "only_required env"
    and "setting env ''DRUID_BROKER'' \<noteq> []" "splitList (getenv env ''KAFKA_BROKERS'') \<noteq> []" "lower env [] = []"
    and "url_parse (setting env ''DRUID_BROKER'') = Some (sch, host)" "sch \<noteq> []" "host \<noteq> []"
    and "cron_parse defaultRetrainCron = Inr sched"
    and "time_sub (sched ''Local'' (sched ''Local'' now)) (sched ''Local'' now) < defaultSnapshotTTL"
  shows "\<exists>c. ConfigFromEnv env = Inr c \<and> Validate url_parse cron_parse now c = None \<and> StoreDSN c = []
    \<and> DruidDatasource c = ''metrics'' \<and> KafkaTopic c = ''baselines''
    \<and> Lookback (normalized c) = 336 * hour \<and> Interval (normalized c) = minute \<and> ScanRange (normalized c) = 672 * hour
    \<and> WorkerTTL (normalized c) = 2 * minute \<and> RetrainRetryMax (normalized c) = hour"
proof -
  let ?c = "plain_config (setting env ''DRUID_BROKER'') (splitList (getenv env ''KAFKA_BROKERS''))"
  note c = plain_config_def [of "setting env ''DRUID_BROKER''" "splitList (getenv env ''KAFKA_BROKERS'')"]
  have "check_broker url_parse ?c = None"
    using assms(2,5,6,7) unfolding c by (simp add: check_broker_def setting_def)
  moreover have "check_cron cron_parse now ?c = None"
    using assms(8,9) unfolding c by (simp add: check_cron_def Let_def)
  moreover have "datasourceName defaultDatasource"
    by (simp add: datasourceName_def defaultDatasource_def datasource_char_def)
  ultimately show ?thesis
    using assms(3) required_config [OF assms(1,4)] unfolding Validate_def first_error_None
    by (intro exI [of _ ?c]) (simp add: c check_workerTTL_def check_staleAfter_def check_membership_def retryBase_def
        default_defs base_defs unit_defs in64_bounds normalized_fields normalized_retryMax or_default_def)
qed

text \<open>
  The two required variables are enough: with \<open>DRUID_BROKER\<close> and \<open>KAFKA_BROKERS\<close> set and nothing
  else, the configuration is read, \<open>Validate\<close> accepts it, and normalized it runs stateless with the
  documented defaults.
\<close>

theorem required_settings_suffice:
  assumes "only_required env"
    and "setting env ''DRUID_BROKER'' \<noteq> []" "splitList (getenv env ''KAFKA_BROKERS'') \<noteq> []" "lower env [] = []"
    and "url_parse (setting env ''DRUID_BROKER'') = Some (sch, host)" "sch \<noteq> []" "host \<noteq> []"
    and "cron_parse defaultRetrainCron = Inr sched"
    and "time_sub (sched ''Local'' (sched ''Local'' now)) (sched ''Local'' now) < defaultSnapshotTTL"
  shows "\<exists>c. ConfigFromEnv env = Inr c \<and> Validate url_parse cron_parse now c = None \<and> StoreDSN c = []
    \<and> DruidDatasource c = ''metrics'' \<and> KafkaTopic c = ''baselines''
    \<and> Lookback (normalized c) = 336 * hour \<and> Interval (normalized c) = minute \<and> ScanRange (normalized c) = 672 * hour
    \<and> WorkerTTL (normalized c) = 2 * minute \<and> RetrainRetryMax (normalized c) = hour"
  using assms by (rule required_settings_valid)

text \<open>An environment with the two variables only.\<close>

definition two_settings :: environment where
  "two_settings = \<lparr>getenv = (\<lambda>name. if name = ''DRUID_BROKER'' then '' http://broker:8082''
     else if name = ''KAFKA_BROKERS'' then ''kafka:9092'' else []), lower = (\<lambda>s. s)\<rparr>"

lemma two_settings_facts:
  "only_required two_settings"
  "setting two_settings ''DRUID_BROKER'' \<noteq> []" "splitList (getenv two_settings ''KAFKA_BROKERS'') \<noteq> []"
  "lower two_settings [] = []"
proof -
  show "setting two_settings ''DRUID_BROKER'' \<noteq> []" by code_simp
qed (simp_all add: two_settings_def only_required_def splitList_def trim_graphic graphic_def)

theorem required_settings_suffice_witness:
  "\<exists>c. ConfigFromEnv two_settings = Inr c
     \<and> Validate (\<lambda>u. Some (''http'', ''broker:8082'')) (\<lambda>s. Inr (\<lambda>z t. t + 24 * hour)) 0 c = None
     \<and> Lookback (normalized c) = 336 * hour"
proof -
  have gap: "time_sub (0 + 24 * hour + 24 * hour) (0 + 24 * hour) < defaultSnapshotTTL"
    by (simp add: time_sub_exact unit_defs base_defs in64_bounds)
  from required_settings_suffice [of two_settings "\<lambda>u. Some (''http'', ''broker:8082'')" "''http''" "''broker:8082''"
      "\<lambda>s. Inr (\<lambda>z t. t + 24 * hour)" "\<lambda>z t. t + 24 * hour" 0, OF two_settings_facts] gap
  show ?thesis by auto
qed

end
