(* ===== verification/Windows.thy ===== *)
theory Windows imports Prelude
begin

text \<open>
  Slicing a query range (\<open>windowCount\<close> and \<open>windows\<close> in \<open>druid.go\<close>). The loop
  of \<open>windows\<close> is \<open>windows_loop\<close>; it is entered with a positive range only, which is
  the guard that makes it stop.
\<close>

type_synonym window = "instant \<times> instant"

definition maxDruidWindows :: int where
  "maxDruidWindows = 1048576"

definition windowCount :: "instant \<Rightarrow> instant \<Rightarrow> duration \<Rightarrow> int" where
  "windowCount from to maxRange =
     (let span = time_sub to from in
      if maxRange \<le> 0 \<or> span \<le> 0 then 1
      else let n = go_div span maxRange
           in if go_mod span maxRange \<noteq> 0 then i64 (n + 1) else n)"

function windows_loop :: "instant \<Rightarrow> instant \<Rightarrow> duration \<Rightarrow> window list" where
  "windows_loop lo to maxRange =
     (if lo < to \<and> 0 < maxRange
      then let hi = time_add lo maxRange;
               hi = (if to < hi then to else hi)
           in (lo, hi) # windows_loop hi to maxRange
      else [])"
  by pat_completeness auto
termination
  by (relation "measure (\<lambda>(lo, to, maxRange). nat (to - lo))") (auto simp: time_add_def)

declare windows_loop.simps [simp del]

text \<open>A span that needs too many requests is refused with its span, range and count.\<close>

datatype window_error = TooManyWindows duration duration int

definition windows :: "instant \<Rightarrow> instant \<Rightarrow> duration \<Rightarrow> window_error + window list" where
  "windows from to maxRange =
     (if maxRange \<le> 0 \<or> \<not> from < to then Inr [(from, to)]
      else let n = windowCount from to maxRange in
           if maxDruidWindows < n then Inl (TooManyWindows (time_sub to from) maxRange n)
           else Inr (windows_loop from to maxRange))"

text \<open>
  The same loop as the code writes it, without the guard: it appends to \<open>out\<close> while \<open>lo\<close> is
  before \<open>to\<close>. Not returning is \<open>None\<close>. \<open>windows_code\<close> is the whole function on it.
\<close>

partial_function (option) windows_run :: "instant \<Rightarrow> instant \<Rightarrow> duration \<Rightarrow> window list \<Rightarrow> window list option" where
  "windows_run lo to maxRange out =
     (if lo < to
      then let hi = time_add lo maxRange;
               hi = (if to < hi then to else hi)
           in windows_run hi to maxRange (out @ [(lo, hi)])
      else Some out)"

definition windows_code :: "instant \<Rightarrow> instant \<Rightarrow> duration \<Rightarrow> (window_error + window list) option" where
  "windows_code from to maxRange =
     (if maxRange \<le> 0 \<or> \<not> from < to then Some (Inr [(from, to)])
      else let n = windowCount from to maxRange in
           if maxDruidWindows < n then Some (Inl (TooManyWindows (time_sub to from) maxRange n))
           else map_option Inr (windows_run from to maxRange []))"

section \<open>Lemmas\<close>

text \<open>
  \<open>covers lo ws to\<close>: the windows are consecutive from \<open>lo\<close> to \<open>to\<close>, and none is
  empty.
\<close>

fun covers :: "instant \<Rightarrow> window list \<Rightarrow> instant \<Rightarrow> bool" where
  "covers lo [] to \<longleftrightarrow> lo = to"
| "covers lo ((a, b) # ws) to \<longleftrightarrow> a = lo \<and> lo < b \<and> covers b ws to"

definition in_window :: "instant \<Rightarrow> window \<Rightarrow> bool" where
  "in_window t w \<longleftrightarrow> fst w \<le> t \<and> t < snd w"

lemma covers_le: "covers lo ws to \<Longrightarrow> lo \<le> to"
proof (induction ws arbitrary: lo)
  case (Cons v ws)
  then show ?case by (cases v) fastforce
qed simp

lemma covers_in_range: "covers lo ws to \<Longrightarrow> w \<in> set ws \<Longrightarrow> lo \<le> fst w \<and> fst w < snd w \<and> snd w \<le> to"
proof (induction ws arbitrary: lo)
  case (Cons v ws)
  obtain a b where v: "v = (a, b)" by (cases v)
  with Cons.prems have b: "a = lo" "lo < b" "covers b ws to" by auto
  show ?case
  proof (cases "w = v")
    case True
    with v b covers_le show ?thesis by auto
  next
    case False
    with Cons.prems(2) Cons.IH [OF b(3)] b(2) show ?thesis by auto
  qed
qed simp

lemma covers_partition:
  "covers lo ws to \<Longrightarrow> lo \<le> t \<and> t < to \<longleftrightarrow> (\<exists>w \<in> set ws. in_window t w)"
proof (induction ws arbitrary: lo)
  case (Cons v ws)
  obtain a b where v: "v = (a, b)" by (cases v)
  with Cons.prems have b: "a = lo" "lo < b" "covers b ws to" by auto
  have "b \<le> to" using b(3) by (rule covers_le)
  have "(\<exists>w \<in> set (v # ws). in_window t w) \<longleftrightarrow> in_window t v \<or> b \<le> t \<and> t < to"
    using Cons.IH [OF b(3)] by auto
  also have "in_window t v \<longleftrightarrow> lo \<le> t \<and> t < b" using v b by (simp add: in_window_def)
  finally show ?case using b(2) \<open>b \<le> to\<close> by auto
qed auto

text \<open>Windows at different positions share no instant.\<close>

lemma covers_disjoint:
  "covers lo ws to \<Longrightarrow> i < j \<Longrightarrow> j < length ws \<Longrightarrow> snd (ws ! i) \<le> fst (ws ! j)"
proof (induction ws arbitrary: lo i j)
  case (Cons v ws)
  obtain a b where v: "v = (a, b)" by (cases v)
  with Cons.prems have b: "covers b ws to" by auto
  obtain j' where j: "j = Suc j'" using Cons.prems(2) by (cases j) auto
  show ?case
  proof (cases i)
    case 0
    have "ws ! j' \<in> set ws" using Cons.prems(3) j by simp
    then show ?thesis using covers_in_range [OF b] 0 v j by simp
  next
    case (Suc i')
    with Cons j b show ?thesis by simp
  qed
qed simp

lemma windows_loop_covers: "lo \<le> to \<Longrightarrow> 0 < mr \<Longrightarrow> covers lo (windows_loop lo to mr) to"
proof (induction lo to mr rule: windows_loop.induct)
  case (1 lo to mr)
  then show ?case
    by (subst windows_loop.simps) (auto simp: Let_def time_add_def)
qed

lemma windows_loop_span: "w \<in> set (windows_loop lo to mr) \<Longrightarrow> snd w - fst w \<le> mr"
proof (induction lo to mr rule: windows_loop.induct)
  case (1 lo to mr)
  then show ?case
    by (subst (asm) (2) windows_loop.simps) (auto simp: Let_def time_add_def split: if_splits)
qed

text \<open>The number of windows is the rounded-up quotient the arithmetic computes.\<close>

lemma windows_loop_length:
  "lo < to \<Longrightarrow> 0 < mr \<Longrightarrow> int (length (windows_loop lo to mr)) = (to - lo + mr - 1) div mr"
proof (induction lo to mr rule: windows_loop.induct)
  case (1 lo to mr)
  show ?case
  proof (cases "lo + mr < to")
    case True
    with "1.prems" have unfold: "windows_loop lo to mr = (lo, lo + mr) # windows_loop (lo + mr) to mr"
      by (subst windows_loop.simps) (simp add: Let_def time_add_def)
    have "int (length (windows_loop (lo + mr) to mr)) = (to - (lo + mr) + mr - 1) div mr"
      using "1.IH" "1.prems" True by (simp add: time_add_def)
    moreover have "to - lo + mr - 1 = (to - (lo + mr) + mr - 1) + mr" by simp
    then have "(to - lo + mr - 1) div mr = (to - (lo + mr) + mr - 1) div mr + 1"
      using "1.prems"(2) by (simp only: div_add_self2)
    ultimately show ?thesis using unfold by simp
  next
    case False
    with "1.prems" have unfold: "windows_loop lo to mr = (lo, to) # windows_loop to to mr"
      by (subst windows_loop.simps) (auto simp: Let_def time_add_def)
    have "windows_loop to to mr = []" by (subst windows_loop.simps) simp
    moreover have "(to - lo + mr - 1) div mr = 1"
      using False "1.prems" by (intro int_div_pos_eq [of _ _ _ "to - lo - 1"]) auto
    ultimately show ?thesis using unfold by simp
  qed
qed

lemma windowCount_ceil:
  assumes "from < to" "0 < mr" "in64 (to - from)" "in64 mr"
  shows "windowCount from to mr = (to - from + mr - 1) div mr"
proof -
  define a where "a = to - from"
  have a: "0 < a" "time_sub to from = a" "a \<le> max64"
    using assms by (auto simp: a_def time_sub_exact in64_def)
  show ?thesis
  proof (cases "a mod mr = 0")
    case True
    then have "(a + mr - 1) div mr = a div mr"
      using assms(2) by (auto simp: mod_eq_0_iff_dvd intro!: int_div_pos_eq [of _ _ _ "mr - 1"])
    with True a assms(2) show ?thesis
      by (simp add: windowCount_def Let_def go_div_nonneg go_mod_nonneg flip: a_def)
  next
    case False
    have r: "0 \<le> a mod mr" "a mod mr < mr" "a div mr * mr + a mod mr = a"
      using assms(2) by simp_all
    have "1 < mr" using False assms(2) r by (cases "mr = 1") auto
    then have "a div mr < a" using a by (simp add: int_div_less_self)
    then have "in64 (a div mr + 1)"
      using a assms(2) by (auto simp: in64_def min64_def pos_imp_zdiv_nonneg_iff intro: order_trans)
    moreover have "(a + mr - 1) div mr = a div mr + 1"
      using r False by (intro int_div_pos_eq [of _ _ _ "a mod mr - 1"]) (auto simp: algebra_simps)
    ultimately show ?thesis using a assms(2) False
      by (simp add: windowCount_def Let_def go_div_nonneg go_mod_nonneg flip: a_def)
  qed
qed

lemma covers_exactly_once:
  assumes "covers lo ws to"
  shows "(lo \<le> t \<and> t < to) = (\<exists>!i. i < length ws \<and> in_window t (ws ! i))"
proof
  assume "lo \<le> t \<and> t < to"
  with covers_partition [OF assms] obtain i where i: "i < length ws" "in_window t (ws ! i)"
    by (auto simp: in_set_conv_nth)
  have "j = i" if j: "j < length ws" "in_window t (ws ! j)" for j
  proof (rule ccontr)
    assume "j \<noteq> i"
    then consider "i < j" | "j < i" by linarith
    then show False
      using covers_disjoint [OF assms, of i j] covers_disjoint [OF assms, of j i] i j
      by cases (auto simp: in_window_def)
  qed
  with i show "\<exists>!i. i < length ws \<and> in_window t (ws ! i)" by blast
next
  assume "\<exists>!i. i < length ws \<and> in_window t (ws ! i)"
  then show "lo \<le> t \<and> t < to" using covers_partition [OF assms] by (metis nth_mem)
qed

section \<open>Properties\<close>

text \<open>
  C27: The slices of a query range are a partition of it: consecutive, none empty, none longer than
  DRUID_MAX_RANGE, covering every instant of the half-open range exactly once, and as many as
  \<open>windowCount\<close> announces, which is at most \<open>maxDruidWindows\<close>.
\<close>

theorem windows_partition:
  assumes "windows from to mr = Inr ws" "from < to" "0 < mr" "in64 (to - from)" "in64 mr"
  shows "covers from ws to \<and> (\<forall>w \<in> set ws. snd w - fst w \<le> mr)
    \<and> (\<forall>t. (from \<le> t \<and> t < to) = (\<exists>!i. i < length ws \<and> in_window t (ws ! i)))
    \<and> int (length ws) = windowCount from to mr \<and> int (length ws) \<le> maxDruidWindows"
proof -
  have ws: "ws = windows_loop from to mr" "windowCount from to mr \<le> maxDruidWindows"
    using assms by (auto simp: windows_def Let_def split: if_splits)
  have cov: "covers from ws to" using assms(2,3) ws windows_loop_covers by simp
  have span: "\<forall>w \<in> set ws. snd w - fst w \<le> mr" using ws windows_loop_span by blast
  have len: "int (length ws) = windowCount from to mr"
    using assms ws windows_loop_length windowCount_ceil by simp
  have cnt: "int (length ws) \<le> maxDruidWindows" using len ws(2) by simp
  have uniq: "(from \<le> t \<and> t < to) = (\<exists>!i. i < length ws \<and> in_window t (ws ! i))" for t
    by (rule covers_exactly_once [OF cov])
  from cov span uniq len cnt show ?thesis by blast
qed

theorem windows_partition_witness:
  "windows 0 10 4 = Inr [(0, 4), (4, 8), (8, 10)] \<and> windowCount 0 10 4 = 3
   \<and> (\<exists>!i. i < length [(0 :: int, 4 :: int), (4, 8), (8, 10)] \<and> in_window 5 ([(0, 4), (4, 8), (8, 10)] ! i))"
proof -
  have w: "windows 0 10 4 = Inr [(0, 4), (4, 8), (8, 10)]"
    by (simp add: windows_def windowCount_def windows_loop.simps time_sub_def time_add_def go_div_def
        go_mod_def maxDruidWindows_def min64_def max64_def i64_def Let_def)
  have "in64 (10 - 0)" "in64 4" by (simp_all add: in64_bounds)
  with windows_partition [OF w] have part:
    "windowCount 0 10 4 = 3 \<and> (\<forall>t. (0 \<le> t \<and> t < 10)
       = (\<exists>!i. i < length [(0 :: int, 4 :: int), (4, 8), (8, 10)] \<and> in_window t ([(0, 4), (4, 8), (8, 10)] ! i)))"
    by simp
  have "\<exists>!i. i < length [(0 :: int, 4 :: int), (4, 8), (8, 10)] \<and> in_window 5 ([(0, 4), (4, 8), (8, 10)] ! i)"
    by (rule iffD1 [OF conjunct2 [OF part, rule_format, of 5]]) simp
  with w part show ?thesis by blast
qed

section \<open>The loop returns\<close>

lemma windows_run_returns:
  "0 < mr \<Longrightarrow> windows_run lo to mr out = Some (out @ windows_loop lo to mr)"
proof (induction lo to mr arbitrary: out rule: windows_loop.induct)
  case (1 lo to mr)
  then show ?case
    by (subst windows_run.simps, subst windows_loop.simps) (simp add: Let_def)
qed

lemma windows_run_diverges:
  assumes "windows_run lo to mr out = Some ws"
  shows "0 < mr \<or> \<not> lo < to"
  using assms
proof (rule windows_run.raw_induct [where P = "\<lambda>lo to mr out ws. 0 < mr \<or> \<not> lo < to", rotated])
  fix run lo to mr out ws
  assume IH: "\<And>lo to mr out ws. run lo to mr out = Some ws \<Longrightarrow> 0 < mr \<or> \<not> lo < to"
    and body: "(if lo < to
      then let hi = time_add lo mr; hi = if to < hi then to else hi in run hi to mr (out @ [(lo, hi)])
      else Some out) = Some ws"
  show "0 < mr \<or> \<not> lo < to"
  proof (cases "0 < mr \<or> \<not> lo < to")
    case False
    with body have "run (time_add lo mr) to mr (out @ [(lo, time_add lo mr)]) = Some ws"
      by (simp add: Let_def time_add_def)
    from IH [OF this] False show ?thesis by (simp add: time_add_def)
  qed
qed

text \<open>
  C37: \<open>windows\<close> returns for every range and every DRUID_MAX_RANGE, with the slices above. Its loop alone
  does not: it returns exactly when the range is empty or the slice is positive, which is what the guard in
  front of it checks.
\<close>

theorem windows_always_returns:
  "windows_code from to mr = Some (windows from to mr)
   \<and> ((windows_run from to mr out = None) = (mr \<le> 0 \<and> from < to))"
proof
  show "windows_code from to mr = Some (windows from to mr)"
    by (simp add: windows_code_def windows_def windows_run_returns Let_def)
  have "windows_run from to mr out = Some out" if "\<not> from < to"
    using that by (subst windows_run.simps) simp
  then show "(windows_run from to mr out = None) = (mr \<le> 0 \<and> from < to)"
    using windows_run_returns [of mr "from" to out] windows_run_diverges [of "from" to mr out] by fastforce
qed

end
