(* ===== verification/GoTime.thy ===== *)
theory GoTime imports Prelude "HOL-Library.Monad_Syntax"
begin

text \<open>
  \<open>time.Parse\<close> for the layouts \<open>RFC3339\<close> and \<open>RFC3339Nano\<close>, which accept the same
  texts: a four-digit year, two-digit fields (the hour may have one digit), an optional fraction of
  any length of which nine digits count, and a zone that is \<open>Z\<close> or a signed offset. Dates are
  proleptic Gregorian, and an instant is its nanoseconds since the Unix epoch.
\<close>

section \<open>The calendar\<close>

definition leap_year :: "int \<Rightarrow> bool" where
  "leap_year y \<longleftrightarrow> y mod 4 = 0 \<and> (y mod 100 \<noteq> 0 \<or> y mod 400 = 0)"

definition days_in_month :: "int \<Rightarrow> int \<Rightarrow> int" where
  "days_in_month y m =
     (if m = 2 then if leap_year y then 29 else 28
      else if m = 4 \<or> m = 6 \<or> m = 9 \<or> m = 11 then 30 else 31)"

text \<open>The days from the first day of year 0 to the first day of a year, and of a month.\<close>

definition days_before_year :: "int \<Rightarrow> int" where
  "days_before_year y = 365 * y + (y + 3) div 4 - (y + 99) div 100 + (y + 399) div 400"

definition days_before_month :: "int \<Rightarrow> int \<Rightarrow> int" where
  "days_before_month y m = sum_list (map (days_in_month y) [1 .. m - 1])"

definition civil_days :: "int \<Rightarrow> int \<Rightarrow> int \<Rightarrow> int" where
  "civil_days y m d = days_before_year y + days_before_month y m + d - 1 - 719528"

definition civil_instant :: "int \<Rightarrow> int \<Rightarrow> int \<Rightarrow> int \<Rightarrow> int \<Rightarrow> int \<Rightarrow> int \<Rightarrow> instant" where
  "civil_instant y mo d h mi s ns =
     (((civil_days y mo d * 24 + h) * 60 + mi) * 60 + s) * second + ns"

lemma civil_days_epoch: "civil_days 1970 1 1 = 0"
  by (simp add: civil_days_def days_before_year_def days_before_month_def)

text \<open>The calendar has no gaps: the day after the last of a month or a year is the next first.\<close>

lemma civil_days_next_month:
  "1 \<le> m \<Longrightarrow> civil_days y m (days_in_month y m) + 1 = civil_days y (m + 1) 1"
proof -
  assume "1 \<le> m"
  then have "[1 .. m] = [1 .. m - 1] @ [m]" using upto_rec2 [of 1 m] by simp
  then show ?thesis by (simp add: civil_days_def days_before_month_def)
qed

lemma div_step:
  fixes y k :: int
  assumes "0 < k" "j = k - 1"
  shows "(y + k) div k = (y + j) div k + (if y mod k = 0 then 1 else 0)"
proof -
  have up: "(y + k) div k = y div k + 1" using assms by simp
  have "y + (k - 1) = (y mod k + (k - 1)) + k * (y div k)" by simp
  then have down: "(y + (k - 1)) div k = (y mod k + (k - 1)) div k + y div k"
    using assms div_mult_self2 [of k "y mod k + (k - 1)" "y div k"] by simp
  have "(y + k) div k = (y + (k - 1)) div k + (if y mod k = 0 then 1 else 0)"
  proof (cases "y mod k = 0")
    case True
    then show ?thesis using up down assms(1) by simp
  next
    case False
    then have "0 < y mod k" "y mod k < k" using assms by (simp_all add: le_neq_trans)
    then have "(y mod k + (k - 1)) div k = (y mod k - 1 + k) div k" "(y mod k - 1) div k = 0"
      by (simp_all add: algebra_simps)
    then show ?thesis using up down assms(1) False by simp
  qed
  with assms(2) show ?thesis by simp
qed

lemma leap_sum:
  fixes a b c :: int
  assumes "A = a + (if p then 1 else 0)" "B = b + (if q then 1 else 0)" "C = c + (if r then 1 else 0)"
    and "r \<Longrightarrow> q" "q \<Longrightarrow> p"
  shows "x + 365 + A - B + C = x + a - b + c + 365 + (if p \<and> (\<not> q \<or> r) then 1 else 0)"
  using assms by auto

lemma mod_chain: "y mod 400 = 0 \<Longrightarrow> y mod 100 = 0" "y mod 100 = 0 \<Longrightarrow> y mod 4 = 0" for y :: int
proof -
  have "(100 :: int) dvd 400" "(4 :: int) dvd 100" by simp_all
  then show "y mod 400 = 0 \<Longrightarrow> y mod 100 = 0" "y mod 100 = 0 \<Longrightarrow> y mod 4 = 0"
    unfolding mod_eq_0_iff_dvd by (blast intro: dvd_trans)+
qed

lemma civil_days_next_year: "civil_days y 12 31 + 1 = civil_days (y + 1) 1 1"
proof -
  have "days_before_month y 12 = 334 + (if leap_year y then 1 else 0)"
    by (simp add: days_before_month_def days_in_month_def upto.simps)
  moreover have "days_before_year (y + 1) = days_before_year y + 365 + (if leap_year y then 1 else 0)"
  proof -
    have "y + 1 + 3 = y + 4" "y + 1 + 99 = y + 100" "y + 1 + 399 = y + 400" by simp_all
    then have succ: "days_before_year (y + 1) = 365 * y + 365 + (y + 4) div 4 - (y + 100) div 100 + (y + 400) div 400"
      by (simp only: days_before_year_def distrib_left mult_1_right)
    show ?thesis
      unfolding succ unfolding days_before_year_def leap_year_def
      by (rule leap_sum; (rule div_step mod_chain)?) (simp_all add: mod_chain)
  qed
  ultimately show ?thesis by (simp add: civil_days_def days_before_month_def)
qed

section \<open>The parser\<close>

definition digit_val :: "char \<Rightarrow> int" where
  "digit_val c = int (of_char c - 48)"

fun two_digits :: "string \<Rightarrow> (int \<times> string) option" where
  "two_digits (a # b # s) =
     (if digit_char a \<and> digit_char b then Some (10 * digit_val a + digit_val b, s) else None)"
| "two_digits s = None"

fun one_or_two_digits :: "string \<Rightarrow> (int \<times> string) option" where
  "one_or_two_digits (a # b # s) =
     (if \<not> digit_char a then None
      else if digit_char b then Some (10 * digit_val a + digit_val b, s)
      else Some (digit_val a, b # s))"
| "one_or_two_digits [a] = (if digit_char a then Some (digit_val a, []) else None)"
| "one_or_two_digits [] = None"

definition four_digits :: "string \<Rightarrow> (int \<times> string) option" where
  "four_digits s = do { (a, s) \<leftarrow> two_digits s; (b, s) \<leftarrow> two_digits s; Some (100 * a + b, s) }"

definition expect :: "char \<Rightarrow> string \<Rightarrow> string option" where
  "expect c s = (case s of [] \<Rightarrow> None | x # t \<Rightarrow> if x = c then Some t else None)"

text \<open>A fraction is a point or a comma and at least one digit; without one nothing is read.\<close>

definition parse_fraction :: "string \<Rightarrow> int \<times> string" where
  "parse_fraction s =
     (case s of
        p # t \<Rightarrow>
          let ds = takeWhile digit_char t; k = take 9 ds
          in if (p = CHR ''.'' \<or> p = CHR '','') \<and> ds \<noteq> []
             then (int (digits_value k 0) * 10 ^ (9 - length k), dropWhile digit_char t)
             else (0, s)
      | [] \<Rightarrow> (0, s))"

definition parse_zone :: "string \<Rightarrow> (int \<times> string) option" where
  "parse_zone s =
     (case s of
        [] \<Rightarrow> None
      | c # t \<Rightarrow>
          if c = CHR ''Z'' then Some (0, t)
          else do { (hr, t) \<leftarrow> two_digits t; t \<leftarrow> expect (CHR '':'') t; (mm, t) \<leftarrow> two_digits t;
                    if 24 < hr \<or> 60 < mm then None
                    else if c = CHR ''+'' then Some ((hr * 60 + mm) * 60, t)
                    else if c = CHR ''-'' then Some (- ((hr * 60 + mm) * 60), t)
                    else None })"

definition parse_rfc3339 :: "string \<Rightarrow> instant option" where
  "parse_rfc3339 s = do {
     (y, s) \<leftarrow> four_digits s; s \<leftarrow> expect (CHR ''-'') s;
     (mo, s) \<leftarrow> two_digits s; s \<leftarrow> expect (CHR ''-'') s;
     (d, s) \<leftarrow> two_digits s; s \<leftarrow> expect (CHR ''T'') s;
     (h, s) \<leftarrow> one_or_two_digits s; s \<leftarrow> expect (CHR '':'') s;
     (mi, s) \<leftarrow> two_digits s; s \<leftarrow> expect (CHR '':'') s;
     (sec, s) \<leftarrow> two_digits s;
     let (ns, s) = parse_fraction s;
     (off, s) \<leftarrow> parse_zone s;
     if s \<noteq> [] \<or> mo < 1 \<or> 12 < mo \<or> d < 1 \<or> days_in_month y mo < d \<or> 24 \<le> h \<or> 60 \<le> mi \<or> 60 \<le> sec then None
     else Some (civil_instant y mo d h mi sec ns - off * second) }"

section \<open>Lemmas: printed times are read back\<close>

text \<open>The text Druid prints for a timestamp: milliseconds, in UTC.\<close>

definition rfc3339_text :: "nat \<Rightarrow> nat \<Rightarrow> nat \<Rightarrow> nat \<Rightarrow> nat \<Rightarrow> nat \<Rightarrow> nat \<Rightarrow> string" where
  "rfc3339_text y mo d h mi s ms =
     pad_digits 4 y @ ''-'' @ pad_digits 2 mo @ ''-'' @ pad_digits 2 d @ ''T'' @ pad_digits 2 h @ '':''
     @ pad_digits 2 mi @ '':'' @ pad_digits 2 s @ ''.'' @ pad_digits 3 ms @ ''Z''"

definition dig :: "nat \<Rightarrow> char" where
  "dig n = char_of (48 + n)"

lemma dig_digit [simp]: "n < 10 \<Longrightarrow> digit_char (dig n)" "n < 10 \<Longrightarrow> digit_val (dig n) = int n"
  by (simp_all add: dig_def digit_char_def digit_val_def)

lemma digits_small: "n < 10 \<Longrightarrow> digits n = [dig n]" "10 \<le> n \<Longrightarrow> digits n = digits (n div 10) @ [dig (n mod 10)]"
  by (subst digits.simps; simp add: dig_def)+

lemma dig_0: "CHR ''0'' = dig 0"
  by code_simp

lemma pad_long: "10 \<le> n \<Longrightarrow> pad_digits (Suc k) n = pad_digits k (n div 10) @ [dig (n mod 10)]"
  by (simp add: pad_digits_def digits_small(2))

lemma pad_short: "n < 10 \<Longrightarrow> pad_digits (Suc k) n = replicate k (dig 0) @ [dig n]"
  by (simp add: pad_digits_def digits_small dig_0)

lemma replicate_pad: "0 < k \<Longrightarrow> replicate k (dig 0) = pad_digits k 0"
  by (cases k) (simp_all add: pad_short replicate_append_same)

lemma pad_Suc: "0 < k \<Longrightarrow> pad_digits (Suc k) n = pad_digits k (n div 10) @ [dig (n mod 10)]"
  by (cases "n < 10") (simp_all add: pad_long pad_short replicate_pad)

lemma pad_1: "n < 10 \<Longrightarrow> pad_digits 1 n = [dig n]"
  using pad_short [of n 0] by simp

lemma pads:
  "n < 100 \<Longrightarrow> pad_digits 2 n = [dig (n div 10), dig (n mod 10)]"
  "n < 1000 \<Longrightarrow> pad_digits 3 n = [dig (n div 100), dig (n div 10 mod 10), dig (n mod 10)]"
  "n < 10000 \<Longrightarrow> pad_digits 4 n = [dig (n div 1000), dig (n div 100 mod 10), dig (n div 10 mod 10), dig (n mod 10)]"
proof -
  have two: "pad_digits 2 m = [dig (m div 10), dig (m mod 10)]" if "m < 100" for m
    using pad_Suc [of 1 m] pad_1 [of "m div 10"] that by (simp add: numeral_2_eq_2)
  have three: "pad_digits 3 m = [dig (m div 100), dig (m div 10 mod 10), dig (m mod 10)]" if "m < 1000" for m
  proof -
    have "m div 10 div 10 = m div 100" by (simp add: div_mult2_eq [symmetric])
    then show ?thesis
      using pad_Suc [of 2 m] two [of "m div 10"] that by (simp add: numeral_3_eq_3)
  qed
  have "n div 10 div 100 = n div 1000" "n div 10 div 10 = n div 100" by (simp_all add: div_mult2_eq [symmetric])
  then show "n < 10000 \<Longrightarrow> pad_digits 4 n = [dig (n div 1000), dig (n div 100 mod 10), dig (n div 10 mod 10), dig (n mod 10)]"
    using pad_Suc [of 3 n] three [of "n div 10"] by simp
  show "n < 100 \<Longrightarrow> pad_digits 2 n = [dig (n div 10), dig (n mod 10)]" by (rule two)
  show "n < 1000 \<Longrightarrow> pad_digits 3 n = [dig (n div 100), dig (n div 10 mod 10), dig (n mod 10)]" by (rule three)
qed

text \<open>The fields of a printed time, one after the other.\<close>

lemma char_apart: "\<not> digit_char (CHR ''-'')" "\<not> digit_char (CHR '':'')" "\<not> digit_char (CHR ''.'')"
  "\<not> digit_char (CHR ''T'')" "\<not> digit_char (CHR ''Z'')"
  by code_simp+

lemma two_digits_pad: "n < 100 \<Longrightarrow> two_digits (pad_digits 2 n @ s) = Some (int n, s)"
  by (simp add: pads zdiv_int zmod_int)

lemma one_or_two_digits_pad: "n < 100 \<Longrightarrow> one_or_two_digits (pad_digits 2 n @ s) = Some (int n, s)"
  by (simp add: pads zdiv_int zmod_int)

lemma decimal: "100 * (n div 100) + 10 * (n div 10 mod 10) + n mod 10 = n"
  "10 * (n div 1000) + n div 100 mod 10 = n div 100" for n :: nat
proof -
  have "n div 100 = n div 10 div 10" "n div 1000 = n div 100 div 10" by (simp_all only: div_mult2_eq [symmetric]) simp_all
  with mult_div_mod_eq [of 10 n] mult_div_mod_eq [of 10 "n div 10"] mult_div_mod_eq [of 10 "n div 100"]
  show "100 * (n div 100) + 10 * (n div 10 mod 10) + n mod 10 = n" "10 * (n div 1000) + n div 100 mod 10 = n div 100"
    by linarith+
qed

lemma four_digits_pad: "n < 10000 \<Longrightarrow> four_digits (pad_digits 4 n @ s) = Some (int n, s)"
proof -
  assume n: "n < 10000"
  then have d: "n div 1000 < 10" by simp
  have "100 * (10 * int (n div 1000) + int (n div 100 mod 10)) + (10 * int (n div 10 mod 10) + int (n mod 10))
      = int (100 * (10 * (n div 1000) + n div 100 mod 10) + 10 * (n div 10 mod 10) + n mod 10)"
    by (simp only: of_nat_add of_nat_mult of_nat_numeral add.assoc)
  also have "\<dots> = int n" by (simp only: decimal)
  finally show ?thesis unfolding pads(3) [OF n] four_digits_def using d by simp
qed

lemma expect_Cons [simp]: "expect c (c # s) = Some s"
  by (simp add: expect_def)

lemma parse_fraction_pad:
  "n < 1000 \<Longrightarrow> s = [] \<or> \<not> digit_char (hd s) \<Longrightarrow> parse_fraction (CHR ''.'' # pad_digits 3 n @ s) = (int n * 1000000, s)"
proof -
  assume n: "n < 1000" and s: "s = [] \<or> \<not> digit_char (hd s)"
  from n have d: "digit_char (dig (n div 100))" "digit_char (dig (n div 10 mod 10))" "digit_char (dig (n mod 10))"
    by (simp_all add: less_mult_imp_div_less)
  have v: "digits_value [dig (n div 100), dig (n div 10 mod 10), dig (n mod 10)] 0 = n"
    using decimal(1) [of n] n by (simp add: dig_def)
  show ?thesis using n d v s by (cases s) (simp_all add: parse_fraction_def pads Let_def)
qed

lemma rfc3339_roundtrip:
  assumes "y < 10000" "mo < 100" "d < 100" "h < 24" "mi < 60" "s < 60" "ms < 1000"
    and "1 \<le> mo" "mo \<le> 12" "1 \<le> d" "int d \<le> days_in_month (int y) (int mo)"
  shows "parse_rfc3339 (rfc3339_text y mo d h mi s ms)
    = Some (civil_instant (int y) (int mo) (int d) (int h) (int mi) (int s) (int ms * 1000000))"
  using assms
  by (simp add: parse_rfc3339_def rfc3339_text_def four_digits_pad two_digits_pad one_or_two_digits_pad
      parse_fraction_pad char_apart parse_zone_def)

end
