(* ===== verification/Druid.thy ===== *)
theory Druid imports Windows GoTime Spans Config
begin

text \<open>
  The Druid reader (\<open>druid.go\<close>): its queries, the retry loop around one HTTP request, the reading
  of a reply and the merge of the scan windows. The HTTP client, the semaphore, the rate limiter and
  the sleeping timer act on a world \<open>'w\<close>; encoding/json, \<open>strconv.ParseFloat\<close>, \<open>fmt.Sprint\<close>
  and the timeseries library are parameters.
\<close>

section \<open>Values of a reply\<close>

text \<open>
  A decoded JSON value as the type switches of the source see it. The last constructor stands for the
  remaining types (booleans, arrays, objects), of which the code only uses the printed text.
\<close>

datatype any =
    ANil | AFloat f64 | AInt int | AInt64 int | ANumber string | AString string | AOther string

type_synonym row = "(string \<times> any) list"

text \<open>A column that is missing from a row reads as nil.\<close>

definition col :: "row \<Rightarrow> string \<Rightarrow> any" where
  "col r k = (case map_of r k of None \<Rightarrow> ANil | Some v \<Rightarrow> v)"

record text_lib =
  tl_sprint :: "any \<Rightarrow> string"
  tl_parse_float :: "string \<Rightarrow> f64 option"
  tl_of_int :: "int \<Rightarrow> f64"

fun asString :: "text_lib \<Rightarrow> any \<Rightarrow> string" where
  "asString tx ANil = []"
| "asString tx (AString s) = s"
| "asString tx (ANumber s) = s"
| "asString tx v = tl_sprint tx v"

definition float_text :: "text_lib \<Rightarrow> string \<Rightarrow> f64" where
  "float_text tx s = (case tl_parse_float tx s of None \<Rightarrow> F64_NaN | Some f \<Rightarrow> f)"

fun asFloat :: "text_lib \<Rightarrow> any \<Rightarrow> f64" where
  "asFloat tx (AFloat x) = x"
| "asFloat tx (AInt n) = tl_of_int tx n"
| "asFloat tx (AInt64 n) = tl_of_int tx n"
| "asFloat tx (ANumber s) = float_text tx s"
| "asFloat tx (AString s) = float_text tx (trim_space s)"
| "asFloat tx v = F64_NaN"

datatype time_error = EmptyTime | BadNumber string | BadTime string | UnsupportedTime any

definition replace_spaces :: "string \<Rightarrow> string" where
  "replace_spaces s = map (\<lambda>c. if c = CHR '' '' then CHR ''T'' else c) s"

definition parse_time_text :: "string \<Rightarrow> time_error + instant" where
  "parse_time_text x =
     (let s = trim_space x in
      if s = [] then Inl EmptyTime
      else case parse_rfc3339 s of
             Some t \<Rightarrow> Inr t
           | None \<Rightarrow>
               (case parse_rfc3339 (replace_spaces s) of
                  Some t \<Rightarrow> Inr t
                | None \<Rightarrow>
                    (let s = replace_spaces s;
                         s = (if CHR ''Z'' \<notin> set s \<and> CHR ''+'' \<notin> set s then s @ ''Z'' else s)
                     in case parse_rfc3339 s of None \<Rightarrow> Inl (BadTime s) | Some t \<Rightarrow> Inr t)))"

fun parseDruidTime :: "any \<Rightarrow> time_error + instant" where
  "parseDruidTime ANil = Inl EmptyTime"
| "parseDruidTime (AFloat x) = Inr (from_milli (f64_to_int x))"
| "parseDruidTime (AInt64 x) = Inr (from_milli x)"
| "parseDruidTime (ANumber s) =
     (case parse_int64 s of None \<Rightarrow> Inl (BadNumber s) | Some ms \<Rightarrow> Inr (from_milli ms))"
| "parseDruidTime (AString x) = parse_time_text x"
| "parseDruidTime v = Inl (UnsupportedTime v)"

section \<open>The store and its client\<close>

definition druidRetryBackoff :: duration where "druidRetryBackoff = 250 * millisecond"
definition druidRetryMaxBackoff :: duration where "druidRetryMaxBackoff = 2 * second"
definition maxDruidReplyBytes :: nat where "maxDruidReplyBytes = 64 * 1024 * 1024"

record druidStore =
  ds_broker :: string
  ds_datasource :: string
  ds_maxRange :: duration
  ds_maxReply :: nat
  ds_retries :: int
  ds_authHeader :: string
  ds_authValue :: string

definition trim_right_slashes :: "string \<Rightarrow> string" where
  "trim_right_slashes s = rev (dropWhile (\<lambda>c. c = CHR ''/'') (rev s))"

definition newDruidStore :: "Config \<Rightarrow> druidStore" where
  "newDruidStore cfg =
     (let cfg = normalized cfg
      in \<lparr>ds_broker = trim_right_slashes (DruidBroker cfg), ds_datasource = DruidDatasource cfg,
          ds_maxRange = DruidMaxRange cfg, ds_maxReply = maxDruidReplyBytes,
          ds_retries = DruidRetries cfg, ds_authHeader = DruidAuthHeader cfg,
          ds_authValue = DruidAuthValue cfg\<rparr>)"

record http_request =
  rq_url :: string
  rq_headers :: "(string \<times> string) list"
  rq_body :: string

record http_response =
  rs_code :: int
  rs_status :: string
  rs_body :: "string \<times> go_err option"

record 'w druid_io =
  io_marshal :: "string \<Rightarrow> go_err + string"
  io_unmarshal :: "string \<Rightarrow> go_err + row list"
  io_badURL :: "string \<Rightarrow> go_err option"
  io_acquire :: "'w \<Rightarrow> go_err option \<times> 'w"
  io_release :: "'w \<Rightarrow> 'w"
  io_wait :: "'w \<Rightarrow> go_err option \<times> 'w"
  io_sleep :: "duration \<Rightarrow> 'w \<Rightarrow> go_err option \<times> 'w"
  io_send :: "http_request \<Rightarrow> 'w \<Rightarrow> (go_err + http_response) \<times> 'w"

text \<open>\<open>sleepCtx\<close> is \<open>io_sleep\<close>: the timer fires or the context ends.\<close>

section \<open>One request\<close>

text \<open>The shift is on a 64-bit duration: bits pushed past the sign are lost.\<close>

definition retryBackoff :: "int \<Rightarrow> duration" where
  "retryBackoff attempt =
     (let d = i64 (druidRetryBackoff * 2 ^ nat (attempt - 1))
      in if d \<le> 0 \<or> druidRetryMaxBackoff < d then druidRetryMaxBackoff else d)"

definition druid_request :: "druidStore \<Rightarrow> string \<Rightarrow> http_request" where
  "druid_request d body =
     \<lparr>rq_url = ds_broker d @ ''/druid/v2/sql'',
      rq_headers = (''Content-Type'', ''application/json'')
        # (if ds_authHeader d \<noteq> [] then [(ds_authHeader d, ds_authValue d)] else []),
      rq_body = body\<rparr>"

text \<open>What a response means; the flag says whether a retry could succeed.\<close>

definition read_reply :: "druidStore \<Rightarrow> 'w druid_io \<Rightarrow> http_response \<Rightarrow> (go_err + row list) \<times> bool" where
  "read_reply d io resp =
     (case read_limited (ds_maxReply d + 1) (rs_body resp) of
        Inl e \<Rightarrow> (Inl e, True)
      | Inr raw \<Rightarrow>
          (let text = ''druid sql: '' @ rs_status resp @ '': '' @ trim_space raw in
           if ds_maxReply d < length raw
           then (Inl (Err (''druid sql reply exceeds '' @ format_int (int (ds_maxReply d)) @ '' bytes'')), False)
           else if 500 \<le> rs_code resp then (Inl (Err text), True)
           else if 300 \<le> rs_code resp then (Inl (Err text), False)
           else case io_unmarshal io raw of
                  Inl e \<Rightarrow> (Inl (Wrap ''druid sql decode'' e), False)
                | Inr rows \<Rightarrow> (Inr rows, False)))"

definition druid_do :: "druidStore \<Rightarrow> 'w druid_io \<Rightarrow> string \<Rightarrow> 'w \<Rightarrow> ((go_err + row list) \<times> bool) \<times> 'w" where
  "druid_do d io body w =
     (let rq = druid_request d body in
      case io_badURL io (rq_url rq) of
        Some e \<Rightarrow> ((Inl e, False), w)
      | None \<Rightarrow>
          (case io_send io rq w of
             (Inl e, w) \<Rightarrow> ((Inl e, True), w)
           | (Inr resp, w) \<Rightarrow> (read_reply d io resp, w)))"

section \<open>The retry loop\<close>

text \<open>
  \<open>n\<close> is the number of attempts left, \<open>attempt\<close> the number of the next one and \<open>lastErr\<close> the
  error of the one before; with no attempt at all the source returns no rows and no error.
\<close>

fun druid_attempts :: "druidStore \<Rightarrow> 'w druid_io \<Rightarrow> string \<Rightarrow> nat \<Rightarrow> int \<Rightarrow> go_err option \<Rightarrow> 'w
    \<Rightarrow> (go_err + row list) \<times> 'w" where
  "druid_attempts d io body 0 attempt lastErr w =
     (case lastErr of None \<Rightarrow> (Inr [], w) | Some e \<Rightarrow> (Inl e, w))"
| "druid_attempts d io body (Suc n) attempt lastErr w =
     (case (if 0 < attempt then io_sleep io (retryBackoff attempt) w else (None, w)) of
        (Some e, w) \<Rightarrow> (Inl e, w)
      | (None, w) \<Rightarrow>
          (case io_wait io w of
             (Some e, w) \<Rightarrow> (Inl e, w)
           | (None, w) \<Rightarrow>
               (case druid_do d io body w of
                  ((Inr rows, retryable), w) \<Rightarrow> (Inr rows, w)
                | ((Inl e, retryable), w) \<Rightarrow>
                    if retryable then druid_attempts d io body n (attempt + 1) (Some e) w
                    else (Inl e, w))))"

definition druid_sql :: "druidStore \<Rightarrow> 'w druid_io \<Rightarrow> string \<Rightarrow> 'w \<Rightarrow> (go_err + row list) \<times> 'w" where
  "druid_sql d io query w =
     (case io_marshal io query of
        Inl e \<Rightarrow> (Inl e, w)
      | Inr body \<Rightarrow>
          (case io_acquire io w of
             (Some e, w) \<Rightarrow> (Inl e, w)
           | (None, w) \<Rightarrow>
               (let (r, w) = druid_attempts d io body (nat (ds_retries d + 1)) 0 None w
                in (r, io_release io w))))"

section \<open>Queries\<close>

definition quote_char :: char where "quote_char = CHR 0x27"

text \<open>\<open>strings.ReplaceAll\<close> of a quote by two quotes.\<close>

definition sql_escape :: "string \<Rightarrow> string" where
  "sql_escape s = concat (map (\<lambda>c. if c = quote_char then [c, c] else [c]) s)"

definition time_filter :: "instant \<Rightarrow> instant \<Rightarrow> string" where
  "time_filter lo hi =
     ''__time >= MILLIS_TO_TIMESTAMP('' @ format_int (unix_milli lo) @ '') AND __time < MILLIS_TO_TIMESTAMP(''
     @ format_int (unix_milli hi) @ '')''"

definition series_query :: "druidStore \<Rightarrow> string \<Rightarrow> instant \<Rightarrow> instant \<Rightarrow> string" where
  "series_query d hash lo hi =
     ''SELECT __time, metric_value FROM '' @ ds_datasource d @ '' WHERE metric_hash = ''
     @ [quote_char] @ sql_escape hash @ [quote_char] @ '' AND '' @ time_filter lo hi @ '' ORDER BY __time''"

definition hashes_query :: "druidStore \<Rightarrow> instant \<Rightarrow> instant \<Rightarrow> string" where
  "hashes_query d lo hi =
     ''SELECT metric_hash, MIN(__time) AS tmin, MAX(__time) AS tmax FROM '' @ ds_datasource d
     @ '' WHERE '' @ time_filter lo hi @ '' GROUP BY 1''"

definition window_err :: "window_error \<Rightarrow> go_err" where
  "window_err e = (case e of TooManyWindows dur mr n \<Rightarrow>
     Err (''query span '' @ duration_text dur @ '' at DRUID_MAX_RANGE='' @ duration_text mr @ '' needs ''
          @ format_int n @ '' windows, above the '' @ format_int maxDruidWindows
          @ ''-window bound; raise DRUID_MAX_RANGE''))"

section \<open>Series\<close>

record 's ts_lib =
  ts_empty :: "'s"
  ts_new :: "instant list \<Rightarrow> f64 list \<Rightarrow> go_err + 's"
  ts_concat :: "'s \<Rightarrow> 's \<Rightarrow> go_err + 's"

text \<open>A row that cannot be placed in time is dropped; a missing value keeps its timestamp.\<close>

definition read_point :: "text_lib \<Rightarrow> row \<Rightarrow> (instant \<times> f64) option" where
  "read_point tx r =
     (case parseDruidTime (col r ''__time'') of
        Inl e \<Rightarrow> None
      | Inr t \<Rightarrow> Some (t, asFloat tx (col r ''metric_value'')))"

text \<open>
  The slices of a window are allocated for one row per minute; a negative size panics, which can only
  happen for a window that ends more than a minute before it starts.
\<close>

definition series_cap :: "instant \<Rightarrow> instant \<Rightarrow> int" where
  "series_cap lo hi = i64 (go_div (time_sub hi lo) minute + 1)"

definition series_part :: "text_lib \<Rightarrow> 's ts_lib \<Rightarrow> instant \<Rightarrow> instant \<Rightarrow> row list \<Rightarrow> go_err + 's" where
  "series_part tx ts lo hi rows =
     (if series_cap lo hi < 0 then Inl (Err ''panic: makeslice: cap out of range'')
      else let points = List.map_filter (read_point tx) rows
           in ts_new ts (map fst points) (map snd points))"

fun series_windows :: "druidStore \<Rightarrow> 'w druid_io \<Rightarrow> text_lib \<Rightarrow> 's ts_lib \<Rightarrow> string \<Rightarrow> window list \<Rightarrow> 's \<Rightarrow> 'w
    \<Rightarrow> (go_err + 's) \<times> 'w" where
  "series_windows d io tx ts hash [] out w = (Inr out, w)"
| "series_windows d io tx ts hash ((lo, hi) # ws) out w =
     (case druid_sql d io (series_query d hash lo hi) w of
        (Inl e, w) \<Rightarrow> (Inl e, w)
      | (Inr rows, w) \<Rightarrow>
          (case series_part tx ts lo hi rows of
             Inl e \<Rightarrow> (Inl e, w)
           | Inr part \<Rightarrow>
               (case ts_concat ts out part of
                  Inl e \<Rightarrow> (Inl (Wrap (''metric_hash '' @ hash) e), w)
                | Inr out \<Rightarrow> series_windows d io tx ts hash ws out w)))"

definition druid_Series :: "druidStore \<Rightarrow> 'w druid_io \<Rightarrow> text_lib \<Rightarrow> 's ts_lib \<Rightarrow> string \<Rightarrow> instant \<Rightarrow> instant \<Rightarrow> 'w
    \<Rightarrow> (go_err + 's) \<times> 'w" where
  "druid_Series d io tx ts hash from to w =
     (case windows from to (ds_maxRange d) of
        Inl e \<Rightarrow> (Inl (window_err e), w)
      | Inr ws \<Rightarrow> series_windows d io tx ts hash ws (ts_empty ts) w)"

section \<open>Hashes\<close>

definition read_hash_row :: "text_lib \<Rightarrow> row \<Rightarrow> metricSpan option" where
  "read_hash_row tx r =
     (let hash = asString tx (col r ''metric_hash'') in
      if hash = [] then None
      else case parseDruidTime (col r ''tmin'') of
             Inl e \<Rightarrow> None
           | Inr mn \<Rightarrow>
               (case parseDruidTime (col r ''tmax'') of
                  Inl e \<Rightarrow> None
                | Inr mx \<Rightarrow> Some \<lparr>sp_Hash = hash, sp_Min = mn, sp_Max = mx\<rparr>))"

text \<open>
  \<open>index\<close> maps a hash to its position in \<open>out\<close>, which is the place of the one span with that hash.
\<close>

fun merge_span :: "metricSpan \<Rightarrow> metricSpan list \<Rightarrow> metricSpan list" where
  "merge_span sp [] = [sp]"
| "merge_span sp (x # out) =
     (if sp_Hash x = sp_Hash sp
      then x\<lparr>sp_Min := (if sp_Min sp < sp_Min x then sp_Min sp else sp_Min x),
             sp_Max := (if sp_Max x < sp_Max sp then sp_Max sp else sp_Max x)\<rparr> # out
      else x # merge_span sp out)"

fun hash_windows :: "druidStore \<Rightarrow> 'w druid_io \<Rightarrow> text_lib \<Rightarrow> window list \<Rightarrow> metricSpan list \<Rightarrow> 'w
    \<Rightarrow> (go_err + metricSpan list) \<times> 'w" where
  "hash_windows d io tx [] out w = (Inr out, w)"
| "hash_windows d io tx ((lo, hi) # ws) out w =
     (case druid_sql d io (hashes_query d lo hi) w of
        (Inl e, w) \<Rightarrow> (Inl e, w)
      | (Inr rows, w) \<Rightarrow>
          hash_windows d io tx ws (fold merge_span (List.map_filter (read_hash_row tx) rows) out) w)"

definition druid_Hashes :: "druidStore \<Rightarrow> 'w druid_io \<Rightarrow> text_lib \<Rightarrow> instant \<Rightarrow> instant \<Rightarrow> 'w
    \<Rightarrow> (go_err + metricSpan list) \<times> 'w" where
  "druid_Hashes d io tx from to w =
     (case windows from to (ds_maxRange d) of
        Inl e \<Rightarrow> (Inl (window_err e), w)
      | Inr ws \<Rightarrow> hash_windows d io tx ws [] w)"

section \<open>Lemmas\<close>

text \<open>How a SQL parser reads the literal after its opening quote: two quotes are one.\<close>

fun read_literal :: "string \<Rightarrow> (string \<times> string) option" where
  "read_literal [] = None"
| "read_literal [c] = (if c = quote_char then Some ([], []) else None)"
| "read_literal (c # e # s) =
     (if c = quote_char
      then if e = quote_char then map_option (\<lambda>(x, r). (quote_char # x, r)) (read_literal s) else Some ([], e # s)
      else map_option (\<lambda>(x, r). (c # x, r)) (read_literal (e # s)))"

lemma drop_prefix: "drop (length p) (p @ q) = q"
  by simp

lemma read_literal_other: "c \<noteq> quote_char \<Longrightarrow> s \<noteq> [] \<Longrightarrow> read_literal (c # s) = map_option (\<lambda>(x, r). (c # x, r)) (read_literal s)"
  by (cases s) auto

lemma read_literal_escape:
  "r = [] \<or> hd r \<noteq> quote_char \<Longrightarrow> read_literal (sql_escape s @ quote_char # r) = Some (s, r)"
proof (induction s)
  case Nil
  then show ?case by (cases r) (auto simp: sql_escape_def)
next
  case (Cons c s)
  show ?case
  proof (cases "c = quote_char")
    case True
    with Cons show ?thesis by (simp add: sql_escape_def)
  next
    case False
    with Cons show ?thesis by (simp add: sql_escape_def read_literal_other)
  qed
qed

lemma retry_shift: "i64 (druidRetryBackoff * 2 ^ k) \<le> 0 \<or> druidRetryMaxBackoff < i64 (druidRetryBackoff * 2 ^ k)" if "4 \<le> k"
proof (cases "k < 36")
  case True
  have "(2 :: int) ^ 4 \<le> 2 ^ k" "(2 :: int) ^ k \<le> 2 ^ 35"
    using that True by (intro power_increasing; simp)+
  then have "in64 (druidRetryBackoff * 2 ^ k)" "druidRetryMaxBackoff < druidRetryBackoff * 2 ^ k"
    by (simp_all add: druidRetryBackoff_def druidRetryMaxBackoff_def unit_defs in64_bounds)
  then show ?thesis by simp
next
  case False
  then have "(2 :: int) ^ 36 dvd 2 ^ k" by (intro le_imp_power_dvd) simp
  then have "(2 :: int) ^ 36 dvd druidRetryBackoff * 2 ^ k" by (rule dvd_mult)
  moreover have "i64 x = x - 2 ^ 64 * ((x + 2 ^ 63) div 2 ^ 64)" for x
    unfolding i64_def using minus_mult_div_eq_mod [of "x + 2 ^ 63" "2 ^ 64"] by simp
  moreover have "(2 :: int) ^ 36 dvd 2 ^ 64" by (intro le_imp_power_dvd) simp
  ultimately have "(2 :: int) ^ 36 dvd i64 (druidRetryBackoff * 2 ^ k)" by (metis dvd_diff dvd_mult2)
  then have "i64 (druidRetryBackoff * 2 ^ k) \<le> 0 \<or> 2 ^ 36 \<le> i64 (druidRetryBackoff * 2 ^ k)"
    by (meson zdvd_imp_le not_le)
  then show ?thesis by (auto simp: druidRetryMaxBackoff_def second_def)
qed

lemma retry_small: "k < 4 \<Longrightarrow> in64 (druidRetryBackoff * 2 ^ k) \<and> 0 < druidRetryBackoff * 2 ^ k
    \<and> druidRetryBackoff * 2 ^ k \<le> druidRetryMaxBackoff"
proof -
  assume "k < 4"
  then have "k = 0 \<or> k = 1 \<or> k = 2 \<or> k = 3" by linarith
  then show ?thesis
    by (auto simp: druidRetryBackoff_def druidRetryMaxBackoff_def unit_defs in64_bounds)
qed

text \<open>The same time as Druid prints it in SQL: a space between date and time, and no zone.\<close>

definition sql_time_text :: "nat \<Rightarrow> nat \<Rightarrow> nat \<Rightarrow> nat \<Rightarrow> nat \<Rightarrow> nat \<Rightarrow> nat \<Rightarrow> string" where
  "sql_time_text y mo d h mi s ms =
     pad_digits 4 y @ ''-'' @ pad_digits 2 mo @ ''-'' @ pad_digits 2 d @ '' '' @ pad_digits 2 h @ '':''
     @ pad_digits 2 mi @ '':'' @ pad_digits 2 s @ ''.'' @ pad_digits 3 ms"

lemma dig_apart: "n < 10 \<Longrightarrow> dig n \<noteq> CHR '' ''" "n < 10 \<Longrightarrow> dig n \<noteq> CHR ''Z''" "n < 10 \<Longrightarrow> dig n \<noteq> CHR ''+''"
  "n < 10 \<Longrightarrow> graphic (dig n)"
  by (auto simp: dig_def graphic_def dest!: arg_cong [where f = "of_char :: char \<Rightarrow> nat"])

lemma time_texts_trim:
  assumes "y < 10000" "ms < 1000"
  shows "trim_space (rfc3339_text y mo d h mi s ms) = rfc3339_text y mo d h mi s ms"
    and "trim_space (sql_time_text y mo d h mi s ms) = sql_time_text y mo d h mi s ms"
  using assms by (auto intro!: trim_ends simp: rfc3339_text_def sql_time_text_def pads dig_apart) (simp add: graphic_def)

lemma replace_sql_time:
  assumes "y < 10000" "mo < 100" "d < 100" "h < 100" "mi < 100" "s < 100" "ms < 1000"
  shows "replace_spaces (sql_time_text y mo d h mi s ms) @ ''Z'' = rfc3339_text y mo d h mi s ms"
    and "CHR ''Z'' \<notin> set (replace_spaces (sql_time_text y mo d h mi s ms))"
    and "CHR ''+'' \<notin> set (replace_spaces (sql_time_text y mo d h mi s ms))"
  using assms
  by (simp_all add: rfc3339_text_def sql_time_text_def replace_spaces_def pads dig_apart dig_apart(1-3) [symmetric])

lemma sql_time_not_rfc3339:
  assumes "y < 10000" "mo < 100" "d < 100" "h < 100" "mi < 100" "s < 100" "ms < 1000"
  shows "parse_rfc3339 (sql_time_text y mo d h mi s ms) = None"
    and "parse_rfc3339 (replace_spaces (sql_time_text y mo d h mi s ms)) = None"
proof -
  have "replace_spaces (sql_time_text y mo d h mi s ms)
      = pad_digits 4 y @ ''-'' @ pad_digits 2 mo @ ''-'' @ pad_digits 2 d @ ''T'' @ pad_digits 2 h @ '':''
        @ pad_digits 2 mi @ '':'' @ pad_digits 2 s @ ''.'' @ pad_digits 3 ms"
    using assms by (simp add: sql_time_text_def replace_spaces_def pads dig_apart)
  moreover have "parse_fraction (CHR ''.'' # pad_digits 3 ms) = (int ms * 1000000, [])"
    using parse_fraction_pad [of ms "[]"] assms by simp
  ultimately show "parse_rfc3339 (replace_spaces (sql_time_text y mo d h mi s ms)) = None"
    using assms by (simp add: parse_rfc3339_def four_digits_pad two_digits_pad one_or_two_digits_pad parse_zone_def)
  show "parse_rfc3339 (sql_time_text y mo d h mi s ms) = None"
    using assms by (simp add: parse_rfc3339_def sql_time_text_def four_digits_pad two_digits_pad expect_def)
qed

section \<open>Properties\<close>

text \<open>
  C33: A timestamp is read as the instant it names: the two texts Druid prints for a date and time with
  milliseconds, ISO 8601 in UTC and the SQL form with a space and no zone, are both read as that
  instant of the Gregorian calendar.
\<close>

theorem druid_time_read:
  assumes "y < 10000" "mo < 100" "d < 100" "h < 24" "mi < 60" "s < 60" "ms < 1000"
    and "1 \<le> mo" "mo \<le> 12" "1 \<le> d" "int d \<le> days_in_month (int y) (int mo)"
    and "t = civil_instant (int y) (int mo) (int d) (int h) (int mi) (int s) (int ms * 1000000)"
  shows "parseDruidTime (AString (rfc3339_text y mo d h mi s ms)) = Inr t
    \<and> parseDruidTime (AString (sql_time_text y mo d h mi s ms)) = Inr t"
proof -
  have b: "h < 100" "mi < 100" "s < 100" using assms by simp_all
  note rt = rfc3339_roundtrip [OF assms(1-11), folded assms(12)]
    and sql = replace_sql_time [OF assms(1-3) b assms(7)] sql_time_not_rfc3339 [OF assms(1-3) b assms(7)]
  have "rfc3339_text y mo d h mi s ms \<noteq> []" "sql_time_text y mo d h mi s ms \<noteq> []"
    by (simp_all add: rfc3339_text_def sql_time_text_def)
  then show ?thesis
    using rt sql time_texts_trim [OF assms(1,7)] by (simp add: parse_time_text_def Let_def)
qed

theorem druid_time_read_witness:
  "parseDruidTime (AString (rfc3339_text 1970 1 2 0 0 1 500)) = Inr (86401500 * millisecond)
   \<and> parseDruidTime (AString (sql_time_text 1970 1 2 0 0 1 500)) = Inr (86401500 * millisecond)"
proof (rule druid_time_read)
  have "days_before_year 1970 = 719528" "days_before_month 1970 1 = 0"
    by (simp_all add: days_before_year_def days_before_month_def)
  then show "86401500 * millisecond
      = civil_instant (int 1970) (int 1) (int 2) (int 0) (int 0) (int 1) (int 500 * 1000000)"
    by (simp add: civil_instant_def civil_days_def unit_defs)
qed (simp_all add: days_in_month_def)

text \<open>
  C32: A metric hash cannot leave its place in the query: read as SQL, the text after the opening quote
  of the \<open>metric_hash\<close> condition is exactly the hash, whatever bytes it has, and what follows
  the closing quote is the rest of the query as it was written.
\<close>

theorem series_query_literal:
  "read_literal (drop (length (''SELECT __time, metric_value FROM '' @ ds_datasource d @ '' WHERE metric_hash = ''
       @ [quote_char])) (series_query d hash lo hi))
   = Some (hash, '' AND '' @ time_filter lo hi @ '' ORDER BY __time'')"
proof -
  let ?pre = "''SELECT __time, metric_value FROM '' @ ds_datasource d @ '' WHERE metric_hash = '' @ [quote_char]"
  let ?rest = "'' AND '' @ time_filter lo hi @ '' ORDER BY __time''"
  have "series_query d hash lo hi = ?pre @ (sql_escape hash @ quote_char # ?rest)"
    by (simp add: series_query_def)
  then have "drop (length ?pre) (series_query d hash lo hi) = sql_escape hash @ quote_char # ?rest"
    by (simp only: drop_prefix)
  moreover have "hd ?rest \<noteq> quote_char" by (simp add: quote_char_def)
  ultimately show ?thesis by (simp only: read_literal_escape simp_thms)
qed

text \<open>
  The delay before retry \<open>n + 1\<close> is 250ms doubled \<open>n\<close> times and stays at 2s, for every
  \<open>n\<close>: the bits the shift loses never turn it into a short or negative delay.
\<close>

theorem retryBackoff_doubles:
  "retryBackoff (1 + int n) = min (druidRetryBackoff * 2 ^ n) druidRetryMaxBackoff"
proof (cases "n < 4")
  case True
  with retry_small [OF True] show ?thesis by (simp add: retryBackoff_def Let_def)
next
  case False
  then have "(2 :: int) ^ 4 \<le> 2 ^ n" by (intro power_increasing) simp_all
  then have "druidRetryMaxBackoff \<le> druidRetryBackoff * 2 ^ n"
    by (simp add: druidRetryBackoff_def druidRetryMaxBackoff_def unit_defs)
  with False show ?thesis using retry_shift [of n] by (auto simp: retryBackoff_def Let_def)
qed

end
