(* ===== verification/DruidPace.thy ===== *)
theory DruidPace imports Druid RequestLimits
begin

text \<open>
  The Druid reader with its semaphore, rate limiter and timers (\<open>limits.go\<close>) in place, in a world with
  a clock. Requests take any time; when every slot is taken the world says how long it takes until
  another caller returns one. The lemmas show that the requests of any sequence of statements are spaced
  by the limiter.
\<close>

record timed =
  td_now :: instant
  td_sem :: "semaphore option"
  td_limiter :: "rateLimiter option"
  td_ctx :: "(instant \<times> go_err) option"
  td_picks :: "nat \<Rightarrow> bool"
  td_delays :: "nat \<Rightarrow> nat"
  td_replies :: "nat \<Rightarrow> go_err + http_response"
  td_step :: nat
  td_sends :: "instant list"

text \<open>The inputs of the next operation.\<close>

definition pick_of :: "timed \<Rightarrow> bool" where
  "pick_of w = td_picks w (td_step w)"

definition delay_of :: "timed \<Rightarrow> int" where
  "delay_of w = int (td_delays w (td_step w))"

definition ended :: "timed \<Rightarrow> go_err option" where
  "ended w = (case td_ctx w of None \<Rightarrow> None | Some (stop, e) \<Rightarrow> if stop \<le> td_now w then Some e else None)"

definition step_on :: "timed \<Rightarrow> timed" where
  "step_on w = w\<lparr>td_step := Suc (td_step w)\<rparr>"

text \<open>A caller that finds no slot waits for another caller's, or for the end of its context.\<close>

definition timed_acquire :: "timed \<Rightarrow> go_err option \<times> timed" where
  "timed_acquire w =
     (case acquire (td_sem w) (ended w) (pick_of w) of
        Got sem \<Rightarrow> (None, step_on (w\<lparr>td_sem := sem\<rparr>))
      | GaveUp e \<Rightarrow> (Some e, step_on w)
      | Blocked \<Rightarrow>
          (case sleepCtx (delay_of w) (td_ctx w) (pick_of w) (td_now w) of
             (err, t) \<Rightarrow> (err, step_on (w\<lparr>td_now := t\<rparr>))))"

definition timed_wait :: "timed \<Rightarrow> go_err option \<times> timed" where
  "timed_wait w =
     (case wait (td_limiter w) (td_ctx w) (pick_of w) (td_now w) of
        (err, t, l) \<Rightarrow> (err, step_on (w\<lparr>td_now := t, td_limiter := l\<rparr>)))"

definition timed_sleep :: "duration \<Rightarrow> timed \<Rightarrow> go_err option \<times> timed" where
  "timed_sleep d w =
     (case sleepCtx d (td_ctx w) (pick_of w) (td_now w) of (err, t) \<Rightarrow> (err, step_on (w\<lparr>td_now := t\<rparr>)))"

definition timed_send :: "http_request \<Rightarrow> timed \<Rightarrow> (go_err + http_response) \<times> timed" where
  "timed_send rq w =
     (td_replies w (length (td_sends w)),
      step_on (w\<lparr>td_sends := td_sends w @ [td_now w], td_now := td_now w + delay_of w\<rparr>))"

definition timed_io :: "(string \<Rightarrow> go_err + string) \<Rightarrow> (string \<Rightarrow> go_err + row list) \<Rightarrow> (string \<Rightarrow> go_err option)
    \<Rightarrow> timed druid_io" where
  "timed_io marshal_query unmarshal_rows badURL =
     \<lparr>io_marshal = marshal_query, io_unmarshal = unmarshal_rows, io_badURL = badURL,
      io_acquire = timed_acquire, io_release = (\<lambda>w. w\<lparr>td_sem := release (td_sem w)\<rparr>),
      io_wait = timed_wait, io_sleep = timed_sleep, io_send = timed_send\<rparr>"

text \<open>Statements one after the other, each some time after the last.\<close>

fun run_statements :: "druidStore \<Rightarrow> timed druid_io \<Rightarrow> (nat \<times> string) list \<Rightarrow> timed \<Rightarrow> timed" where
  "run_statements d io [] w = w"
| "run_statements d io ((gap, query) # qs) w =
     run_statements d io qs (snd (druid_sql d io query (w\<lparr>td_now := td_now w + int gap\<rparr>)))"

text \<open>The client's limits as \<open>newDruidStore\<close> sets them from the configuration.\<close>

definition client_limits :: "Config \<Rightarrow> instant \<Rightarrow> semaphore option \<times> rateLimiter option" where
  "client_limits cfg now =
     (Some (newSemaphore (DruidMaxInflight (normalized cfg))), newRateLimiter (DruidMaxRPS (normalized cfg)) now)"

section \<open>Lemmas\<close>

lemmas timed_fields = step_on_def timed_io_def

text \<open>
  The requests so far are spaced by the period \<open>p\<close>, and the limiter's next token is far enough from
  every one of them.
\<close>

definition spaced_by :: "int \<Rightarrow> instant list \<Rightarrow> bool" where
  "spaced_by p ts \<longleftrightarrow> (\<forall>i n. i + Suc n < length ts \<longrightarrow> int n * p \<le> ts ! (i + Suc n) - ts ! i)"

definition ahead_of :: "int \<Rightarrow> instant list \<Rightarrow> instant \<Rightarrow> bool" where
  "ahead_of p ts t \<longleftrightarrow> (\<forall>i < length ts. ts ! i + int (length ts - 1 - i) * p \<le> t)"

definition paced :: "int \<Rightarrow> timed \<Rightarrow> bool" where
  "paced p w \<longleftrightarrow> spaced_by p (td_sends w)
     \<and> (\<exists>l. td_limiter w = Some l \<and> rl_period l = p \<and> limiter_ok l (td_now w) \<and> ahead_of p (td_sends w) (earliest l))"

text \<open>A token has been taken and its request not been sent yet.\<close>

definition holds_token :: "int \<Rightarrow> timed \<Rightarrow> bool" where
  "holds_token p w \<longleftrightarrow> spaced_by p (td_sends w) \<and> ahead_of p (td_sends w) (td_now w)
     \<and> (\<exists>l. td_limiter w = Some l \<and> rl_period l = p \<and> limiter_ok l (td_now w)
          \<and> ahead_of p (td_sends w @ [td_now w]) (earliest l))"

lemma spaced_snoc: "spaced_by p ts \<Longrightarrow> ahead_of p ts t \<Longrightarrow> spaced_by p (ts @ [t])"
  unfolding spaced_by_def ahead_of_def
proof (intro allI impI)
  fix i n
  assume sp: "\<forall>i n. i + Suc n < length ts \<longrightarrow> int n * p \<le> ts ! (i + Suc n) - ts ! i"
    and ah: "\<forall>i<length ts. ts ! i + int (length ts - 1 - i) * p \<le> t" and l: "i + Suc n < length (ts @ [t])"
  show "int n * p \<le> (ts @ [t]) ! (i + Suc n) - (ts @ [t]) ! i"
  proof (cases "i + Suc n = length ts")
    case True
    then have "i < length ts" "length ts - 1 - i = n" by simp_all
    with ah have "ts ! i + int n * p \<le> t" by blast
    with True show ?thesis by (simp add: nth_append)
  next
    case False
    with sp l show ?thesis by (simp add: nth_append)
  qed
qed

lemma ahead_snoc:
  assumes "ahead_of p ts e" "due < e'" "e + p \<le> e'"
  shows "ahead_of p (ts @ [due]) e'"
  unfolding ahead_of_def
proof (intro allI impI)
  fix i assume "i < length (ts @ [due])"
  then consider "i = length ts" | "i < length ts" by fastforce
  then show "(ts @ [due]) ! i + int (length (ts @ [due]) - 1 - i) * p \<le> e'"
  proof cases
    case 2
    with assms(1) have "ts ! i + int (length ts - 1 - i) * p \<le> e" by (simp add: ahead_of_def)
    moreover have "int (length ts - i) * p = int (length ts - 1 - i) * p + p"
      using 2 by (simp add: Suc_diff_Suc [symmetric] algebra_simps)
    ultimately show ?thesis using 2 assms(3) by (simp add: nth_append)
  qed (use assms(2) in simp)
qed

lemma ahead_mono: "ahead_of p ts e \<Longrightarrow> e \<le> e' \<Longrightarrow> ahead_of p ts e'"
  by (auto simp: ahead_of_def)

lemma limiter_ok_later: "limiter_ok l now \<Longrightarrow> now \<le> t \<Longrightarrow> limiter_ok l t"
  by (auto simp: limiter_ok_def)

lemma sleepCtx_later: "sleepCtx d ctx pick t = (err, t') \<Longrightarrow> t \<le> t'"
  by (auto simp: sleepCtx_def Let_def split: option.splits if_splits prod.splits)

text \<open>What only moves the clock and the semaphore keeps the pace.\<close>

lemma paced_frame:
  assumes "paced p w" "td_now w \<le> td_now v" "td_limiter v = td_limiter w" "td_sends v = td_sends w"
  shows "paced p v"
  using assms limiter_ok_later by (fastforce simp: paced_def)

lemma paced_acquire: "timed_acquire w = (err, v) \<Longrightarrow> paced p w \<Longrightarrow> paced p v"
  by (erule paced_frame) (auto simp: timed_acquire_def step_on_def dest: sleepCtx_later split: selected.splits prod.splits)

lemma paced_sleep: "timed_sleep d w = (err, v) \<Longrightarrow> paced p w \<Longrightarrow> paced p v"
  by (erule paced_frame) (auto simp: timed_sleep_def step_on_def dest: sleepCtx_later split: prod.splits)

lemma paced_wait:
  assumes "timed_wait w = (err, v)" "paced p w"
  shows "if err = None then holds_token p v else paced p v"
proof -
  from assms(2) obtain l where l: "td_limiter w = Some l" "rl_period l = p" "limiter_ok l (td_now w)"
    "ahead_of p (td_sends w) (earliest l)" and sp: "spaced_by p (td_sends w)" by (auto simp: paced_def)
  obtain t l' where w: "wait (Some l) (td_ctx w) (pick_of w) (td_now w) = (err, t, l')"
    and v: "v = step_on (w\<lparr>td_now := t, td_limiter := l'\<rparr>)"
    using assms(1) l(1) by (auto simp: timed_wait_def split: prod.splits)
  from wait_ok [OF l(3) order_refl w] obtain l1 where l1: "l' = Some l1" "limiter_ok l1 t" "rl_period l1 = rl_period l"
    "served l err t l1" by auto
  show ?thesis
  proof (cases err)
    case None
    with l1(4) have "earliest l \<le> t" "t < earliest l1" "earliest l + p \<le> earliest l1"
      using l(2) by (auto simp: served_def)
    with ahead_mono [OF l(4)] ahead_snoc [OF l(4)] None v l1 l(2) sp show ?thesis
      by (simp add: holds_token_def step_on_def)
  next
    case (Some e)
    with l1(4) have "earliest l \<le> earliest l1" by (simp add: served_def)
    with ahead_mono [OF l(4)] Some v l1 l(2) sp show ?thesis by (simp add: paced_def step_on_def)
  qed
qed

lemma token_paced: "holds_token p w \<Longrightarrow> paced p w"
proof -
  assume h: "holds_token p w"
  then obtain l where l: "td_limiter w = Some l" "rl_period l = p" "limiter_ok l (td_now w)"
    "ahead_of p (td_sends w @ [td_now w]) (earliest l)" by (auto simp: holds_token_def)
  have p: "0 < p" using l(2,3) by (simp add: limiter_ok_def)
  have "ahead_of p (td_sends w) (earliest l)"
    unfolding ahead_of_def
  proof (intro allI impI)
    fix i assume i: "i < length (td_sends w)"
    with l(4) have "td_sends w ! i + int (length (td_sends w) - i) * p \<le> earliest l"
      by (auto simp: ahead_of_def nth_append dest!: spec [of _ i])
    moreover have "int (length (td_sends w) - 1 - i) * p \<le> int (length (td_sends w) - i) * p"
      using p by (intro mult_right_mono) simp_all
    ultimately show "td_sends w ! i + int (length (td_sends w) - 1 - i) * p \<le> earliest l" by linarith
  qed
  with h l show ?thesis by (auto simp: paced_def holds_token_def)
qed

lemma paced_send:
  assumes "timed_send rq w = (r, v)" "holds_token p w"
  shows "paced p v"
proof -
  from assms(2) obtain l where "td_limiter w = Some l" "rl_period l = p" "limiter_ok l (td_now w)"
    "ahead_of p (td_sends w @ [td_now w]) (earliest l)" by (auto simp: holds_token_def)
  moreover have "td_now w \<le> td_now w + delay_of w" by (simp add: delay_of_def)
  ultimately show ?thesis
    using assms spaced_snoc limiter_ok_later
    by (fastforce simp: timed_send_def paced_def step_on_def holds_token_def)
qed

lemma timed_io_fields:
  "io_marshal (timed_io m u b) = m" "io_unmarshal (timed_io m u b) = u" "io_badURL (timed_io m u b) = b"
  "io_acquire (timed_io m u b) = timed_acquire" "io_wait (timed_io m u b) = timed_wait"
  "io_send (timed_io m u b) = timed_send" "io_sleep (timed_io m u b) = timed_sleep"
  "io_release (timed_io m u b) w = w\<lparr>td_sem := release (td_sem w)\<rparr>"
  by (simp_all add: timed_io_def)

lemma paced_do:
  assumes "druid_do d (timed_io m u b) body w = (r, v)" "holds_token p w"
  shows "paced p v"
  using assms paced_send token_paced
  by (auto simp: druid_do_def timed_io_fields Let_def split: option.splits sum.splits prod.splits)

lemma paced_attempts:
  "druid_attempts d (timed_io m u b) body n a le w = (r, v) \<Longrightarrow> paced p w \<Longrightarrow> paced p v"
proof (induction n arbitrary: a le w)
  case 0
  then show ?case by (auto split: option.splits)
next
  case (Suc n)
  obtain e1 w1 where s: "(if 0 < a then io_sleep (timed_io m u b) (retryBackoff a) w else (None, w)) = (e1, w1)"
    by fastforce
  then have p1: "paced p w1" using paced_sleep Suc.prems(2) by (auto simp: timed_io_fields split: if_splits)
  show ?case
  proof (cases e1)
    case (Some e)
    with Suc.prems(1) s p1 show ?thesis by (auto simp: timed_io_fields)
  next
    case None
    obtain e2 w2 where wt: "timed_wait w1 = (e2, w2)" by fastforce
    note p2 = paced_wait [OF wt p1]
    show ?thesis
    proof (cases e2)
      case (Some e)
      with Suc.prems(1) s None wt p2 show ?thesis by (auto simp: timed_io_fields)
    next
      case None2: None
      obtain r3 retryable w3 where dd: "druid_do d (timed_io m u b) body w2 = ((r3, retryable), w3)"
        by (metis surj_pair)
      have p3: "paced p w3" using paced_do [OF dd] p2 None2 by simp
      with Suc.prems(1) s None wt None2 dd Suc.IH [OF _ p3] show ?thesis
        by (auto simp: timed_io_fields split: sum.splits if_splits)
    qed
  qed
qed

lemma paced_sql:
  assumes "paced p w"
  shows "paced p (snd (druid_sql d (timed_io m u b) query w))"
proof (cases "m query")
  case (Inr body)
  obtain e w1 where aq: "timed_acquire w = (e, w1)" by fastforce
  have p1: "paced p w1" by (rule paced_acquire [OF aq assms])
  obtain r v where at: "druid_attempts d (timed_io m u b) body (nat (ds_retries d + 1)) 0 None w1 = (r, v)" by fastforce
  have "paced p v" by (rule paced_attempts [OF at p1])
  then have "paced p (v\<lparr>td_sem := release (td_sem v)\<rparr>)" by (rule paced_frame) simp_all
  with Inr aq p1 at show ?thesis
    by (auto simp: druid_sql_def timed_io_fields split: option.splits)
qed (use assms in \<open>simp add: druid_sql_def timed_io_fields\<close>)

lemma paced_statements: "paced p w \<Longrightarrow> paced p (run_statements d (timed_io m u b) qs w)"
proof (induction qs arbitrary: w)
  case (Cons q qs)
  obtain gap query where q: "q = (gap, query)" by fastforce
  have "paced p (w\<lparr>td_now := td_now w + int gap\<rparr>)" by (rule paced_frame [OF Cons.prems]) simp_all
  with q show ?case by (simp add: Cons.IH paced_sql)
qed simp

section \<open>Properties\<close>

text \<open>
  C12: The rate limit reaches the datasource: over any sequence of statements, with their retries,
  failures and interruptions, \<open>n + 2\<close> consecutive requests of the client that \<open>newDruidStore\<close>
  configures are at least \<open>n\<close> periods apart, whatever the time the requests take.
\<close>

theorem requests_are_paced:
  assumes "client_limits cfg (td_now w) = (td_sem w, td_limiter w)" "td_limiter w = Some l" "td_sends w = []"
    and "w' = run_statements d (timed_io m u b) qs w" "i + Suc n < length (td_sends w')"
  shows "int n * max 1 (second div DruidMaxRPS (normalized cfg)) \<le> td_sends w' ! (i + Suc n) - td_sends w' ! i"
proof -
  let ?p = "max 1 (second div DruidMaxRPS (normalized cfg))"
  have "newRateLimiter (DruidMaxRPS (normalized cfg)) (td_now w) = Some l"
    using assms(1,2) by (simp add: client_limits_def)
  note l = newRateLimiter_ok [OF this]
  have "paced ?p w" using l assms(2,3) by (simp add: paced_def spaced_by_def ahead_of_def)
  then have "paced ?p w'" unfolding assms(4) by (rule paced_statements)
  with assms(5) show ?thesis by (auto simp: paced_def spaced_by_def)
qed

text \<open>A broker that answers 503 to its first request, and two statements at four requests a second.\<close>

definition pace_config :: Config where
  "pace_config = sample_config\<lparr>DruidMaxRPS := 4, DruidMaxInflight := 2\<rparr>"

definition pace_druid :: druidStore where
  "pace_druid = \<lparr>ds_broker = ''http://broker'', ds_datasource = ''metrics'', ds_maxRange = 0, ds_maxReply = 100,
     ds_retries = 2, ds_authHeader = [], ds_authValue = []\<rparr>"

definition pace_world :: timed where
  "pace_world = \<lparr>td_now = 0, td_sem = Some (newSemaphore 2),
     td_limiter = Some \<lparr>rl_period = 250 * millisecond, rl_next = 250 * millisecond, rl_token = False\<rparr>,
     td_ctx = None, td_picks = (\<lambda>i. True), td_delays = (\<lambda>i. 1000),
     td_replies = (\<lambda>i. Inr \<lparr>rs_code = (if i = 0 then 503 else 200), rs_status = [], rs_body = ([], None)\<rparr>),
     td_step = 0, td_sends = []\<rparr>"

theorem requests_are_paced_witness:
  "let sends = td_sends (run_statements pace_druid (timed_io (\<lambda>q. Inr q) (\<lambda>raw. Inr []) (\<lambda>url. None))
       [(700000000, ''SELECT 1''), (0, ''SELECT 2'')] pace_world)
   in length sends = 3 \<and> 250 * millisecond \<le> sends ! 2 - sends ! 0"
proof -
  let ?io = "timed_io (\<lambda>q. Inr q) (\<lambda>raw. Inr []) (\<lambda>url. None)"
  let ?w = "run_statements pace_druid ?io [(700000000, ''SELECT 1''), (0, ''SELECT 2'')] pace_world"
  have period: "DruidMaxRPS (normalized pace_config) = 4" "DruidMaxInflight (normalized pace_config) = 2"
    by (simp_all add: pace_config_def normalized_def norm_defaults_def norm_cap_def norm_lease_def norm_cron_def
        sample_config_def Let_def or_default_def)
  have rps: "DruidMaxRPS pace_config = 4" by (simp add: pace_config_def)
  have start: "client_limits pace_config (td_now pace_world) = (td_sem pace_world, td_limiter pace_world)"
    by (simp add: client_limits_def rps period(2) pace_world_def newRateLimiter_def Let_def go_div_def second_def millisecond_def)
  have len: "length (td_sends ?w) = 3"
    by (simp add: pace_world_def pace_druid_def druid_sql_def timed_io_fields timed_acquire_def acquire_def newSemaphore_def
        ended_def step_on_def pick_of_def numeral_3_eq_3 timed_wait_def wait_def tick_to_def timed_sleep_def sleepCtx_def
        druid_do_def read_reply_def read_limited_def timed_send_def delay_of_def release_def
        retryBackoff_def druidRetryBackoff_def druidRetryMaxBackoff_def unit_defs in64_bounds)
  obtain l where l: "td_limiter pace_world = Some l" by (simp add: pace_world_def)
  have none: "td_sends pace_world = []" by (simp add: pace_world_def)
  from requests_are_paced [OF start l none refl, of 0 1 pace_druid "\<lambda>q. Inr q" "\<lambda>raw. Inr []" "\<lambda>url. None"
      "[(700000000, ''SELECT 1''), (0, ''SELECT 2'')]"] len
  have "max 1 (second div 4) \<le> td_sends ?w ! 2 - td_sends ?w ! 0"
    unfolding period by (simp add: numeral_2_eq_2 del: run_statements.simps)
  with len show ?thesis unfolding Let_def by (simp add: second_def millisecond_def del: run_statements.simps)
qed

end
