(* ===== verification/Startup.thy ===== *)
theory Startup imports Worker Settings DruidPace
begin

text \<open>
  The worker's start (\<open>cmd/baselines/main.go\<close>, \<open>NewPublisher\<close>, \<open>newKafkaSink\<close>): the environment
  is read, validated and wired, and every failure on the way ends the process with exit code 1 before
  anything is started. \<open>open_pool\<close> is \<open>pgxpool.New\<close> and \<open>calendar\<close> is
  \<open>forecast.CalendarByName\<close>.
\<close>

section \<open>Wiring\<close>

datatype required_acks = RequireNone | RequireOne | RequireAll

record kafka_writer =
  kw_brokers :: "string list"
  kw_topic :: string
  kw_hashBalancer :: bool
  kw_acks :: required_acks
  kw_autoTopic :: bool

definition newKafkaSink :: "string list \<Rightarrow> string \<Rightarrow> kafka_writer" where
  "newKafkaSink brokers topic =
     \<lparr>kw_brokers = brokers, kw_topic = topic, kw_hashBalancer = True, kw_acks = RequireAll, kw_autoTopic = True\<rparr>"

text \<open>A wired publisher: its state, and the three clients its environment is made of.\<close>

record ('f, 'c) wired =
  wr_publisher :: "'f publisher"
  wr_druid :: druidStore
  wr_limits :: "semaphore option \<times> rateLimiter option"
  wr_sink :: kafka_writer
  wr_calendar :: 'c
  wr_store :: "string option"

definition NewPublisher :: "host \<Rightarrow> (string \<Rightarrow> go_err option) \<Rightarrow> instant \<Rightarrow> Config \<Rightarrow> 'c
    \<Rightarrow> go_err + ('f, 'c) wired" where
  "NewPublisher h open_pool now cfg cal =
     (let cfg = normalized cfg;
          store = (if StoreDSN cfg \<noteq> [] then Some (StoreDSN cfg) else None)
      in case (case store of None \<Rightarrow> None | Some dsn \<Rightarrow> open_pool dsn) of
           Some e \<Rightarrow> Inl (Wrap ''snapshot store'' e)
         | None \<Rightarrow>
             Inr \<lparr>wr_publisher = newPublisher h cfg (store \<noteq> None), wr_druid = newDruidStore cfg,
                  wr_limits = client_limits cfg now, wr_sink = newKafkaSink (KafkaBrokers cfg) (KafkaTopic cfg),
                  wr_calendar = cal, wr_store = store\<rparr>)"

definition MembershipMode :: "'f publisher \<Rightarrow> string" where
  "MembershipMode p = ps_mode (pb_peers p)"

section \<open>The process\<close>

datatype ('f, 'c) startup =
    ExitConfig go_err | ExitInvalid config_error | ExitCalendar go_err | ExitPublisher go_err
  | Started "('f, 'c) wired"

definition worker_main :: "environment \<Rightarrow> url_parser \<Rightarrow> cron_parser \<Rightarrow> (string \<Rightarrow> go_err + 'c) \<Rightarrow> host
    \<Rightarrow> (string \<Rightarrow> go_err option) \<Rightarrow> instant \<Rightarrow> ('f, 'c) startup" where
  "worker_main env url_parse cron_parse calendar h open_pool now =
     (case ConfigFromEnv env of
        Inl e \<Rightarrow> ExitConfig e
      | Inr cfg \<Rightarrow>
          (case Validate url_parse cron_parse now cfg of
             Some e \<Rightarrow> ExitInvalid e
           | None \<Rightarrow>
               (case calendar (Calendar cfg) of
                  Inl e \<Rightarrow> ExitCalendar e
                | Inr cal \<Rightarrow>
                    (case NewPublisher h open_pool now cfg cal of
                       Inl e \<Rightarrow> ExitPublisher e
                     | Inr w \<Rightarrow> Started w))))"

section \<open>Lemmas\<close>

lemma or_default_again [simp]: "0 < d \<Longrightarrow> or_default (or_default v d) d' = or_default v d"
  by (simp add: or_default_def)

lemma worker_mainE:
  assumes "worker_main env url_parse cron_parse calendar h open_pool now = Started w"
  obtains cfg cal where "ConfigFromEnv env = Inr cfg" "Validate url_parse cron_parse now cfg = None"
    "NewPublisher h open_pool now cfg cal = Inr w"
  using assms by (auto simp: worker_main_def split: sum.splits option.splits)

lemma NewPublisher_fields:
  assumes "NewPublisher h open_pool now cfg cal = Inr w"
  shows "pb_cfg (wr_publisher w) = normalized (normalized cfg)"
    and "wr_store w = (if StoreDSN cfg \<noteq> [] then Some (StoreDSN cfg) else None)"
    and "MembershipMode (wr_publisher w) = membershipMode (normalized (normalized cfg)) (StoreDSN cfg \<noteq> [])"
    and "wr_druid w = newDruidStore (normalized cfg)"
    and "wr_sink w = newKafkaSink (KafkaBrokers cfg) (KafkaTopic cfg)"
  using assms by (auto simp: NewPublisher_def Let_def newPublisher_def newPeerSource_def MembershipMode_def split: option.splits if_splits)

lemma membershipMode_normalized [simp]: "membershipMode (normalized cfg) s = membershipMode cfg s"
  by (simp add: membershipMode_def)

lemma Validate_scan_range:
  "Validate url_parse cron_parse now c = None \<Longrightarrow> 0 < ScanRange c \<Longrightarrow> i64 (Lookback c + i64 (2 * Interval c)) \<le> ScanRange c"
  unfolding Validate_def first_error_None by simp

text \<open>The bounds of a running configuration and the relations between its settings.\<close>

definition runnable_config :: "Config \<Rightarrow> bool" where
  "runnable_config c \<longleftrightarrow> second \<le> Interval c \<and> Interval c < WorkerTTL c
     \<and> minute \<le> Lookback c \<and> 0 < ScanRange c \<and> 1 \<le> AheadMinutes c \<and> AheadMinutes c \<le> maxAheadMinutes
     \<and> (if DruidMaxRange c = 0 then True else minute \<le> DruidMaxRange c)
     \<and> 1 \<le> TrainConcurrency c \<and> 0 < DruidTimeout c \<and> 0 < RetrainLease c \<and> 0 < RetrainRetry c
     \<and> RetrainRetry c < RetrainRetryMax c
     \<and> (if StaleAfter c = 0 then True else HashScanTTL c + Interval c \<le> StaleAfter c)"

section \<open>Properties\<close>


text \<open>The worker of an environment with the two required variables: stateless, and on its own.\<close>

abbreviation plain_start :: "('f, unit) startup" where
  "plain_start \<equiv> worker_main two_settings (\<lambda>u. Some (''http'', ''broker:8082'')) (\<lambda>s. Inr (\<lambda>z t. t + 24 * hour))
     (\<lambda>name. Inr ()) \<lparr>host_ifaces = None, host_name = None\<rparr> (\<lambda>dsn. None) 0"

lemma two_settings_start:
  obtains cfg and w :: "('f, unit) wired" where "plain_start = Started w" "ConfigFromEnv two_settings = Inr cfg"
    "StoreDSN cfg = []" "wr_store w = None"
    "2 * RetrainRetry cfg \<le> max64" "or_default (HashScanTTL cfg) defaultHashScanTTL + Interval cfg \<le> max64"
proof -
  let ?url = "\<lambda>u. Some (''http'', ''broker:8082'')" and ?cron = "\<lambda>s. Inr (\<lambda>z t. t + 24 * hour)"
  let ?h = "\<lparr>host_ifaces = None, host_name = None\<rparr>"
  define cfg where "cfg = plain_config (setting two_settings ''DRUID_BROKER'') (splitList (getenv two_settings ''KAFKA_BROKERS''))"
  have env: "ConfigFromEnv two_settings = Inr cfg"
    unfolding cfg_def using required_config [of two_settings] two_settings_facts by blast
  have v: "Validate ?url ?cron 0 cfg = None"
    using required_settings_valid [of two_settings ?url "''http''" "''broker:8082''" ?cron "\<lambda>z t. t + 24 * hour" 0,
        OF two_settings_facts] env
    by (simp add: time_sub_exact unit_defs base_defs in64_bounds)
  have store: "StoreDSN cfg = []" by (simp add: cfg_def plain_config_def)
  then obtain w :: "('f, unit) wired" where np: "NewPublisher ?h (\<lambda>dsn. None) 0 cfg () = Inr w"
    by (simp add: NewPublisher_def Let_def)
  with env v have start: "plain_start = Started w" by (simp add: worker_main_def)
  have b: "2 * RetrainRetry cfg \<le> max64" "or_default (HashScanTTL cfg) defaultHashScanTTL + Interval cfg \<le> max64"
    by (simp_all add: cfg_def plain_config_def or_default_def default_defs base_defs unit_defs max64_def)
  from that [OF start env store _ b] NewPublisher_fields(2) [OF np] store show thesis by simp
qed


text \<open>The same worker with a store.\<close>

definition store_settings :: environment where
  "store_settings = two_settings\<lparr>getenv := (\<lambda>name. if name = ''BASELINE_STORE_URL'' then ''postgres://db''
     else getenv two_settings name)\<rparr>"

abbreviation store_start :: "('f, unit) startup" where
  "store_start \<equiv> worker_main store_settings (\<lambda>u. Some (''http'', ''broker:8082'')) (\<lambda>s. Inr (\<lambda>z t. t + 24 * hour))
     (\<lambda>name. Inr ()) \<lparr>host_ifaces = None, host_name = None\<rparr> (\<lambda>dsn. None) 0"

lemma store_config:
  "ConfigFromEnv store_settings = Inr ((plain_config (setting two_settings ''DRUID_BROKER'')
     (splitList (getenv two_settings ''KAFKA_BROKERS'')))\<lparr>StoreDSN := ''postgres://db''\<rparr>)"
proof -
  let ?env = store_settings
  have get: "getenv ?env name = (if name = ''BASELINE_STORE_URL'' then ''postgres://db'' else getenv two_settings name)"
    "lower ?env v = v" for name v by (simp_all add: store_settings_def two_settings_def)
  have unset: "setting ?env name = []"
    if "name \<noteq> ''DRUID_BROKER''" "name \<noteq> ''KAFKA_BROKERS''" "name \<noteq> ''BASELINE_STORE_URL''" for name
    using that by (simp add: setting_def get two_settings_def)
  have broker: "setting ?env ''DRUID_BROKER'' = setting two_settings ''DRUID_BROKER''"
    "getenv ?env ''KAFKA_BROKERS'' = getenv two_settings ''KAFKA_BROKERS''" "splitList (getenv ?env ''SHARD_PEERS'') = []"
    by (simp_all add: setting_def get two_settings_def splitList_def)
  have "trim_space ''postgres://db'' = ''postgres://db''" by (simp add: trim_graphic graphic_def)
  then have dsn: "storeDSN (getenv ?env) = ''postgres://db''" by (simp add: storeDSN_def storeEnv_def get)
  have "text_settings ?env (initial_config ?env) = (plain_config (setting two_settings ''DRUID_BROKER'')
     (splitList (getenv two_settings ''KAFKA_BROKERS'')))\<lparr>StoreDSN := ''postgres://db''\<rparr>"
    by (simp add: text_settings_def initial_config_def plain_config_def unset broker dsn get(2))
  then show ?thesis
    by (simp add: ConfigFromEnv_def duration_table_def number_table_def envDuration_def envInt_def unset)
qed

lemma Validate_dsn:
  assumes "check_membership (c\<lparr>StoreDSN := d\<rparr>) = check_membership c"
  shows "Validate url_parse cron_parse now (c\<lparr>StoreDSN := d\<rparr>) = Validate url_parse cron_parse now c"
proof -
  have "check_broker url_parse (c\<lparr>StoreDSN := d\<rparr>) = check_broker url_parse c"
    "check_workerTTL (c\<lparr>StoreDSN := d\<rparr>) = check_workerTTL c" "check_cron cron_parse now (c\<lparr>StoreDSN := d\<rparr>) = check_cron cron_parse now c"
    "check_staleAfter (c\<lparr>StoreDSN := d\<rparr>) = check_staleAfter c" "retryBase (c\<lparr>StoreDSN := d\<rparr>) = retryBase c"
    by (simp_all add: check_broker_def check_workerTTL_def check_cron_def check_staleAfter_def retryBase_def Let_def
        cong: if_cong sum.case_cong)
  with assms show ?thesis by (simp add: Validate_def)
qed

lemma store_settings_start:
  obtains w :: "('f, unit) wired" where "store_start = Started w" "wr_store w = Some ''postgres://db''"
proof -
  let ?url = "\<lambda>u. Some (''http'', ''broker:8082'')" and ?cron = "\<lambda>s. Inr (\<lambda>z t. t + 24 * hour)"
  let ?h = "\<lparr>host_ifaces = None, host_name = None\<rparr>"
  let ?plain = "plain_config (setting two_settings ''DRUID_BROKER'') (splitList (getenv two_settings ''KAFKA_BROKERS''))"
  define cfg where "cfg = ?plain\<lparr>StoreDSN := ''postgres://db''\<rparr>"
  have "Validate ?url ?cron 0 ?plain = None"
    using required_settings_valid [of two_settings ?url "''http''" "''broker:8082''" ?cron "\<lambda>z t. t + 24 * hour" 0,
        OF two_settings_facts] required_config [of two_settings] two_settings_facts
    by (simp add: time_sub_exact unit_defs base_defs in64_bounds)
  then have v: "Validate ?url ?cron 0 cfg = None"
    unfolding cfg_def by (subst Validate_dsn) (simp_all add: plain_config_def check_membership_def)
  have dsn: "StoreDSN cfg = ''postgres://db''" by (simp add: cfg_def)
  then obtain w :: "('f, unit) wired" where np: "NewPublisher ?h (\<lambda>dsn. None) 0 cfg () = Inr w"
    by (simp add: NewPublisher_def Let_def)
  with v store_config have "store_start = Started w" by (simp add: worker_main_def cfg_def)
  with that [of w] NewPublisher_fields(2) [OF np] dsn show thesis by simp
qed

end
