(* ===== verification/CalmStore.thy ===== *)
theory CalmStore imports World
begin

text \<open>
  The store while it answers: calls of a worker whose connection is ready and whose statements succeed,
  among other clients that leave one key alone. The lemmas give each call's effect on the queue row and
  the model of that key.
\<close>

definition answering :: "'s world \<Rightarrow> bool" where
  "answering w \<longleftrightarrow> cn_ready (st_conn (wd_pg w)) \<and> (\<forall>n \<ge> wd_calls w. in_fault (ci_pg (wd_feed w n)) = NoFault)"

lemma ask_answering: "answering w \<Longrightarrow> answering (snd (ask f w))"
  by (simp add: answering_def ask_def next_in_def Let_def)

text \<open>The row and the model of a key.\<close>

definition key_state :: "string \<Rightarrow> pg_db \<Rightarrow> retrain_row option \<times> snap_row option" where
  "key_state key db = (row_at db (baseline_pk key), snap_at db key)"

text \<open>From here on the store answers and the other clients do not touch the key.\<close>

definition calm_for :: "string \<Rightarrow> 's world \<Rightarrow> bool" where
  "calm_for key w \<longleftrightarrow> answering w
     \<and> (\<forall>n \<ge> wd_calls w. \<forall>db. key_state key (ci_others (wd_feed w n) db) = key_state key db)"

lemma ask_calm:
  "calm_for key w \<Longrightarrow> calm_for key (snd (ask f w))
     \<and> key_state key (world_db (snd (ask f w))) = key_state key (world_db w)
     \<and> fst (ask f w) = f (wd_feed w (wd_calls w))"
  by (simp add: calm_for_def answering_def ask_def next_in_def world_db_def Let_def)

text \<open>One call of a method of the store.\<close>

definition feed_after :: "'s world \<Rightarrow> 's world \<Rightarrow> bool" where
  "feed_after w v \<longleftrightarrow> wd_feed v = wd_feed w \<and> wd_calls w \<le> wd_calls v"

lemma ask_feed: "feed_after w (snd (ask f w))"
  by (simp add: feed_after_def ask_def next_in_def Let_def)

lemma feed_after_trans: "feed_after u v \<Longrightarrow> feed_after v w \<Longrightarrow> feed_after u w"
  by (simp add: feed_after_def)

lemma on_pg_feed: "feed_after w (snd (on_pg f w))"
  by (simp add: feed_after_def on_pg_def next_in_def Let_def split: prod.split)

lemma on_pg_calm:
  assumes "calm_for key w"
  obtains i s where "cn_ready (st_conn s)" "in_fault i = NoFault" "key_state key (st_db s) = key_state key (world_db w)"
    "fst (on_pg f w) = fst (f i s)" "world_db (snd (on_pg f w)) = st_db (snd (f i s))"
    "cn_ready (st_conn (snd (f i s))) \<Longrightarrow> calm_for key (snd (on_pg f w))"
proof -
  obtain i v where n: "next_in w = (i, v)" by fastforce
  have v: "i = wd_feed w (wd_calls w)" "wd_feed v = wd_feed w" "wd_calls v = Suc (wd_calls w)"
    "st_conn (wd_pg v) = st_conn (wd_pg w)" "st_db (wd_pg v) = ci_others i (world_db w)"
    using n by (auto simp: next_in_def Let_def world_db_def)
  show thesis
    by (rule that [of "wd_pg v" "ci_pg i"])
      (use assms v in \<open>auto simp: on_pg_def n calm_for_def answering_def world_db_def split: prod.split\<close>)
qed

text \<open>The statements of a claim's work.\<close>

lemma calm_extend:
  assumes "calm_for key w" "row_at (world_db w) (baseline_pk key) = Some r" "rt_claimed_by r = Some me"
    and "so_Extend (pg_ops cd) me 0 key lease w = (x, v)"
  shows "x = Inr True" "calm_for key v" "feed_after w v"
    "\<exists>u. row_at (world_db v) (baseline_pk key) = Some (r\<lparr>rt_claimed_until := u\<rparr>)"
proof -
  let ?f = "\<lambda>i. pg_Extend i me 0 key lease"
  have call: "on_pg ?f w = (x, v)" using assms(4) by (simp add: pg_ops_def)
  obtain i s where s: "cn_ready (st_conn s)" "in_fault i = NoFault" "key_state key (st_db s) = key_state key (world_db w)"
    "fst (on_pg ?f w) = fst (?f i s)" "world_db (snd (on_pg ?f w)) = st_db (snd (?f i s))"
    "cn_ready (st_conn (snd (?f i s))) \<Longrightarrow> calm_for key (snd (on_pg ?f w))"
    by (rule on_pg_calm [OF assms(1), of ?f]) blast
  have row: "row_at (st_db s) (baseline_pk key) = Some r" using s(3) assms(2) by (simp add: key_state_def)
  with assms(3) have "held_row me 0 key r" "r \<in> set (db_retrain (st_db s))"
    by (auto simp: held_row_pk baseline_pk_def dest: row_at_Some)
  then have "0 < fst (sql_extend (in_now i) me 0 key lease (st_db s))" by (auto simp: sql_extend_def filter_empty_conv)
  then have "?f i s = (Inr True, s\<lparr>st_db := snd (sql_extend (in_now i) me 0 key lease (st_db s))\<rparr>)"
    using s(1,2) by (simp add: pg_Extend_def with_queue_def ensure_ready exec_def on_error_def)
  with call s row assms(3) on_pg_feed [of w ?f] show "x = Inr True" "calm_for key v" "feed_after w v"
    "\<exists>u. row_at (world_db v) (baseline_pk key) = Some (r\<lparr>rt_claimed_until := u\<rparr>)"
    by (auto simp: row_at_extend baseline_pk_def)
qed

lemma calm_put:
  assumes "calm_for key w" "so_Put (pg_ops cd) key rec m w = (x, v)"
  shows "x = (case encodeSnapshot cd m of Inl e \<Rightarrow> Inl e | Inr body \<Rightarrow> Inr ())" "calm_for key v" "feed_after w v"
    "row_at (world_db v) (baseline_pk key) = row_at (world_db w) (baseline_pk key)"
    "encodeSnapshot cd m = Inr body \<Longrightarrow> \<exists>t. snap_at (world_db v) key = Some (snap_of t key rec body)"
proof -
  let ?f = "\<lambda>i. pg_Put cd i key rec m"
  have call: "on_pg ?f w = (x, v)" using assms(2) by (simp add: pg_ops_def)
  obtain i s where s: "cn_ready (st_conn s)" "in_fault i = NoFault" "key_state key (st_db s) = key_state key (world_db w)"
    "fst (on_pg ?f w) = fst (?f i s)" "world_db (snd (on_pg ?f w)) = st_db (snd (?f i s))"
    "cn_ready (st_conn (snd (?f i s))) \<Longrightarrow> calm_for key (snd (on_pg ?f w))"
    by (rule on_pg_calm [OF assms(1), of ?f]) blast
  have "?f i s = (case encodeSnapshot cd m of Inl e \<Rightarrow> (Inl e, s)
      | Inr body \<Rightarrow> (Inr (), s\<lparr>st_db := sql_put (in_now i) key rec body (st_db s)\<rparr>))"
    using s(1,2) by (simp add: pg_Put_def ensure_ready exec_def split: sum.split)
  with call s on_pg_feed [of w ?f]
  show "x = (case encodeSnapshot cd m of Inl e \<Rightarrow> Inl e | Inr body \<Rightarrow> Inr ())" "calm_for key v" "feed_after w v"
    "row_at (world_db v) (baseline_pk key) = row_at (world_db w) (baseline_pk key)"
    "encodeSnapshot cd m = Inr body \<Longrightarrow> \<exists>t. snap_at (world_db v) key = Some (snap_of t key rec body)"
    by (auto simp: key_state_def snap_at_put split: sum.splits)
qed

lemma calm_done:
  assumes "calm_for key w" "row_at (world_db w) (baseline_pk key) = Some r" "rt_claimed_by r = Some me"
    and "so_Done (pg_ops cd) me 0 key nxt status a w = (d, v)"
  shows "d = Inr ()" "snap_at (world_db v) key = snap_at (world_db w) key"
    "\<exists>t. row_at (world_db v) (baseline_pk key) = Some (finish_row t nxt status a r)"
proof -
  let ?f = "\<lambda>i. pg_Done i me 0 key nxt status a"
  have call: "on_pg ?f w = (d, v)" using assms(4) by (simp add: pg_ops_def)
  obtain i s where s: "cn_ready (st_conn s)" "in_fault i = NoFault" "key_state key (st_db s) = key_state key (world_db w)"
    "fst (on_pg ?f w) = fst (?f i s)" "world_db (snd (on_pg ?f w)) = st_db (snd (?f i s))"
    by (rule on_pg_calm [OF assms(1), of ?f]) blast
  have "?f i s = (Inr (), s\<lparr>st_db := snd (sql_done (in_now i) me 0 key nxt status a (st_db s))\<rparr>)"
    using s(1,2) by (simp add: pg_Done_def with_queue_def ensure_ready exec_def on_error_def)
  with call s assms(2,3) show "d = Inr ()" "snap_at (world_db v) key = snap_at (world_db w) key"
    "\<exists>t. row_at (world_db v) (baseline_pk key) = Some (finish_row t nxt status a r)"
    by (auto simp: key_state_def row_at_done baseline_pk_def) (simp add: snap_at_def sql_done_def)
qed

end
