(* ===== verification/ClaimWork.thy ===== *)
theory ClaimWork imports CalmStore Scenarios
begin

text \<open>
  What working on a claim leaves in the database: the queue row and the model after \<open>trainHash\<close>, on every
  branch of it, while the store answers and nobody else touches the key.
\<close>

section \<open>Lemmas: the fit\<close>

text \<open>A series that the library fits, and whose model the codec takes.\<close>

definition fittable :: "('s, 'f, 'm) outside \<Rightarrow> 's \<Rightarrow> bool" where
  "fittable ou s \<longleftrightarrow> \<not> lb_Empty (ou_lib ou) s \<and> lastStep (ou_lib ou) s = minute
     \<and> (\<exists>f m body. lb_Fit (ou_lib ou) s = Inr f \<and> lb_SnapshotOf (ou_lib ou) f = Inr m
          \<and> encodeSnapshot (ou_codec ou) m = Inr body)"

definition all_fittable :: "('s, 'f, 'm) outside \<Rightarrow> 's world \<Rightarrow> bool" where
  "all_fittable ou w \<longleftrightarrow> (\<forall>n \<ge> wd_calls w. \<exists>s. ci_series (wd_feed w n) = Inr s \<and> fittable ou s)"

lemma fittable_later: "all_fittable ou w \<Longrightarrow> feed_after w v \<Longrightarrow> all_fittable ou v"
  by (auto simp: all_fittable_def feed_after_def)

lemma calm_fit:
  assumes "calm_for key w" "fitHash (world_env ou) (pg_ops (ou_codec ou)) p key now w = (e, v)"
  shows "calm_for key v" "row_at (world_db v) (baseline_pk key) = row_at (world_db w) (baseline_pk key)"
    "e = None \<Longrightarrow> \<exists>s. snap_at (world_db v) key = Some s \<and> sn_trained_at s = now"
    "all_fittable ou w \<Longrightarrow> e = None"
proof -
  let ?so = "pg_ops (ou_codec ou)" and ?lib = "ou_lib ou"
  obtain r w1 where ask: "ask ci_series w = (r, w1)" by fastforce
  with ask_calm [OF assms(1), of ci_series] have w1: "calm_for key w1" "key_state key (world_db w1) = key_state key (world_db w)"
    "r = ci_series (wd_feed w (wd_calls w))" by simp_all
  have fit: "all_fittable ou w \<Longrightarrow> \<exists>s. r = Inr s \<and> fittable ou s" by (auto simp: all_fittable_def w1(3))
  have env: "ev_lib (world_env ou) = ?lib" "ev_Series (world_env ou) k a b w = (r, w1)" for k a b
    using ask by (simp_all add: world_env_def)
  have "calm_for key v \<and> row_at (world_db v) (baseline_pk key) = row_at (world_db w) (baseline_pk key)
    \<and> (e = None \<longrightarrow> (\<exists>s. snap_at (world_db v) key = Some s \<and> sn_trained_at s = now)) \<and> (all_fittable ou w \<longrightarrow> e = None)"
  proof (cases "\<exists>s f m. r = Inr s \<and> \<not> lb_Empty ?lib s \<and> lastStep ?lib s = minute \<and> lb_Fit ?lib s = Inr f \<and> lb_SnapshotOf ?lib f = Inr m")
    case True
    then obtain s f m where s: "r = Inr s" "\<not> lb_Empty ?lib s" "lastStep ?lib s = minute" "lb_Fit ?lib s = Inr f"
      "lb_SnapshotOf ?lib f = Inr m" by blast
    obtain x u where put: "so_Put ?so key (fit_record (pb_cfg p) now) m w1 = (x, u)" by fastforce
    from assms(2) s put have ev: "e = (case x of Inl err \<Rightarrow> Some err | Inr _ \<Rightarrow> None)" "v = u"
      by (auto simp: fitHash_def env Let_def split: sum.splits)
    note st = calm_put [OF w1(1) put]
    show ?thesis
    proof (cases "encodeSnapshot (ou_codec ou) m")
      case (Inl err)
      with fit s st(1,2,4) ev w1(2) show ?thesis by (auto simp: key_state_def fittable_def)
    next
      case (Inr body)
      with st(1,2,4) st(5) [OF Inr] ev w1(2) show ?thesis by (auto simp: key_state_def snap_of_def fit_record_def)
    qed
  next
    case False
    with assms(2) have "e \<noteq> None" "v = w1"
      by (auto simp: fitHash_def env Let_def split: sum.splits if_splits prod.splits)
    with w1 fit False show ?thesis by (auto simp: key_state_def fittable_def)
  qed
  then show "calm_for key v" "row_at (world_db v) (baseline_pk key) = row_at (world_db w) (baseline_pk key)"
    "e = None \<Longrightarrow> \<exists>s. snap_at (world_db v) key = Some s \<and> sn_trained_at s = now" "all_fittable ou w \<Longrightarrow> e = None" by blast+
qed

lemma world_env_cron:
  "ev_cron (world_env ou) = ou_cron ou" "ev_location (world_env ou) = ou_location ou" "ev_quote (world_env ou) = ou_quote ou"
  by (simp_all add: world_env_def)

lemma calm_work:
  assumes "calm_for (rc_Key c) w" "train_work (world_env ou) (pg_ops (ou_codec ou)) p c now w = (x, v)"
  shows "calm_for (rc_Key c) v"
    "row_at (world_db v) (baseline_pk (rc_Key c)) = row_at (world_db w) (baseline_pk (rc_Key c))"
    "x = Inr nxt \<Longrightarrow> trainable p (rc_Key c) = None \<and> (\<exists>s. snap_at (world_db v) (rc_Key c) = Some s \<and> sn_trained_at s = now)
       \<and> (\<exists>sched. ou_cron ou (rc_Cron c) = Inr sched \<and> ou_location ou (rc_Timezone c) = None \<and> nxt = sched (rc_Timezone c) now)"
    "trainable p (rc_Key c) = None \<Longrightarrow> all_fittable ou w \<Longrightarrow> ou_cron ou (rc_Cron c) = Inr sched
       \<Longrightarrow> ou_location ou (rc_Timezone c) = None \<Longrightarrow> \<not> isl x"
proof -
  let ?key = "rc_Key c"
  obtain e u where fit: "fitHash (world_env ou) (pg_ops (ou_codec ou)) p ?key now w = (e, u)" by fastforce
  note f = calm_fit [OF assms(1) fit]
  have "calm_for ?key v \<and> row_at (world_db v) (baseline_pk ?key) = row_at (world_db w) (baseline_pk ?key)
    \<and> (x = Inr nxt \<longrightarrow> trainable p ?key = None \<and> (\<exists>s. snap_at (world_db v) ?key = Some s \<and> sn_trained_at s = now)
       \<and> (\<exists>sched. ou_cron ou (rc_Cron c) = Inr sched \<and> ou_location ou (rc_Timezone c) = None \<and> nxt = sched (rc_Timezone c) now))
    \<and> (trainable p ?key = None \<longrightarrow> all_fittable ou w \<longrightarrow> ou_cron ou (rc_Cron c) = Inr sched
       \<longrightarrow> ou_location ou (rc_Timezone c) = None \<longrightarrow> \<not> isl x)"
  proof (cases "trainable p ?key")
    case (Some err)
    with assms show ?thesis by (auto simp: train_work_def Let_def)
  next
    case None
    show ?thesis
    proof (cases e)
      case (Some err)
      with None assms(2) fit f show ?thesis by (auto simp: train_work_def Let_def)
    next
      case None': None
      with None assms(2) fit have "v = u" "x = nextRun (ou_quote ou) (ou_cron ou) (ou_location ou) (rc_Cron c) (rc_Timezone c) now"
        by (auto simp: train_work_def Let_def world_env_cron)
      with None None' f show ?thesis by (auto simp: nextRun_def split: sum.splits option.splits)
    qed
  qed
  then show "calm_for ?key v" "row_at (world_db v) (baseline_pk ?key) = row_at (world_db w) (baseline_pk ?key)"
    "x = Inr nxt \<Longrightarrow> trainable p ?key = None \<and> (\<exists>s. snap_at (world_db v) ?key = Some s \<and> sn_trained_at s = now)
       \<and> (\<exists>sched. ou_cron ou (rc_Cron c) = Inr sched \<and> ou_location ou (rc_Timezone c) = None \<and> nxt = sched (rc_Timezone c) now)"
    "trainable p ?key = None \<Longrightarrow> all_fittable ou w \<Longrightarrow> ou_cron ou (rc_Cron c) = Inr sched
       \<Longrightarrow> ou_location ou (rc_Timezone c) = None \<Longrightarrow> \<not> isl x" by blast+
qed

section \<open>Lemmas: the work on a claim\<close>

lemma claim_work_parts:
  assumes "calm_for (rc_Key c) w" "row_at (world_db w) (baseline_pk (rc_Key c)) = Some r"
    and "rt_claimed_by r = Some (self_id p)" "rc_OrgID c = 0" "0 \<le> rc_Attempts c" "rc_Attempts c < max64"
    and "0 < RetrainRetry (pb_cfg p)" "in64 (RetrainRetry (pb_cfg p))"
    and "0 < RetrainRetryMax (pb_cfg p)" "in64 (RetrainRetryMax (pb_cfg p))"
    and "trainHash (world_env ou) (pg_ops (ou_codec ou)) p c now w = ((trained, failed), p', w')"
  shows "failed \<longleftrightarrow> \<not> trained"
    and "fst ` set (pb_held p') = fst ` set (pb_held p) - {rc_Key c}"
    and "\<exists>t nxt status attempts. row_at (world_db w') (baseline_pk (rc_Key c)) =
          Some (r\<lparr>rt_next := Some nxt, rt_last_run := Some t, rt_status := Some status, rt_attempts := attempts,
                  rt_claimed_by := None, rt_claimed_until := None\<rparr>)
        \<and> (if trained
           then status = ''ok'' \<and> attempts = 0
             \<and> (\<exists>sched. ou_cron ou (rc_Cron c) = Inr sched \<and> ou_location ou (rc_Timezone c) = None
                  \<and> nxt = sched (rc_Timezone c) now)
             \<and> (\<exists>s. snap_at (world_db w') (rc_Key c) = Some s \<and> sn_trained_at s = now)
           else attempts = rc_Attempts c + 1
             \<and> nxt = now + min (RetrainRetryMax (pb_cfg p)) (RetrainRetry (pb_cfg p) * 2 ^ nat (rc_Attempts c))
             \<and> (\<exists>e. status = ''error: '' @ err_text e @ '' (attempt '' @ format_int (rc_Attempts c + 1) @ '')''))"
    and "trained \<Longrightarrow> trainable p (rc_Key c) = None"
    and "trainable p (rc_Key c) = None \<Longrightarrow> all_fittable ou w \<Longrightarrow> ou_cron ou (rc_Cron c) = Inr sched
        \<Longrightarrow> ou_location ou (rc_Timezone c) = None \<Longrightarrow> trained"
proof -
  let ?key = "rc_Key c" and ?ev = "world_env ou" and ?so = "pg_ops (ou_codec ou)"
  let ?att = "rc_Attempts c + 1"
  obtain x w1 where ext: "so_Extend ?so (self_id p) 0 ?key (RetrainLease (pb_cfg p)) w = (x, w1)" by fastforce
  note e = calm_extend [OF assms(1-3) ext]
  obtain u where row1: "row_at (world_db w1) (baseline_pk ?key) = Some (r\<lparr>rt_claimed_until := u\<rparr>)" using e(4) by blast
  obtain y w2 where work: "train_work ?ev ?so p c now w1 = (y, w2)" by fastforce
  note k = calm_work [OF e(2) work]
  have row2: "row_at (world_db w2) (baseline_pk ?key) = Some (r\<lparr>rt_claimed_until := u\<rparr>)" using k(2) row1 by simp
  have mine: "rt_claimed_by (r\<lparr>rt_claimed_until := u\<rparr>) = Some (self_id p)" using assms(3) by simp
  have att: "i64 ?att = ?att" using assms(5,6) by (intro i64_id) (simp add: in64_def min64_def)
  define nxt where "nxt = (case y of Inr n \<Rightarrow> n | Inl err \<Rightarrow> retry_at (pb_cfg p) now ?att)"
  define status where "status = (case y of Inr n \<Rightarrow> ''ok'' | Inl err \<Rightarrow> retryStatus err ?att)"
  define attempts where "attempts = (case y of Inr n \<Rightarrow> 0 | Inl err \<Rightarrow> ?att)"
  obtain d w3 where fin: "so_Done ?so (self_id p) 0 ?key nxt status attempts w2 = (d, w3)" by fastforce
  note dn = calm_done [OF k(1) row2 mine fin]
  have out: "trained = (\<not> isl y)" "failed = isl y" "p' = unhold ?key p" "w' = w3"
    using assms(4,11) ext e(1) work fin dn(1)
    by (cases y; simp add: trainHash_def finish_def Let_def att nxt_def status_def attempts_def)+
  show "failed \<longleftrightarrow> \<not> trained" using out by simp
  show "fst ` set (pb_held p') = fst ` set (pb_held p) - {?key}" using out held_keys_unhold by simp
  show "trained \<Longrightarrow> trainable p ?key = None" using out k(3) by (cases y) auto
  show "trainable p ?key = None \<Longrightarrow> all_fittable ou w \<Longrightarrow> ou_cron ou (rc_Cron c) = Inr sched
      \<Longrightarrow> ou_location ou (rc_Timezone c) = None \<Longrightarrow> trained"
    using out k(4) fittable_later [OF _ e(3)] by blast
  from dn(3) obtain t where row3: "row_at (world_db w') (baseline_pk ?key) = Some (r\<lparr>rt_next := Some nxt,
      rt_last_run := Some t, rt_status := Some status, rt_attempts := attempts, rt_claimed_by := None, rt_claimed_until := None\<rparr>)"
    using out by (auto simp: finish_row_def)
  moreover have "if trained
      then status = ''ok'' \<and> attempts = 0
        \<and> (\<exists>sched. ou_cron ou (rc_Cron c) = Inr sched \<and> ou_location ou (rc_Timezone c) = None
             \<and> nxt = sched (rc_Timezone c) now)
        \<and> (\<exists>s. snap_at (world_db w') ?key = Some s \<and> sn_trained_at s = now)
      else attempts = ?att
        \<and> nxt = now + min (RetrainRetryMax (pb_cfg p)) (RetrainRetry (pb_cfg p) * 2 ^ nat (rc_Attempts c))
        \<and> (\<exists>e. status = ''error: '' @ err_text e @ '' (attempt '' @ format_int ?att @ '')'')"
  proof (cases y)
    case (Inl err)
    then show ?thesis
      using out retryDelay_closed [OF assms(7-10), of ?att] assms(5)
      by (auto simp: nxt_def status_def attempts_def retry_at_def retryStatus_def time_add_def)
  next
    case (Inr n)
    with k(3) [of n] dn(2) out show ?thesis by (auto simp: nxt_def status_def attempts_def)
  qed
  ultimately show "\<exists>t nxt status attempts. row_at (world_db w') (baseline_pk ?key) =
      Some (r\<lparr>rt_next := Some nxt, rt_last_run := Some t, rt_status := Some status, rt_attempts := attempts,
              rt_claimed_by := None, rt_claimed_until := None\<rparr>)
    \<and> (if trained
       then status = ''ok'' \<and> attempts = 0
         \<and> (\<exists>sched. ou_cron ou (rc_Cron c) = Inr sched \<and> ou_location ou (rc_Timezone c) = None
              \<and> nxt = sched (rc_Timezone c) now)
         \<and> (\<exists>s. snap_at (world_db w') ?key = Some s \<and> sn_trained_at s = now)
       else attempts = ?att
         \<and> nxt = now + min (RetrainRetryMax (pb_cfg p)) (RetrainRetry (pb_cfg p) * 2 ^ nat (rc_Attempts c))
         \<and> (\<exists>e. status = ''error: '' @ err_text e @ '' (attempt '' @ format_int ?att @ '')''))" by blast
qed

section \<open>Properties\<close>

text \<open>
  C34: What becomes of a claim that is worked on, while the store answers and nobody else touches its row:
  \<open>trainHash\<close> answers either trained or failed, gives the row up (no owner, no lease) and drops the claim.
  A trained row has the status ok, no attempts and the next fire time of its own cron in its own time zone,
  and a model trained at this tick is stored. A failed one counts one attempt more, says so in a status that
  begins with error, and is due after the base delay doubled once per earlier attempt, at most the cap. All
  other columns stay. It is trained whenever the scan does not rule the key out, the series reads and fits, and
  the cron and zone are known, and never when the scan rules it out.
\<close>

theorem worked_claim_is_rescheduled:
  assumes "calm_for (rc_Key c) w" "row_at (world_db w) (baseline_pk (rc_Key c)) = Some r"
    and "rt_claimed_by r = Some (self_id p)" "rc_OrgID c = 0" "0 \<le> rc_Attempts c" "rc_Attempts c < max64"
    and "0 < RetrainRetry (pb_cfg p)" "in64 (RetrainRetry (pb_cfg p))"
    and "0 < RetrainRetryMax (pb_cfg p)" "in64 (RetrainRetryMax (pb_cfg p))"
    and "trainHash (world_env ou) (pg_ops (ou_codec ou)) p c now w = ((trained, failed), p', w')"
  shows "(failed \<longleftrightarrow> \<not> trained)
    \<and> fst ` set (pb_held p') = fst ` set (pb_held p) - {rc_Key c}
    \<and> (\<exists>t nxt status attempts. row_at (world_db w') (baseline_pk (rc_Key c)) =
          Some (r\<lparr>rt_next := Some nxt, rt_last_run := Some t, rt_status := Some status, rt_attempts := attempts,
                  rt_claimed_by := None, rt_claimed_until := None\<rparr>)
        \<and> (if trained
           then status = ''ok'' \<and> attempts = 0
             \<and> (\<exists>sched. ou_cron ou (rc_Cron c) = Inr sched \<and> ou_location ou (rc_Timezone c) = None
                  \<and> nxt = sched (rc_Timezone c) now)
             \<and> (\<exists>s. snap_at (world_db w') (rc_Key c) = Some s \<and> sn_trained_at s = now)
           else attempts = rc_Attempts c + 1
             \<and> nxt = now + min (RetrainRetryMax (pb_cfg p)) (RetrainRetry (pb_cfg p) * 2 ^ nat (rc_Attempts c))
             \<and> (\<exists>e. status = ''error: '' @ err_text e @ '' (attempt '' @ format_int (rc_Attempts c + 1) @ '')'')))
    \<and> (trained \<longrightarrow> trainable p (rc_Key c) = None)
    \<and> (trainable p (rc_Key c) = None \<and> all_fittable ou w \<and> (\<exists>sched. ou_cron ou (rc_Cron c) = Inr sched)
         \<and> ou_location ou (rc_Timezone c) = None \<longrightarrow> trained)"
  using claim_work_parts(1-4) [OF assms] claim_work_parts(5) [OF assms] by blast

text \<open>The worker \<open>a\<close> works on its claim on \<open>k1\<close>.\<close>

theorem worked_claim_is_rescheduled_witness:
  "\<exists>p' w' t. trainHash (world_env demo_outside) (pg_ops plain_codec) demo_worker demo_claim demo_now ready_world
       = ((True, False), p', w')
     \<and> row_at (world_db w') (baseline_pk ''k1'') = Some ((sample_row ''k1'' (demo_now + 24 * hour) None)
           \<lparr>rt_last_run := Some t, rt_status := Some ''ok''\<rparr>)"
proof -
  let ?r = "sample_row ''k1'' 10 (Some (''a'', 100))"
  have key: "rc_Key demo_claim = ''k1''" "rc_OrgID demo_claim = 0" "rc_Attempts demo_claim = 0" "self_id demo_worker = ''a''"
    "pb_cfg demo_worker = sample_config" by (simp_all add: demo_claim_def demo_worker_def)
  have calm: "calm_for (rc_Key demo_claim) ready_world"
    by (simp add: calm_for_def answering_def ready_world_def demo_feed_defs)
  have row: "row_at (world_db ready_world) (baseline_pk (rc_Key demo_claim)) = Some ?r"
    by (simp add: key row_at_def baseline_pk_def world_db_def ready_world_def sample_defs rt_pk_def)
  have owner: "rt_claimed_by ?r = Some (self_id demo_worker)" by (simp add: key sample_defs)
  have cfg: "0 \<le> rc_Attempts demo_claim" "rc_Attempts demo_claim < max64"
    "0 < RetrainRetry (pb_cfg demo_worker)" "in64 (RetrainRetry (pb_cfg demo_worker))"
    "0 < RetrainRetryMax (pb_cfg demo_worker)" "in64 (RetrainRetryMax (pb_cfg demo_worker))"
    by (simp_all add: key sample_config_def max64_def unit_defs in64_bounds)
  obtain tr fa p' w' where run: "trainHash (world_env demo_outside) (pg_ops (ou_codec demo_outside)) demo_worker demo_claim demo_now
      ready_world = ((tr, fa), p', w')" by (metis surj_pair)
  note worked = worked_claim_is_rescheduled [OF calm row owner key(2) cfg run]
  have "lastStep demo_lib [(demo_now - minute, F64_Fin 5), (demo_now, F64_Fin 5)] = minute"
    by (simp add: lastStep_def demo_lib_def demo_at_def time_sub_def minute_def min64_def max64_def)
  then have "all_fittable demo_outside ready_world"
    by (simp add: all_fittable_def fittable_def ready_world_def demo_feed_defs demo_outside_def demo_lib_def
        encodeSnapshot_def plain_codec_def)
  with worked demo_trainable key(1) have tr: tr by (auto simp: demo_outside_def)
  with worked run key(1) show ?thesis
    by (auto simp: demo_outside_def demo_claim_def sample_defs)
qed

end
