(* ===== verification/Shutdown.thy ===== *)
theory Shutdown imports PoolRuns Startup ClaimWork
begin

text \<open>
  The end of the process: the release of the held claims when the loop is cancelled, the deferred
  \<open>Publisher.Close\<close>, and \<open>main\<close> from its start to its exit code.
\<close>

section \<open>Close\<close>

text \<open>
  What \<open>Close\<close> does to the clients, in order. The publisher that \<open>main\<close> closes is wired, so its sink and its
  writer are not nil; the answer is the writer's, and \<open>main\<close> drops it.
\<close>

datatype closing = ClosePool string | CloseWriter kafka_writer

definition pg_Close :: "string option \<Rightarrow> closing list" where
  "pg_Close store = (case store of None \<Rightarrow> [] | Some dsn \<Rightarrow> [ClosePool dsn])"

definition kafka_Close :: "go_err option \<Rightarrow> kafka_writer option \<Rightarrow> go_err option \<times> closing list" where
  "kafka_Close answer sink = (case sink of None \<Rightarrow> (None, []) | Some kw \<Rightarrow> (answer, [CloseWriter kw]))"

definition Publisher_Close :: "go_err option \<Rightarrow> ('f, 'c) wired option \<Rightarrow> go_err option \<times> closing list" where
  "Publisher_Close answer wr =
     (case wr of
        None \<Rightarrow> (None, [])
      | Some w \<Rightarrow>
          (let (e, cs) = kafka_Close answer (Some (wr_sink w)) in (e, pg_Close (wr_store w) @ cs)))"

section \<open>main\<close>

text \<open>
  The process ends with code 1 before anything is opened, or it is still running, or its loop has returned
  and the deferred calls have closed the clients, with code 0. The signal only ends the context, which is
  the event \<open>Cancelled\<close> of the loop. The environment has a store when the wired publisher has one.
\<close>

datatype ('f, 'w) process =
    ExitFailure
  | Running "'f publisher" 'w
  | ExitSuccess "'f publisher" 'w "closing list"

inductive main_run :: "('w, 's, 'f, 'm) env \<Rightarrow> ('f, 'c) startup \<Rightarrow> loop_event list \<Rightarrow> 'w \<Rightarrow> ('f, 'w) process \<Rightarrow> bool"
  for ev :: "('w, 's, 'f, 'm) env" and start :: "('f, 'c) startup" and es :: "loop_event list" and w :: 'w where
  not_started: "(\<And>wr. start \<noteq> Started wr) \<Longrightarrow> main_run ev start es w ExitFailure"
| running: "\<lbrakk>start = Started wr; (ev_store ev = None) = (wr_store wr = None); worker_run ev es (wr_publisher wr) w (False, p, v)\<rbrakk> \<Longrightarrow> main_run ev start es w (Running p v)"
| returned: "\<lbrakk>start = Started wr; (ev_store ev = None) = (wr_store wr = None); worker_run ev es (wr_publisher wr) w (True, p, v); Publisher_Close answer (Some wr) = (e, cs)\<rbrakk>
     \<Longrightarrow> main_run ev start es w (ExitSuccess p v cs)"

inductive_cases main_runE: "main_run ev start es w out"

section \<open>Lemmas: a calm shutdown\<close>

lemma done_answers:
  assumes "answering w"
  shows "\<exists>v. so_Done (pg_ops cd) me org key nxt status a w = (Inr (), v) \<and> answering v"
  using assms
  by (auto simp: answering_def pg_ops_def on_pg_def next_in_def Let_def pg_Done_def with_queue_def ensure_def exec_def on_error_def)

lemma release_answered:
  "answering w \<Longrightarrow> fst ` set (pb_held (fst (release_claims (world_env ou) (pg_ops cd) cs p w)))
     = fst ` set (pb_held p) - rc_Key ` set cs"
proof (induction cs arbitrary: p w)
  case (Cons c cs)
  obtain t w1 where t: "ev_now (world_env ou) w = (t, w1)" by fastforce
  then have "answering w1" using ask_answering [OF Cons.prems, of ci_clock] by (simp add: world_env_def)
  from done_answers [OF this, of cd "self_id p" "rc_OrgID c" "rc_Key c" t "''error: interrupted''" "rc_Attempts c"]
  obtain v where d: "so_Done (pg_ops cd) (self_id p) (rc_OrgID c) (rc_Key c) t ''error: interrupted'' (rc_Attempts c) w1 = (Inr (), v)"
    and v: "answering v" by blast
  from t d Cons.IH [OF v, of "unhold (rc_Key c) p"] held_keys_unhold [of "rc_Key c" p] show ?case by auto
qed simp

text \<open>The release of a worker that knows its leases gives all of them back.\<close>

lemma release_hands_back:
  assumes "ou_store ou" "\<And>cs. set (ou_order ou cs) = set cs" "answering w" "leases.held_ok me p w"
    and "releaseHeld (world_env ou) p w = (p', w')"
  shows "pb_held p' = [] \<and> leased_to me (world_db w') = {}"
proof -
  have store: "ev_store (world_env ou) = Some (pg_ops (ou_codec ou))" using assms(1) by (simp add: world_env_def)
  have ord: "set (ev_heldOrder (world_env ou) cs) = set cs" for cs using assms(2) by (simp add: world_env_def)
  have "list_all (\<lambda>(k, c). rc_Key c = k \<and> rc_OrgID c = 0) (pb_held p)"
    using assms(4) by (simp add: leases.held_ok_def leases.claims_ok_def)
  then have "rc_Key ` set (map snd (pb_held p)) = fst ` set (pb_held p)" by (force simp: list_all_iff)
  then have held: "pb_held p' = []"
    using release_answered [OF assms(3), of ou "ou_codec ou" "ev_heldOrder (world_env ou) (map snd (pb_held p))" p]
      assms(5) store ord by (simp add: releaseHeld_def)
  from leases.releaseHeld_held [OF assms(4) ord] assms(5) have "leases.held_ok me p' w'" by simp
  with held show ?thesis by (simp add: leases.held_ok_def)
qed

section \<open>Lemmas: the process\<close>

text \<open>A loop that has returned ran until its first cancellation and released its claims there.\<close>

lemma loop_run_split:
  "loop_run ev es p w out \<Longrightarrow> fst out \<Longrightarrow> \<exists>before after p1 w1. es = before @ Cancelled # after
     \<and> loop_run ev before p w (False, p1, w1) \<and> releaseHeld ev p1 w1 = snd out"
proof (induction rule: loop_run.induct)
  case (returns p w p1 w1 es)
  then show ?case by (intro exI [of _ "[]"] exI [of _ es] exI [of _ p] exI [of _ w]) (simp add: loop_run.waiting)
next
  case (ticks p w r p1 w1 es out)
  then obtain before after p2 w2 where "es = before @ Cancelled # after"
    "loop_run ev before (logged r p1) w1 (False, p2, w2)" "releaseHeld ev p2 w2 = snd out" by blast
  with ticks.hyps(1) show ?case
    by (intro exI [of _ "Fired # before"] exI [of _ after] exI [of _ p2] exI [of _ w2]) (simp add: loop_run.ticks)
qed simp

lemma worker_run_split:
  "worker_run ev es p w (True, q, v) \<Longrightarrow> \<exists>before after p1 w1. es = before @ Cancelled # after
     \<and> worker_run ev before p w (False, p1, w1) \<and> releaseHeld ev p1 w1 = (q, v)"
  unfolding worker_run_def using loop_run_split [of ev es _ _ "(True, q, v)"] by fastforce

lemma started_holds_nothing:
  assumes "worker_main env url_parse cron_parse calendar h open_pool now = Started wr"
  shows "pb_held (wr_publisher wr) = []"
proof -
  from assms obtain cfg cal where "NewPublisher h open_pool now cfg cal = Inr wr" by (rule worker_mainE)
  then show ?thesis by (auto simp: NewPublisher_def Let_def newPublisher_def split: option.splits)
qed

section \<open>Properties\<close>

text \<open>
  C8: A graceful shutdown hands every lease back: when the loop is cancelled while the store answers, then
  whatever the other workers do in between, no row is leased to this worker any more when the loop has
  returned, and it holds no claim. That every lease is among the claims it holds, which is assumed here of the
  moment of the cancellation, is what every run of the worker keeps.
\<close>

theorem shutdown_hands_back:
  assumes "ou_store ou" "\<And>cs. set (ou_order ou cs) = set cs" "in_fleet cd (self_id p) w"
    and "leased_to (self_id p) (world_db w) \<subseteq> fst ` set (pb_held p)"
    and "list_all (\<lambda>(k, c). rc_Key c = k \<and> rc_OrgID c = 0) (pb_held p)" "answering w"
    and "loop_run (world_env ou) (Cancelled # es) p w (fin, p', w')"
  shows "fin \<and> pb_held p' = [] \<and> leased_to (self_id p) (world_db w') = {}"
proof -
  from assms(7) have fin: "fin" and rel: "releaseHeld (world_env ou) p w = (p', w')" by (auto elim: loop_run.cases)
  have "leases.held_ok (self_id p) p w"
    using in_fleet_ok [OF assms(3)] assms(4,5) by (simp add: leases.held_ok_def leases.claims_ok_def)
  from release_hands_back [OF assms(1,2,6) this rel] fin show ?thesis by simp
qed

theorem shutdown_hands_back_witness:
  "leased_to ''a'' (world_db ready_world) = {''k1''}
   \<and> (\<exists>p' w'. loop_run (world_env demo_outside) [Cancelled] demo_worker ready_world (True, p', w')
        \<and> leased_to ''a'' (world_db w') = {})"
proof
  show k1: "leased_to ''a'' (world_db ready_world) = {''k1''}"
    by (auto simp: leased_to_def holder_def row_at_def row_holder_def world_db_def ready_world_def
        sample_defs rt_pk_def lease_key_def split: if_splits)
  have me: "self_id demo_worker = ''a''" and held: "pb_held demo_worker = [(''k1'', demo_claim)]"
    by (simp_all add: demo_worker_def)
  have "fleet_input plain_codec ''a'' (demo_feed n)" for n
    by (auto simp: fleet_input_def demo_feed_defs intro!: exI [of _ "[]"])
  then have fleet: "in_fleet plain_codec (self_id demo_worker) ready_world"
    using sample_queue_inv by (simp add: in_fleet_def me ready_world_def world_db_def demo_world_def)
  have calm: "answering ready_world" by (simp add: answering_def ready_world_def demo_feed_defs)
  have outside: "ou_store demo_outside" "set (ou_order demo_outside cs) = set cs" for cs
    by (simp_all add: demo_outside_def)
  obtain p' w' where rel: "releaseHeld (world_env demo_outside) demo_worker ready_world = (p', w')" by fastforce
  note run = loop_run.returns [OF rel, of "[]"]
  have mine: "leased_to (self_id demo_worker) (world_db ready_world) \<subseteq> fst ` set (pb_held demo_worker)"
    by (simp add: me held k1)
  have claims: "list_all (\<lambda>(k, c). rc_Key c = k \<and> rc_OrgID c = 0) (pb_held demo_worker)"
    by (simp add: held demo_claim_def)
  from shutdown_hands_back [OF outside(1,2) fleet mine claims calm run] run me
  show "\<exists>p' w'. loop_run (world_env demo_outside) [Cancelled] demo_worker ready_world (True, p', w')
      \<and> leased_to ''a'' (world_db w') = {}" by auto
qed

text \<open>
  C9: A process that stops leaves no lease behind: when \<open>main\<close> of a worker with a store has ended with code 0,
  then its context was cancelled at some point, until which the worker only ticked; if the store answers
  from that point on, no row of the queue is leased to the worker when the process is gone, whatever failed
  before (except that a reply to one of its own statements was lost), however its training interleaved and
  whatever the rest of the fleet did. Its pool and then its writer were closed, each once. It started from the
  environment without a lease.
\<close>

theorem stopped_process_leaves_no_lease:
  fixes ou :: "('s, 'f, 'm) outside"
  assumes "worker_main env url_parse cron_parse calendar h open_pool now = Started wr" "wr_store wr = Some dsn"
    and "\<And>cs. set (ou_order ou cs) = set cs"
    and "in_fleet cd (self_id (wr_publisher wr)) w" "leased_to (self_id (wr_publisher wr)) (world_db w) = {}"
    and "main_run (world_env ou) (Started wr) es w (ExitSuccess p v cs)"
  shows "\<exists>before after p1 w1. es = before @ Cancelled # after
    \<and> worker_run (world_env ou) before (wr_publisher wr) w (False, p1, w1)
    \<and> (answering w1 \<longrightarrow> leased_to (self_id (wr_publisher wr)) (world_db v) = {} \<and> pb_held p = [])
    \<and> cs = [ClosePool dsn, CloseWriter (wr_sink wr)]"
proof -
  let ?me = "self_id (wr_publisher wr)"
  have ord: "set (ev_heldOrder (world_env ou) cs) = set cs" for cs using assms(3) by (simp add: world_env_def)
  from assms(6) obtain answer e where run: "(ev_store (world_env ou) = None) = (wr_store wr = None)"
    "worker_run (world_env ou) es (wr_publisher wr) w (True, p, v)" "Publisher_Close answer (Some wr) = (e, cs)"
    by (cases rule: main_run.cases) auto
  then have store: "ou_store ou" using assms(2) by (simp add: world_env_def split: if_splits)
  from run(3) assms(2) have close: "cs = [ClosePool dsn, CloseWriter (wr_sink wr)]"
    by (simp add: Publisher_Close_def kafka_Close_def pg_Close_def)
  obtain before after p1 w1 where split: "es = before @ Cancelled # after"
    "worker_run (world_env ou) before (wr_publisher wr) w (False, p1, w1)" "releaseHeld (world_env ou) p1 w1 = (p, v)"
    using worker_run_split [OF run(2)] by blast
  have "leases.held_ok ?me (wr_publisher wr) w"
    using in_fleet_ok [OF assms(4)] started_holds_nothing [OF assms(1)] assms(5)
    by (simp add: leases.held_ok_def leases.claims_ok_def)
  from leases.worker_run_held [OF split(2) ord this] have "leases.held_ok ?me p1 w1" .
  with release_hands_back [OF store assms(3) _ _ split(3)] split(1,2) close show ?thesis by blast
qed

text \<open>A worker with a store that is stopped after its first tick.\<close>

theorem stopped_process_leaves_no_lease_witness:
  "\<exists>(wr :: (f64, unit) wired) p v. store_start = Started wr
     \<and> main_run (world_env demo_outside) (Started wr) [Cancelled] (demo_world empty_db demo_feed)
         (ExitSuccess p v [ClosePool ''postgres://db'', CloseWriter (wr_sink wr)])
     \<and> (\<exists>p1 w1. worker_run (world_env demo_outside) [] (wr_publisher wr) (demo_world empty_db demo_feed) (False, p1, w1)
          \<and> (answering w1 \<longrightarrow> pb_held p = []))"
proof -
  let ?w = "demo_world empty_db demo_feed"
  obtain wr :: "(f64, unit) wired" where st: "store_start = Started wr" "wr_store wr = Some ''postgres://db''"
    by (rule store_settings_start)
  let ?me = "self_id (wr_publisher wr)"
  have fleet: "in_fleet plain_codec ?me ?w"
    by (auto simp: in_fleet_def fleet_input_def world_db_def demo_feed_defs openPostgresStore_def queue_inv_def db_inv_def
        empty_db_def intro!: exI [of _ "[]"])
  have free: "leased_to ?me (world_db ?w) = {}"
    by (simp add: leased_to_def holder_def row_at_def world_db_def demo_world_def openPostgresStore_def empty_db_def)
  have ord: "set (ou_order demo_outside cs) = set cs" for cs by (simp add: demo_outside_def)
  obtain fin p v where run: "Run (world_env demo_outside) [Cancelled] (wr_publisher wr) ?w = (fin, p, v)" by (rule prod_cases3)
  then have "fin" by (auto simp: Run_def Let_def split: prod.splits)
  with run Run_is_run [of "world_env demo_outside" "[Cancelled]" "wr_publisher wr" ?w]
  have wr: "worker_run (world_env demo_outside) [Cancelled] (wr_publisher wr) ?w (True, p, v)" by simp
  obtain e cs where close: "Publisher_Close None (Some wr) = (e, cs)" by fastforce
  have "(ev_store (world_env demo_outside) = None) = (wr_store wr = None)" by (simp add: world_env_def st(2) demo_outside_def)
  from main_run.returned [OF refl this wr close]
  have mr: "main_run (world_env demo_outside) (Started wr) [Cancelled] ?w (ExitSuccess p v cs)" .
  from stopped_process_leaves_no_lease [OF st ord fleet free mr] obtain before after p1 w1 where
    o: "[Cancelled] = before @ Cancelled # after" "worker_run (world_env demo_outside) before (wr_publisher wr) ?w (False, p1, w1)"
      "answering w1 \<longrightarrow> pb_held p = []" "cs = [ClosePool ''postgres://db'', CloseWriter (wr_sink wr)]" by blast
  from o(1) have "before = []" by (cases before) auto
  with o(2-4) mr st(1) show ?thesis by blast
qed

end
