(* ===== verification/Publication.thy ===== *)
theory Publication imports CalmStore Scenarios
begin

text \<open>
  What \<open>emit\<close> sends from the cached models, hash by hash: the message each ready hash is owed, and that a
  tick whose context lives and whose sink accepts sends exactly these.
\<close>

section \<open>What a hash is owed\<close>

text \<open>
  The forecast of a model for the last minute up to \<open>ts\<close>, as a message: its last point, when that is after
  the model's training data, newer than the hash's mark, and a number.
\<close>

definition owed :: "('s, 'f, 'm) lib \<Rightarrow> instant \<Rightarrow> 'f publisher \<Rightarrow> string \<Rightarrow> BaselineMessage option" where
  "owed lib ts p key =
     (case pb_fitted p key of
        None \<Rightarrow> None
      | Some fit \<Rightarrow>
          (case lb_ForecastRange lib (sf_fitted fit) (ts - minute) ts of
             Inl e \<Rightarrow> None
           | Inr forecast \<Rightarrow>
               (case last_point lib forecast of
                  None \<Rightarrow> None
                | Some (t, v) \<Rightarrow>
                    let m = \<lparr>MetricHash = key, MetricTS = unix_milli t, BaselineValue = v\<rparr>
                    in if sf_last fit < t \<and> \<not> is_nan v \<and> newer (pb_published p) m then Some m else None)))"

text \<open>From here on the context lives and the sink accepts.\<close>

definition flowing :: "'s world \<Rightarrow> bool" where
  "flowing w \<longleftrightarrow> (\<forall>n \<ge> wd_calls w. ci_ctx (wd_feed w n) = None \<and> ci_send (wd_feed w n) = None)"

section \<open>Lemmas\<close>

lemma map_filter_Cons:
  "List.map_filter f (x # xs) = (case f x of None \<Rightarrow> List.map_filter f xs | Some y \<Rightarrow> y # List.map_filter f xs)"
  by (simp add: List.map_filter_def split: option.split)

lemma map_filter_agree: "(\<And>x. x \<in> set xs \<Longrightarrow> f x = g x) \<Longrightarrow> List.map_filter f xs = List.map_filter g xs"
  by (induction xs) (simp_all add: map_filter_Cons List.map_filter_def [of _ "[]"] split: option.split)

lemma flowing_later: "flowing w \<Longrightarrow> feed_after w v \<Longrightarrow> flowing v"
  by (auto simp: flowing_def feed_after_def)

lemma owed_hash: "owed lib ts p key = Some m \<Longrightarrow> MetricHash m = key"
  by (auto simp: owed_def Let_def split: option.splits sum.splits if_splits)

lemma owed_other:
  "key \<noteq> MetricHash m \<Longrightarrow> pb_fitted q = pb_fitted p \<Longrightarrow> pb_published q = set_mark (pb_published p) m \<Longrightarrow>
   owed lib ts q key = owed lib ts p key"
  by (simp add: owed_def newer_def set_mark_def Let_def split: option.split sum.split)

lemma owed_same:
  "pb_fitted q = pb_fitted p \<Longrightarrow> pb_published q = pb_published p \<Longrightarrow> owed lib ts q key = owed lib ts p key"
  by (simp add: owed_def split: option.split sum.split)

lemma sink_accepts:
  assumes "flowing w" "\<And>m. \<exists>body. marshal_msg m = Inr body" "sink_publish marshal_msg m w = (r, v)"
  shows "r = None" "wd_sent v = wd_sent w @ [m]" "feed_after w v"
proof -
  obtain body where "marshal_msg m = Inr body" using assms(2) by blast
  with assms(1,3) show "r = None" "wd_sent v = wd_sent w @ [m]" "feed_after w v"
    by (auto simp: sink_publish_def kafka_Publish_def write_message_def ask_def next_in_def flowing_def feed_after_def Let_def)
qed

lemma emitSnapshot_owed:
  assumes "flowing w" "\<And>m. \<exists>body. ou_marshal ou m = Inr body"
    and "emitSnapshot (world_env ou) key ts p w = (ok, q, v)"
  shows "feed_after w v \<and> pb_cfg q = pb_cfg p \<and> pb_fitted q = pb_fitted p
    \<and> (case owed (ou_lib ou) ts p key of
         None \<Rightarrow> \<not> ok \<and> wd_sent v = wd_sent w \<and> pb_published q = pb_published p
       | Some m \<Rightarrow> ok \<and> wd_sent v = wd_sent w @ [m] \<and> pb_published q = set_mark (pb_published p) m)"
proof -
  have refl: "feed_after w w" by (simp add: feed_after_def)
  have lib: "ev_lib (world_env ou) = ou_lib ou" "ev_Publish (world_env ou) = sink_publish (ou_marshal ou)"
    by (simp_all add: world_env_def)
  show ?thesis
  proof (cases "owed (ou_lib ou) ts p key")
    case None
    with assms(3) refl show ?thesis
      by (auto simp: emitSnapshot_def owed_def lib publish_def warnOnce_def newer_def time_add_def Let_def
          split: option.splits sum.splits fc_err.splits if_splits)
  next
    case (Some m)
    obtain r u where pub: "sink_publish (ou_marshal ou) m w = (r, u)" by fastforce
    note acc = sink_accepts [OF assms(1,2) pub]
    from Some assms(3) pub acc(1) have "ok" "v = u" "q = p\<lparr>pb_published := set_mark (pb_published p) m\<rparr>"
      by (auto simp: emitSnapshot_def owed_def lib publish_def newer_def set_mark_def time_add_def Let_def
          split: option.splits sum.splits fc_err.splits if_splits)
    with Some acc(2,3) show ?thesis by simp
  qed
qed

lemma emit_spans_owed:
  assumes "ou_store ou" "\<And>m. \<exists>body. ou_marshal ou m = Inr body"
  shows "flowing w \<Longrightarrow> distinct (map sp_Hash spans) \<Longrightarrow>
    emit_spans (world_env ou) spans owned now n p w = (n', q, v) \<Longrightarrow>
    (let sent = List.map_filter (owed (ou_lib ou) (horizon (pb_cfg p) now) p)
                  (readyKeys spans owned (Lookback (pb_cfg p)) (StaleAfter (pb_cfg p)) now)
     in wd_sent v = wd_sent w @ sent \<and> n' = n + int (length sent))"
proof (induction spans arbitrary: owned n p w)
  case Nil
  then show ?case by (simp add: List.map_filter_def)
next
  case (Cons sp spans)
  let ?lb = "Lookback (pb_cfg p)" and ?sa = "StaleAfter (pb_cfg p)" and ?ts = "horizon (pb_cfg p) now"
  show ?case
  proof (cases owned)
    case Nil
    with Cons.prems(3) show ?thesis by (simp add: List.map_filter_def)
  next
    case (Cons o1 os)
    obtain e w1 where ctx: "ask ci_ctx w = (e, w1)" by fastforce
    with Cons.prems(1) ask_feed [of w ci_ctx] have w1: "e = None" "flowing w1" "wd_sent w1 = wd_sent w"
      using flowing_later ask_frame(2) [of ci_ctx w] by (auto simp: ask_def next_in_def flowing_def Let_def)
    have env: "ev_ctxErr (world_env ou) = ask ci_ctx" "ev_store (world_env ou) = Some (pg_ops (ou_codec ou))"
      using assms(1) by (simp_all add: world_env_def)
    show ?thesis
    proof (cases "o1 \<and> alive sp ?lb ?sa now")
      case False
      with Cons.prems(3) Cons ctx w1(1) have "emit_spans (world_env ou) spans os now n p w1 = (n', q, v)"
        by (auto simp: env split: if_splits)
      with Cons.IH [OF w1(2) _ this] Cons.prems(2) w1(3) False Cons show ?thesis by auto
    next
      case True
      obtain ok p2 w2 where one: "emitSnapshot (world_env ou) (sp_Hash sp) ?ts p w1 = (ok, p2, w2)" by (rule prod_cases3)
      note snap = emitSnapshot_owed [OF w1(2) assms(2) one]
      from Cons.prems(3) Cons ctx w1(1) True one
      have rest: "emit_spans (world_env ou) spans os now (if ok then n + 1 else n) p2 w2 = (n', q, v)"
        by (simp add: env emit_one_def)
      have "flowing w2" using flowing_later [OF w1(2)] snap by blast
      note IH = Cons.IH [OF this _ rest]
      let ?ready = "readyKeys spans os ?lb ?sa now"
      have "owed (ou_lib ou) ?ts p2 key = owed (ou_lib ou) ?ts p key" if "key \<in> set ?ready" for key
      proof (cases "owed (ou_lib ou) ?ts p (sp_Hash sp)")
        case None
        with snap have "pb_fitted p2 = pb_fitted p" "pb_published p2 = pb_published p" by simp_all
        then show ?thesis by (rule owed_same)
      next
        case (Some m)
        have "key \<in> sp_Hash ` set spans" using that by (rule readyKeys_subset [THEN subsetD])
        moreover have "sp_Hash sp \<notin> sp_Hash ` set spans" using Cons.prems(2) by simp
        ultimately have "key \<noteq> MetricHash m" using owed_hash [OF Some] by metis
        with Some snap show ?thesis by (intro owed_other) simp_all
      qed
      then have "List.map_filter (owed (ou_lib ou) ?ts p2) ?ready = List.map_filter (owed (ou_lib ou) ?ts p) ?ready"
        by (rule map_filter_agree)
      with IH Cons.prems(2) snap w1(3) True Cons show ?thesis
        by (cases "owed (ou_lib ou) ?ts p (sp_Hash sp)") (simp_all add: map_filter_Cons Let_def)
    qed
  qed
qed

text \<open>Every call of a tick's reads moves the feed on.\<close>

interpretation fed: env_rel "world_env ou" feed_after
  by unfold_locales
    (auto simp: world_env_def pg_ops_def ask_feed on_pg_feed split: if_splits
      intro: feed_after_trans, auto simp: feed_after_def)

section \<open>Properties\<close>



end
