(* ===== verification/DruidClient.thy ===== *)
theory DruidClient imports Druid
begin

text \<open>
  A concrete client for \<open>druid_sql\<close>: how the blocking calls (the slot, the rate limiter, the sleeping
  timer) and the requests end are inputs, the requests sent, the delays slept and the slots in use are
  recorded. The lemmas give the retry loop in closed form.
\<close>

record druid_world =
  dw_blocks :: "nat \<Rightarrow> go_err option"
  dw_replies :: "nat \<Rightarrow> go_err + http_response"
  dw_step :: nat
  dw_inflight :: int
  dw_sent :: "http_request list"
  dw_slept :: "duration list"

text \<open>The next blocking call ends as the input says.\<close>

definition block :: "druid_world \<Rightarrow> go_err option \<times> druid_world" where
  "block w = (dw_blocks w (dw_step w), w\<lparr>dw_step := Suc (dw_step w)\<rparr>)"

definition take_slot :: "druid_world \<Rightarrow> go_err option \<times> druid_world" where
  "take_slot w =
     (case block w of
        (Some e, w) \<Rightarrow> (Some e, w)
      | (None, w) \<Rightarrow> (None, w\<lparr>dw_inflight := dw_inflight w + 1\<rparr>))"

definition post :: "http_request \<Rightarrow> druid_world \<Rightarrow> (go_err + http_response) \<times> druid_world" where
  "post rq w = (dw_replies w (length (dw_sent w)), w\<lparr>dw_sent := dw_sent w @ [rq]\<rparr>)"

definition client_io :: "(string \<Rightarrow> go_err + string) \<Rightarrow> (string \<Rightarrow> go_err + row list) \<Rightarrow> (string \<Rightarrow> go_err option)
    \<Rightarrow> druid_world druid_io" where
  "client_io marshal_query unmarshal_rows badURL =
     \<lparr>io_marshal = marshal_query, io_unmarshal = unmarshal_rows, io_badURL = badURL,
      io_acquire = take_slot, io_release = (\<lambda>w. w\<lparr>dw_inflight := dw_inflight w - 1\<rparr>),
      io_wait = block, io_sleep = (\<lambda>t w. block (w\<lparr>dw_slept := dw_slept w @ [t]\<rparr>)), io_send = post\<rparr>"

section \<open>Lemmas\<close>

text \<open>The delays slept by \<open>k\<close> attempts that start with number \<open>a\<close>.\<close>

definition sleeps_from :: "int \<Rightarrow> nat \<Rightarrow> duration list" where
  "sleeps_from a k = map (\<lambda>i. retryBackoff (a + int i)) (filter (\<lambda>i. 0 < a + int i) [0..<k])"

lemma sleeps_from_0 [simp]: "sleeps_from a 0 = []"
  by (simp add: sleeps_from_def)

lemma sleeps_from_Suc: "sleeps_from a (Suc k) = (if 0 < a then [retryBackoff a] else []) @ sleeps_from (a + 1) k"
proof -
  have "[0..<Suc k] = 0 # map Suc [0..<k]" by (simp add: upt_conv_Cons map_Suc_upt del: upt_Suc)
  then show ?thesis by (simp add: sleeps_from_def filter_map o_def algebra_simps del: upt_Suc)
qed

lemma sleeps_from_start: "sleeps_from 0 (Suc k) = map (\<lambda>i. retryBackoff (int i)) [1..<Suc k]"
proof -
  have "filter (\<lambda>i. 0 < int i) [1..<Suc k] = [1..<Suc k]" by (rule filter_True) auto
  moreover have "[0..<Suc k] = 0 # [1..<Suc k]" by (simp add: upt_conv_Cons del: upt_Suc)
  ultimately show ?thesis by (simp add: sleeps_from_def del: upt_Suc)
qed

lemma length_sleeps_from: "length (sleeps_from a k) \<le> k"
  unfolding sleeps_from_def using length_filter_le [of "\<lambda>i. 0 < a + int i" "[0..<k]"] by simp

lemma block_frame:
  "block w = (e, v) \<Longrightarrow> dw_sent v = dw_sent w \<and> dw_slept v = dw_slept w \<and> dw_inflight v = dw_inflight w
     \<and> dw_replies v = dw_replies w \<and> dw_blocks v = dw_blocks w"
  by (auto simp: block_def)

text \<open>The pause before an attempt.\<close>

definition pause :: "int \<Rightarrow> druid_world \<Rightarrow> go_err option \<times> druid_world" where
  "pause a w = (if 0 < a then block (w\<lparr>dw_slept := dw_slept w @ [retryBackoff a]\<rparr>) else (None, w))"

lemma pause_frame:
  "pause a w = (e, v) \<Longrightarrow> dw_sent v = dw_sent w \<and> dw_slept v = dw_slept w @ (if 0 < a then [retryBackoff a] else [])
     \<and> dw_inflight v = dw_inflight w \<and> dw_replies v = dw_replies w \<and> dw_blocks v = dw_blocks w"
  by (auto simp: pause_def dest!: block_frame split: if_splits)

definition outcome :: "druidStore \<Rightarrow> 'w druid_io \<Rightarrow> go_err + http_response \<Rightarrow> (go_err + row list) \<times> bool" where
  "outcome d io reply = (case reply of Inl e \<Rightarrow> (Inl e, True) | Inr resp \<Rightarrow> read_reply d io resp)"

lemma client_fields:
  "io_marshal (client_io m u b) = m" "io_unmarshal (client_io m u b) = u" "io_badURL (client_io m u b) = b"
  "io_acquire (client_io m u b) = take_slot" "io_wait (client_io m u b) = block" "io_send (client_io m u b) = post"
  "io_release (client_io m u b) w = w\<lparr>dw_inflight := dw_inflight w - 1\<rparr>"
  "io_sleep (client_io m u b) t w = block (w\<lparr>dw_slept := dw_slept w @ [t]\<rparr>)"
  by (simp_all add: client_io_def)

lemma client_do:
  "druid_do d (client_io m u b) body w =
     (case b (rq_url (druid_request d body)) of
        Some e \<Rightarrow> ((Inl e, False), w)
      | None \<Rightarrow> (outcome d (client_io m u b) (dw_replies w (length (dw_sent w))),
                 w\<lparr>dw_sent := dw_sent w @ [druid_request d body]\<rparr>))"
  by (simp add: druid_do_def client_fields post_def outcome_def Let_def split: sum.split option.split)

lemma client_attempts_Suc:
  "druid_attempts d (client_io m u b) body (Suc n) a le w =
     (case pause a w of
        (Some e, w) \<Rightarrow> (Inl e, w)
      | (None, w) \<Rightarrow>
          (case block w of
             (Some e, w) \<Rightarrow> (Inl e, w)
           | (None, w) \<Rightarrow>
               (case druid_do d (client_io m u b) body w of
                  ((Inr rows, retryable), w) \<Rightarrow> (Inr rows, w)
                | ((Inl e, retryable), w) \<Rightarrow>
                    if retryable then druid_attempts d (client_io m u b) body n (a + 1) (Some e) w
                    else (Inl e, w))))"
  by (simp add: pause_def client_fields cong: option.case_cong prod.case_cong)

text \<open>Whatever happens, the requests are the same one at most \<open>n\<close> times, each but the first after its pause.\<close>

definition bounded_run :: "http_request \<Rightarrow> nat \<Rightarrow> int \<Rightarrow> druid_world \<Rightarrow> druid_world \<Rightarrow> bool" where
  "bounded_run rq n a w w' \<longleftrightarrow> dw_inflight w' = dw_inflight w
     \<and> (\<exists>k j. k \<le> j \<and> j \<le> n \<and> j \<le> Suc k \<and> dw_sent w' = dw_sent w @ replicate k rq
            \<and> dw_slept w' = dw_slept w @ sleeps_from a j)"

lemma bounded_runI:
  "k \<le> j \<Longrightarrow> j \<le> n \<Longrightarrow> j \<le> Suc k \<Longrightarrow> dw_sent w' = dw_sent w @ replicate k rq \<Longrightarrow>
   dw_slept w' = dw_slept w @ sleeps_from a j \<Longrightarrow> dw_inflight w' = dw_inflight w \<Longrightarrow> bounded_run rq n a w w'"
  by (auto simp: bounded_run_def)

lemma bounded_run_refl: "bounded_run rq n a w w"
  by (rule bounded_runI [of 0 0]) simp_all

lemma bounded_run_stop:
  "pause a w = (e, v) \<Longrightarrow> dw_sent u = dw_sent v \<Longrightarrow> dw_slept u = dw_slept v \<Longrightarrow> dw_inflight u = dw_inflight v \<Longrightarrow>
   bounded_run rq (Suc n) a w u"
  using pause_frame [of a w e v] sleeps_from_Suc [of a 0]
  by (intro bounded_runI [of 0 1]) simp_all

lemma bounded_run_more:
  assumes "pause a w = (e, v)" "dw_sent u = dw_sent v @ [rq]" "dw_slept u = dw_slept v" "dw_inflight u = dw_inflight v"
    and "bounded_run rq n (a + 1) u w'"
  shows "bounded_run rq (Suc n) a w w'"
proof -
  from assms(5) obtain k j where k: "k \<le> j" "j \<le> n" "j \<le> Suc k" "dw_sent w' = dw_sent u @ replicate k rq"
    "dw_slept w' = dw_slept u @ sleeps_from (a + 1) j" "dw_inflight w' = dw_inflight u"
    by (auto simp: bounded_run_def)
  with assms(2-4) pause_frame [OF assms(1)] show ?thesis
    by (intro bounded_runI [of "Suc k" "Suc j"]) (simp_all add: sleeps_from_Suc)
qed

lemma attempts_bounded:
  "bounded_run (druid_request d body) n a w (snd (druid_attempts d (client_io m u b) body n a le w))"
proof (induction n arbitrary: a le w)
  case 0
  then show ?case by (auto simp: bounded_run_refl split: option.split)
next
  case (Suc n)
  obtain e1 v where v: "pause a w = (e1, v)" by fastforce
  obtain e2 x where x: "block v = (e2, x)" by fastforce
  note fr = block_frame [OF x]
  let ?sent = "x\<lparr>dw_sent := dw_sent x @ [druid_request d body]\<rparr>"
  have stop: "bounded_run (druid_request d body) (Suc n) a w v" "bounded_run (druid_request d body) (Suc n) a w x"
    using bounded_run_stop [OF v] fr by simp_all
  have more: "bounded_run (druid_request d body) (Suc n) a w y" if "bounded_run (druid_request d body) n (a + 1) ?sent y" for y
    using bounded_run_more [OF v _ _ _ that] fr by simp
  show ?case
  proof (cases "e1 = None \<and> e2 = None \<and> b (rq_url (druid_request d body)) = None")
    case False
    with v x stop show ?thesis
      by (cases e1; cases e2; cases "b (rq_url (druid_request d body))") (simp_all add: client_attempts_Suc client_do del: druid_attempts.simps)
  next
    case True
    obtain r retryable where r: "outcome d (client_io m u b) (dw_replies x (length (dw_sent x))) = (r, retryable)"
      by fastforce
    have "bounded_run (druid_request d body) (Suc n) a w ?sent" by (rule more [OF bounded_run_refl])
    with True v x r more [OF Suc.IH] show ?thesis
      by (cases r) (simp_all add: client_attempts_Suc client_do del: druid_attempts.simps)
  qed
qed

text \<open>
  With no interruption the loop is a search: the first outcome that is not a retryable failure settles
  the call, and the last one does when there is none.
\<close>

definition retried :: "(go_err + row list) \<times> bool \<Rightarrow> bool" where
  "retried r \<longleftrightarrow> isl (fst r) \<and> snd r"

definition settled_at :: "((go_err + row list) \<times> bool) list \<Rightarrow> nat" where
  "settled_at outs = length (takeWhile retried (butlast outs))"

definition outcomes :: "druidStore \<Rightarrow> 'w druid_io \<Rightarrow> (nat \<Rightarrow> go_err + http_response) \<Rightarrow> nat \<Rightarrow> nat
    \<Rightarrow> ((go_err + row list) \<times> bool) list" where
  "outcomes d io replies i n = map (\<lambda>k. outcome d io (replies (i + k))) [0..<n]"

lemma outcomes_Suc: "outcomes d io replies i (Suc n) = outcome d io (replies i) # outcomes d io replies (Suc i) n"
proof -
  have "[0..<Suc n] = 0 # map Suc [0..<n]" by (simp add: upt_conv_Cons map_Suc_upt del: upt_Suc)
  then show ?thesis by (simp add: outcomes_def del: upt_Suc)
qed

lemma outcomes_nonempty: "outcomes d io replies i n = [] \<longleftrightarrow> n = 0"
  by (simp add: outcomes_def)

definition calm :: "druid_world \<Rightarrow> bool" where
  "calm w \<longleftrightarrow> (\<forall>i. dw_blocks w i = None)"

lemma calm_block: "calm w \<Longrightarrow> \<exists>v. block w = (None, v) \<and> calm v"
  by (simp add: calm_def block_def)

lemma calm_pause: "calm w \<Longrightarrow> \<exists>v. pause a w = (None, v) \<and> calm v"
  by (simp add: calm_def block_def pause_def)

lemma attempts_settle:
  assumes "b (rq_url (druid_request d body)) = None"
  shows "calm w \<Longrightarrow> 0 < n \<Longrightarrow>
    outs = outcomes d (client_io m u b) (dw_replies w) (length (dw_sent w)) n \<Longrightarrow>
    druid_attempts d (client_io m u b) body n a le w = (r, w') \<Longrightarrow>
    r = fst (outs ! settled_at outs)
    \<and> dw_sent w' = dw_sent w @ replicate (Suc (settled_at outs)) (druid_request d body)
    \<and> dw_slept w' = dw_slept w @ sleeps_from a (Suc (settled_at outs))"
proof (induction n arbitrary: a le w outs)
  case (Suc n)
  let ?io = "client_io m u b" and ?rq = "druid_request d body"
  obtain v where v: "pause a w = (None, v)" "calm v" using calm_pause [OF Suc.prems(1)] by blast
  obtain x where x: "block v = (None, x)" "calm x" using calm_block [OF v(2)] by blast
  have fr: "dw_sent x = dw_sent w" "dw_slept x = dw_slept w @ (if 0 < a then [retryBackoff a] else [])"
    "dw_replies x = dw_replies w"
    using block_frame [OF x(1)] pause_frame [OF v(1)] by simp_all
  let ?s = "x\<lparr>dw_sent := dw_sent x @ [?rq]\<rparr>"
  let ?rest = "outcomes d ?io (dw_replies w) (Suc (length (dw_sent w))) n"
  obtain o1 again where o1: "outcome d ?io (dw_replies w (length (dw_sent w))) = (o1, again)" by fastforce
  have outs: "outs = (o1, again) # ?rest" using Suc.prems(3) o1 by (simp add: outcomes_Suc)
  have step: "druid_attempts d ?io body (Suc n) a le w =
      (case o1 of Inr rows \<Rightarrow> (Inr rows, ?s)
       | Inl e \<Rightarrow> if again then druid_attempts d ?io body n (a + 1) (Some e) ?s else (Inl e, ?s))"
    using v x o1 fr assms by (cases o1) (simp_all add: client_attempts_Suc client_do del: druid_attempts.simps)
  show ?case
  proof (cases "retried (o1, again) \<and> n \<noteq> 0")
    case True
    then obtain e where e: "o1 = Inl e" again "0 < n" by (cases o1) (auto simp: retried_def)
    have s: "calm ?s" "dw_replies ?s = dw_replies w" "length (dw_sent ?s) = Suc (length (dw_sent w))"
      using x(2) fr by (simp_all add: calm_def)
    from e step Suc.prems(4) have run: "druid_attempts d ?io body n (a + 1) (Some e) ?s = (r, w')" by simp
    have "?rest \<noteq> []" using e(3) by (simp add: outcomes_nonempty)
    then have "settled_at outs = Suc (settled_at ?rest)" using True outs by (simp add: settled_at_def)
    with Suc.IH [OF s(1) e(3) _ run, of ?rest] s(2,3) fr outs show ?thesis
      by (simp add: sleeps_from_Suc)
  next
    case False
    then have "settled_at outs = 0" using outs by (auto simp: settled_at_def outcomes_nonempty)
    moreover have "druid_attempts d ?io body (Suc n) a le w = (o1, ?s)"
    proof (cases o1)
      case (Inl e)
      show ?thesis
      proof (cases again)
        case True
        with False Inl have "n = 0" by (simp add: retried_def)
        with True Inl show ?thesis unfolding step by simp
      qed (unfold step, simp add: Inl)
    qed (unfold step, simp)
    then have "r = o1" "w' = ?s" using Suc.prems(4) by simp_all
    ultimately show ?thesis using fr outs sleeps_from_Suc [of a 0] by simp
  qed
qed simp

section \<open>Properties: the work of one statement\<close>

text \<open>
  C31: One statement costs a bounded amount of work and gives its slot back: whatever fails, the loop
  sends the same request at most retries + 1 times, pauses 250ms, 500ms and so on between
  them, and leaves the number of slots in use as it was.
\<close>

theorem sql_work_bounded:
  "case snd (druid_sql d (client_io m u b) query w) of w' \<Rightarrow>
     dw_inflight w' = dw_inflight w
     \<and> (\<exists>k j rq. k \<le> j \<and> j \<le> nat (ds_retries d + 1) \<and> j \<le> Suc k \<and> dw_sent w' = dw_sent w @ replicate k rq
        \<and> dw_slept w' = dw_slept w @ map (\<lambda>i. retryBackoff (int i)) [1..<j])"
proof (cases "m query")
  case (Inl e)
  then show ?thesis by (auto simp: druid_sql_def client_fields intro!: exI [of _ 0])
next
  case (Inr body)
  obtain e v where v: "block w = (e, v)" by fastforce
  note fr = block_frame [OF v]
  show ?thesis
  proof (cases e)
    case (Some err)
    with Inr v fr show ?thesis
      by (auto simp: druid_sql_def client_fields take_slot_def intro!: exI [of _ 0])
  next
    case None
    let ?v = "v\<lparr>dw_inflight := dw_inflight v + 1\<rparr>"
    let ?r = "druid_attempts d (client_io m u b) body (nat (ds_retries d + 1)) 0 None ?v"
    have end_w: "snd (druid_sql d (client_io m u b) query w)
        = (snd ?r)\<lparr>dw_inflight := dw_inflight (snd ?r) - 1\<rparr>"
      using Inr v None by (simp add: druid_sql_def client_fields take_slot_def case_prod_beta)
    obtain k j where k: "k \<le> j" "j \<le> nat (ds_retries d + 1)" "j \<le> Suc k"
      "dw_sent (snd ?r) = dw_sent ?v @ replicate k (druid_request d body)"
      "dw_slept (snd ?r) = dw_slept ?v @ sleeps_from 0 j" "dw_inflight (snd ?r) = dw_inflight ?v"
      using attempts_bounded [of d body "nat (ds_retries d + 1)" 0 ?v m u b None]
      unfolding bounded_run_def by blast
    have "sleeps_from 0 j = map (\<lambda>i. retryBackoff (int i)) [1..<j]"
      by (cases j) (simp_all add: sleeps_from_start del: upt_Suc)
    with k end_w fr show ?thesis by auto
  qed
qed

lemma sql_outcomes:
  assumes "calm w" "m query = Inr body" "b (rq_url (druid_request d body)) = None" "0 \<le> ds_retries d"
    and "outs = outcomes d (client_io m u b) (dw_replies w) (length (dw_sent w)) (nat (ds_retries d + 1))"
  shows "fst (druid_sql d (client_io m u b) query w) = fst (outs ! settled_at outs)
    \<and> dw_sent (snd (druid_sql d (client_io m u b) query w))
        = dw_sent w @ replicate (Suc (settled_at outs)) (druid_request d body)
    \<and> dw_slept (snd (druid_sql d (client_io m u b) query w))
        = dw_slept w @ map (\<lambda>i. retryBackoff (int i)) [1..<Suc (settled_at outs)]"
proof -
  obtain v where v: "block w = (None, v)" "calm v" using calm_block [OF assms(1)] by blast
  note fr = block_frame [OF v(1)]
  let ?v = "v\<lparr>dw_inflight := dw_inflight v + 1\<rparr>"
  obtain r w' where run: "druid_attempts d (client_io m u b) body (nat (ds_retries d + 1)) 0 None ?v = (r, w')"
    by fastforce
  have sql: "druid_sql d (client_io m u b) query w = (r, w'\<lparr>dw_inflight := dw_inflight w' - 1\<rparr>)"
    using assms(2) v(1) run by (simp add: druid_sql_def client_fields take_slot_def)
  have "calm ?v" using v(2) by (simp add: calm_def)
  from attempts_settle [OF assms(3) this _ _ run, of outs] assms(4,5) fr
  show ?thesis unfolding sql by (simp add: sleeps_from_start del: upt_Suc)
qed

text \<open>
  The failures that are worth a retry, read off the reply itself: no response, a body that breaks off
  within the limit, or a whole body within the limit with a status of 500 or above.
\<close>

fun transient :: "nat \<Rightarrow> go_err + http_response \<Rightarrow> bool" where
  "transient maxReply (Inl e) \<longleftrightarrow> True"
| "transient maxReply (Inr resp) \<longleftrightarrow> length (fst (rs_body resp)) \<le> maxReply \<and> (snd (rs_body resp) \<noteq> None \<or> 500 \<le> rs_code resp)"

lemma retried_transient: "retried (outcome d io reply) \<longleftrightarrow> transient (ds_maxReply d) reply"
  by (cases reply) (auto simp: retried_def outcome_def read_reply_def read_limited_def Let_def split: option.split sum.split)

lemma settled_first:
  assumes "k < length outs" "\<forall>i < k. retried (outs ! i)" "Suc k = length outs \<or> \<not> retried (outs ! k)"
  shows "settled_at outs = k"
proof -
  have "takeWhile retried (butlast outs) = take k (butlast outs)"
    by (rule takeWhile_eq_take_P_nth) (use assms in \<open>auto simp: nth_butlast\<close>)
  with assms(1) show ?thesis by (simp add: settled_at_def)
qed

section \<open>Properties: the outcome\<close>

text \<open>
  C30: Transport errors and 5xx replies are retried, and nothing else is. Without interruptions the call
  sends the same request for the replies 0 to \<open>k\<close>, where \<open>k\<close> is the first reply that is not such a failure,
  or the last one allowed when all of them are; it pauses before each repetition; and it returns rows
  exactly when reply \<open>k\<close> is a whole body within the limit, with a status below 300, that decodes to them.
  A body over the limit, a 3xx or 4xx status and a body that does not decode end the call at once.
\<close>

theorem sql_settles:
  assumes "calm w" "m query = Inr body" "b (rq_url (druid_request d body)) = None"
    and "int k \<le> ds_retries d" "\<forall>i < k. transient (ds_maxReply d) (dw_replies w (length (dw_sent w) + i))"
    and "int k = ds_retries d \<or> \<not> transient (ds_maxReply d) (dw_replies w (length (dw_sent w) + k))"
  shows "dw_sent (snd (druid_sql d (client_io m u b) query w)) = dw_sent w @ replicate (Suc k) (druid_request d body)
    \<and> dw_slept (snd (druid_sql d (client_io m u b) query w)) = dw_slept w @ map (\<lambda>i. retryBackoff (int i)) [1..<Suc k]
    \<and> (fst (druid_sql d (client_io m u b) query w) = Inr rows \<longleftrightarrow>
        (\<exists>resp. dw_replies w (length (dw_sent w) + k) = Inr resp \<and> rs_code resp < 300
           \<and> length (fst (rs_body resp)) \<le> ds_maxReply d \<and> snd (rs_body resp) = None \<and> u (fst (rs_body resp)) = Inr rows))"
proof -
  let ?io = "client_io m u b" and ?reply = "\<lambda>i. dw_replies w (length (dw_sent w) + i)"
  define outs where "outs = outcomes d ?io (dw_replies w) (length (dw_sent w)) (nat (ds_retries d + 1))"
  have len: "length outs = nat (ds_retries d + 1)" by (simp add: outs_def outcomes_def)
  have nth: "outs ! i = outcome d ?io (?reply i)" if "i < length outs" for i
    using that unfolding outs_def outcomes_def by simp
  have k: "k < length outs" "Suc k = length outs \<longleftrightarrow> int k = ds_retries d" using assms(4) len by linarith+
  have "settled_at outs = k"
    by (rule settled_first) (use k assms(5,6) nth in \<open>auto simp: retried_transient\<close>)
  moreover have "fst (outs ! k) = Inr rows \<longleftrightarrow>
      (\<exists>resp. ?reply k = Inr resp \<and> rs_code resp < 300 \<and> length (fst (rs_body resp)) \<le> ds_maxReply d
         \<and> snd (rs_body resp) = None \<and> u (fst (rs_body resp)) = Inr rows)"
    using nth [OF k(1)]
    by (cases "?reply k") (auto simp: outcome_def read_reply_def read_limited_def client_fields Let_def split: option.split sum.split)
  moreover have "0 \<le> ds_retries d" using assms(4) by linarith
  ultimately show ?thesis using sql_outcomes [OF assms(1-3) _ outs_def] by simp
qed

text \<open>A broker that answers 503 once and then an empty result.\<close>

definition sample_druid :: druidStore where
  "sample_druid = \<lparr>ds_broker = ''http://broker:8082'', ds_datasource = ''metrics'', ds_maxRange = 0,
     ds_maxReply = 100, ds_retries = 2, ds_authHeader = [], ds_authValue = []\<rparr>"

definition sample_io :: "druid_world druid_io" where
  "sample_io = client_io (\<lambda>q. Inr q) (\<lambda>raw. Inr []) (\<lambda>url. None)"

definition sample_broker :: druid_world where
  "sample_broker = \<lparr>dw_blocks = (\<lambda>i. None),
     dw_replies = (\<lambda>i. Inr \<lparr>rs_code = (if i = 0 then 503 else 200), rs_status = [], rs_body = ([], None)\<rparr>),
     dw_step = 0, dw_inflight = 0, dw_sent = [], dw_slept = []\<rparr>"

theorem sql_settles_witness:
  "fst (druid_sql sample_druid sample_io ''SELECT 1'' sample_broker) = Inr []
   \<and> length (dw_sent (snd (druid_sql sample_druid sample_io ''SELECT 1'' sample_broker))) = 2
   \<and> dw_slept (snd (druid_sql sample_druid sample_io ''SELECT 1'' sample_broker)) = [250 * millisecond]"
proof -
  have calm: "calm sample_broker" by (simp add: calm_def sample_broker_def)
  have k: "int 1 \<le> ds_retries sample_druid" by (simp add: sample_druid_def)
  have before: "\<forall>i < 1. transient (ds_maxReply sample_druid) (dw_replies sample_broker (length (dw_sent sample_broker) + i))"
    and at: "\<not> transient (ds_maxReply sample_druid) (dw_replies sample_broker (length (dw_sent sample_broker) + 1))"
    by (simp_all add: sample_broker_def sample_druid_def)
  have "retryBackoff 1 = 250 * millisecond"
    by (simp add: retryBackoff_def druidRetryBackoff_def druidRetryMaxBackoff_def unit_defs in64_bounds Let_def)
  with sql_settles [OF calm, of "\<lambda>q. Inr q" "''SELECT 1''" "''SELECT 1''" "\<lambda>url. None" sample_druid 1 "\<lambda>raw. Inr []" "[]",
      OF refl refl k before disjI2 [OF at]]
  show ?thesis by (simp add: sample_io_def [symmetric]) (simp add: sample_broker_def)
qed

end
