(* ===== verification/DruidScan.thy ===== *)
theory DruidScan imports DruidClient
begin

text \<open>
  What \<open>Hashes\<close> and \<open>Series\<close> return from a datasource that answers: the specification is stated over
  the stored events themselves, and the sliced queries, the merge of the windows and the stitching of
  their series are shown to meet it.
\<close>

section \<open>The specification of a scan\<close>

text \<open>The sightings of a hash in a half-open range of milliseconds, and the span that reports them.\<close>

definition events_in :: "(string \<times> int) set \<Rightarrow> int \<Rightarrow> int \<Rightarrow> string \<Rightarrow> int set" where
  "events_in E a b h = {t. (h, t) \<in> E \<and> a \<le> t \<and> t < b}"

definition span_of :: "string \<Rightarrow> int set \<Rightarrow> metricSpan" where
  "span_of h T = \<lparr>sp_Hash = h, sp_Min = from_milli (Min T), sp_Max = from_milli (Max T)\<rparr>"

definition scan_spec :: "(string \<times> int) set \<Rightarrow> int \<Rightarrow> int \<Rightarrow> metricSpan set" where
  "scan_spec E a b = {span_of h (events_in E a b h) |h. events_in E a b h \<noteq> {}}"

section \<open>Lemmas: the merge\<close>

lemma span_of_hash [simp]: "sp_Hash (span_of h T) = h"
  by (simp add: span_of_def)

definition join_span :: "metricSpan \<Rightarrow> metricSpan \<Rightarrow> metricSpan" where
  "join_span x sp = x\<lparr>sp_Min := (if sp_Min sp < sp_Min x then sp_Min sp else sp_Min x),
                      sp_Max := (if sp_Max x < sp_Max sp then sp_Max sp else sp_Max x)\<rparr>"

lemma merge_find:
  "find_row sp_Hash h (merge_span sp out) =
     (if h = sp_Hash sp
      then Some (case find_row sp_Hash h out of None \<Rightarrow> sp | Some x \<Rightarrow> join_span x sp)
      else find_row sp_Hash h out)"
  by (induction out) (auto simp: join_span_def)

lemma merge_hashes: "sp_Hash ` set (merge_span sp out) = insert (sp_Hash sp) (sp_Hash ` set out)"
  by (induction out) auto

lemma merge_distinct: "distinct (map sp_Hash out) \<Longrightarrow> distinct (map sp_Hash (merge_span sp out))"
  using merge_hashes by (induction out) auto

lemma from_milli_mono: "from_milli a < from_milli b \<longleftrightarrow> a < b"
  by (simp add: from_milli_def millisecond_def)

lemma join_spans:
  assumes "finite U" "U \<noteq> {}" "finite T" "T \<noteq> {}"
  shows "join_span (span_of h U) (span_of h T) = span_of h (U \<union> T)"
proof -
  have "Min (U \<union> T) = min (Min U) (Min T)" "Max (U \<union> T) = max (Max U) (Max T)"
    using assms by (simp_all add: Min_Un Max_Un)
  then show ?thesis by (simp add: join_span_def span_of_def from_milli_mono min_def max_def)
qed

text \<open>A list of spans that reports the sightings \<open>U\<close>.\<close>

definition reports :: "(string \<Rightarrow> int set) \<Rightarrow> metricSpan list \<Rightarrow> bool" where
  "reports U out \<longleftrightarrow> distinct (map sp_Hash out)
     \<and> (\<forall>h. find_row sp_Hash h out = (if U h = {} then None else Some (span_of h (U h))))"

lemma merge_reports:
  assumes "reports U out" "\<And>h. finite (U h)" "finite T" "T \<noteq> {}"
  shows "reports (U(h := U h \<union> T)) (merge_span (span_of h T) out)"
proof -
  have "find_row sp_Hash k (merge_span (span_of h T) out)
      = (if (U(h := U h \<union> T)) k = {} then None else Some (span_of k ((U(h := U h \<union> T)) k)))" for k
  proof (cases "k = h")
    case True
    then show ?thesis
      using assms join_spans [of "U h" T h] by (auto simp: merge_find reports_def span_of_def)
  next
    case False
    then show ?thesis using assms(1) by (simp add: merge_find reports_def span_of_def)
  qed
  with assms(1) show ?thesis by (simp add: reports_def merge_distinct)
qed

lemma fold_reports:
  "reports U out \<Longrightarrow> (\<And>h. finite (U h)) \<Longrightarrow> (\<And>h. finite (T h)) \<Longrightarrow>
   set xs \<subseteq> {span_of h (T h) |h. T h \<noteq> {}} \<Longrightarrow>
   reports (\<lambda>h. if h \<in> sp_Hash ` set xs then U h \<union> T h else U h) (fold merge_span xs out)"
proof (induction xs arbitrary: U out)
  case (Cons x xs)
  from Cons.prems(4) obtain h where h: "x = span_of h (T h)" "T h \<noteq> {}" by auto
  then have hx: "sp_Hash x = h" by (simp add: span_of_def)
  let ?U = "U(h := U h \<union> T h)"
  have "reports (\<lambda>k. if k \<in> sp_Hash ` set xs then ?U k \<union> T k else ?U k) (fold merge_span xs (merge_span x out))"
  proof (rule Cons.IH)
    show "reports ?U (merge_span x out)"
      unfolding h(1) by (rule merge_reports [OF Cons.prems(1,2,3) h(2)])
    show "finite (?U k)" for k using Cons.prems(2,3) by simp
  qed (use Cons.prems in auto)
  moreover have "(\<lambda>k. if k \<in> sp_Hash ` set xs then ?U k \<union> T k else ?U k)
      = (\<lambda>k. if k \<in> sp_Hash ` set (x # xs) then U k \<union> T k else U k)"
    by (rule ext) (auto simp: hx)
  ultimately show ?case by simp
qed simp

lemma events_finite: "finite E \<Longrightarrow> finite (events_in E a b h)"
  by (rule finite_subset [of _ "snd ` E"]) (force simp: events_in_def)+

lemma events_join: "a \<le> b \<Longrightarrow> b \<le> c \<Longrightarrow> events_in E a b h \<union> events_in E b c h = events_in E a c h"
  by (auto simp: events_in_def)

lemma scan_hashes: "sp_Hash ` scan_spec E a b = {h. events_in E a b h \<noteq> {}}"
  by (force simp: scan_spec_def)

lemma window_reports:
  assumes "reports (events_in E a b) out" "finite E" "a \<le> b" "b \<le> c" "set xs = scan_spec E b c"
  shows "reports (events_in E a c) (fold merge_span xs out)"
proof -
  have "reports (\<lambda>h. if h \<in> sp_Hash ` set xs then events_in E a b h \<union> events_in E b c h else events_in E a b h)
      (fold merge_span xs out)"
    by (rule fold_reports [OF assms(1)]) (use assms(2,5) in \<open>auto simp: events_finite scan_spec_def\<close>)
  moreover have "(\<lambda>h. if h \<in> sp_Hash ` set xs then events_in E a b h \<union> events_in E b c h else events_in E a b h)
      = events_in E a c"
  proof
    fix h
    show "(if h \<in> sp_Hash ` set xs then events_in E a b h \<union> events_in E b c h else events_in E a b h) = events_in E a c h"
      using events_join [OF assms(3,4), of E h] by (auto simp: assms(5) scan_hashes)
  qed
  ultimately show ?thesis by simp
qed

lemma scan_spec_iff:
  "x \<in> scan_spec E a b \<longleftrightarrow> events_in E a b (sp_Hash x) \<noteq> {} \<and> x = span_of (sp_Hash x) (events_in E a b (sp_Hash x))"
proof
  assume "x \<in> scan_spec E a b"
  then obtain h where "x = span_of h (events_in E a b h)" "events_in E a b h \<noteq> {}" by (auto simp: scan_spec_def)
  then show "events_in E a b (sp_Hash x) \<noteq> {} \<and> x = span_of (sp_Hash x) (events_in E a b (sp_Hash x))" by simp
qed (unfold scan_spec_def, blast)

lemma reports_scan: "reports (events_in E a b) out \<Longrightarrow> distinct (map sp_Hash out) \<and> set out = scan_spec E a b"
proof
  assume r: "reports (events_in E a b) out"
  then show d: "distinct (map sp_Hash out)" by (simp add: reports_def)
  have "x \<in> set out \<longleftrightarrow> x \<in> scan_spec E a b" for x
  proof -
    have "x \<in> set out \<longleftrightarrow> find_row sp_Hash (sp_Hash x) out = Some x" using find_row_iff [OF d] by blast
    also have "\<dots> \<longleftrightarrow> events_in E a b (sp_Hash x) \<noteq> {} \<and> x = span_of (sp_Hash x) (events_in E a b (sp_Hash x))"
      using r by (simp add: reports_def eq_commute)
    also have "\<dots> \<longleftrightarrow> x \<in> scan_spec E a b" by (rule scan_spec_iff [symmetric])
    finally show ?thesis .
  qed
  then show "set out = scan_spec E a b" by blast
qed

lemma unix_milli_mono:
  "a \<le> b \<Longrightarrow> in64 (a div millisecond) \<Longrightarrow> in64 (b div millisecond) \<Longrightarrow> unix_milli a \<le> unix_milli b"
  by (simp add: unix_milli_def) (simp add: millisecond_def zdiv_mono1)

section \<open>Lemmas: the windows of a scan\<close>

lemma covers_windows:
  "windows from to mr = Inr ws \<Longrightarrow> from < to \<Longrightarrow> covers from ws to"
  using windows_loop_covers [of "from" to mr]
  by (cases "0 < mr") (auto simp: windows_def Let_def split: if_splits)

lemma covers_milli:
  assumes "covers lo ws to" "in64 (lo div millisecond)" "in64 (to div millisecond)"
  shows "unix_milli lo \<le> unix_milli to"
    and "(a, b) \<in> set ws \<Longrightarrow> unix_milli a \<le> unix_milli b \<and> in64 (b div millisecond)"
proof -
  have mono: "x div millisecond \<le> y div millisecond" if "x \<le> y" for x y
    using that by (simp add: millisecond_def zdiv_mono1)
  show "unix_milli lo \<le> unix_milli to" using covers_le [OF assms(1)] assms(2,3) by (rule unix_milli_mono)
  assume "(a, b) \<in> set ws"
  with covers_in_range [OF assms(1), of "(a, b)"] have r: "lo \<le> a" "a \<le> b" "b \<le> to" by auto
  then have "in64 (a div millisecond)" "in64 (b div millisecond)"
    using mono [of lo a] mono [of a to] mono [of lo b] mono [of b to] assms(2,3)
    by (auto simp: in64_def)
  with r(2) show "unix_milli a \<le> unix_milli b \<and> in64 (b div millisecond)" by (simp add: unix_milli_mono)
qed

lemma hash_windows_scan:
  assumes "finite E" "in64 (to div millisecond)"
    and "\<And>lo hi w. (lo, hi) \<in> set ws \<Longrightarrow> \<exists>rows w'. druid_sql d io (hashes_query d lo hi) w = (Inr rows, w')
        \<and> set (List.map_filter (read_hash_row tx) rows) = scan_spec E (unix_milli lo) (unix_milli hi)"
  shows "covers lo ws to \<Longrightarrow> in64 (lo div millisecond) \<Longrightarrow> a \<le> unix_milli lo \<Longrightarrow> reports (events_in E a (unix_milli lo)) out \<Longrightarrow>
    \<exists>res w'. hash_windows d io tx ws out w = (Inr res, w') \<and> reports (events_in E a (unix_milli to)) res"
  using assms(3)
proof (induction ws arbitrary: lo out w)
  case (Cons v ws)
  obtain hi where v: "v = (lo, hi)" and cov: "covers hi ws to" using Cons.prems(1) by (cases v) auto
  have m: "unix_milli lo \<le> unix_milli hi" "in64 (hi div millisecond)"
    using covers_milli(2) [OF Cons.prems(1,2) assms(2), of lo hi] v by simp_all
  from Cons.prems(5) [of lo hi w] v obtain rows w' where
    q: "druid_sql d io (hashes_query d lo hi) w = (Inr rows, w')"
    "set (List.map_filter (read_hash_row tx) rows) = scan_spec E (unix_milli lo) (unix_milli hi)" by auto
  have "reports (events_in E a (unix_milli hi)) (fold merge_span (List.map_filter (read_hash_row tx) rows) out)"
    by (rule window_reports [OF Cons.prems(4) assms(1) Cons.prems(3) m(1) q(2)])
  with Cons.IH [OF cov m(2)] Cons.prems(3,5) m(1) q(1) v show ?case by force
qed simp

section \<open>The specification of a series\<close>

text \<open>
  The stored points of one hash, as milliseconds and values in ascending order, and the part of them
  that lies in a range.
\<close>

definition points_in :: "(int \<times> f64) list \<Rightarrow> int \<Rightarrow> int \<Rightarrow> (instant \<times> f64) list" where
  "points_in data a b = map (\<lambda>(m, v). (from_milli m, v)) (filter (\<lambda>(m, v). a \<le> m \<and> m < b) data)"

definition ascending :: "(instant \<times> f64) list \<Rightarrow> bool" where
  "ascending xs \<longleftrightarrow> sorted_wrt (<) (map fst xs)"

lemma filter_ranges:
  "sorted_wrt (<) (map fst data) \<Longrightarrow> a \<le> b \<Longrightarrow> b \<le> c \<Longrightarrow>
   filter (\<lambda>(m, v). a \<le> m \<and> m < b) data @ filter (\<lambda>(m, v). b \<le> m \<and> m < c) data
     = filter (\<lambda>(m :: int, v). a \<le> m \<and> m < c) data"
proof (induction data)
  case (Cons p data)
  show ?case
  proof (cases "fst p < b")
    case True
    with Cons show ?thesis by (cases p) auto
  next
    case False
    with Cons.prems have "filter (\<lambda>(m, v). a \<le> m \<and> m < b) data = []"
      by (auto simp: filter_empty_conv)
    with False Cons show ?thesis by (cases p) auto
  qed
qed simp

lemma points_join:
  "sorted_wrt (<) (map fst data) \<Longrightarrow> a \<le> b \<Longrightarrow> b \<le> c \<Longrightarrow>
   points_in data a b @ points_in data b c = points_in data a c"
  using filter_ranges [of data a b c] by (simp add: points_in_def flip: map_append)

lemma points_ascending:
  "sorted_wrt (<) (map fst data) \<Longrightarrow> ascending (points_in data a b)"
  by (induction data) (auto simp: points_in_def ascending_def from_milli_mono)

lemma series_cap_pos: "lo \<le> hi \<Longrightarrow> 0 \<le> series_cap lo hi"
proof -
  assume "lo \<le> hi"
  then have t: "0 \<le> time_sub hi lo" "time_sub hi lo \<le> max64"
    by (simp_all add: time_sub_def min64_def max64_def)
  then have "go_div (time_sub hi lo) minute = time_sub hi lo div minute"
    by (simp add: go_div_nonneg minute_def)
  moreover have "0 \<le> time_sub hi lo div minute" "time_sub hi lo div minute \<le> max64 div minute"
    using t by (simp_all add: minute_def zdiv_mono1 pos_imp_zdiv_nonneg_iff)
  ultimately show ?thesis by (simp add: series_cap_def in64_def max64_def min64_def minute_def)
qed

lemma series_windows_points:
  assumes "sorted_wrt (<) (map fst data)" "in64 (to div millisecond)"
    and new: "\<And>xs. ascending xs \<Longrightarrow> \<exists>s. ts_new ts (map fst xs) (map snd xs) = Inr s \<and> pts s = xs"
    and cat: "\<And>x y. ascending (pts x @ pts y) \<Longrightarrow> \<exists>s. ts_concat ts x y = Inr s \<and> pts s = pts x @ pts y"
    and "\<And>lo hi w. (lo, hi) \<in> set ws \<Longrightarrow> \<exists>rows w'. druid_sql d io (series_query d hash lo hi) w = (Inr rows, w')
        \<and> List.map_filter (read_point tx) rows = points_in data (unix_milli lo) (unix_milli hi)"
  shows "covers lo ws to \<Longrightarrow> in64 (lo div millisecond) \<Longrightarrow> a \<le> unix_milli lo \<Longrightarrow> pts out = points_in data a (unix_milli lo) \<Longrightarrow>
    \<exists>s w'. series_windows d io tx ts hash ws out w = (Inr s, w') \<and> pts s = points_in data a (unix_milli to)"
  using assms(5)
proof (induction ws arbitrary: lo out w)
  case (Cons v ws)
  obtain hi where v: "v = (lo, hi)" and cov: "lo < hi" "covers hi ws to" using Cons.prems(1) by (cases v) auto
  have m: "unix_milli lo \<le> unix_milli hi" "in64 (hi div millisecond)"
    using covers_milli(2) [OF Cons.prems(1,2) assms(2), of lo hi] v by simp_all
  let ?part = "points_in data (unix_milli lo) (unix_milli hi)"
  from Cons.prems(5) [of lo hi w] v obtain rows w' where
    q: "druid_sql d io (series_query d hash lo hi) w = (Inr rows, w')"
    "List.map_filter (read_point tx) rows = ?part" by auto
  obtain s where s: "ts_new ts (map fst ?part) (map snd ?part) = Inr s" "pts s = ?part"
    using new [OF points_ascending [OF assms(1)]] by blast
  have part: "series_part tx ts lo hi rows = Inr s"
    using q(2) s(1) series_cap_pos [of lo hi] cov(1) by (simp add: series_part_def Let_def)
  have "pts out @ pts s = points_in data a (unix_milli hi)"
    using points_join [OF assms(1) Cons.prems(3) m(1)] s(2) Cons.prems(4) by simp
  then obtain u where u: "ts_concat ts out s = Inr u" "pts u = points_in data a (unix_milli hi)"
    using cat [of out s] points_ascending [OF assms(1)] by metis
  with Cons.IH [OF cov(2) m(2) _ u(2)] Cons.prems(3,5) m(1) q(1) part v show ?case by force
qed simp

section \<open>Properties\<close>

text \<open>
  C28: A scan reports what the datasource holds: when every window's query is answered with one row per
  hash seen in the window, \<open>Hashes\<close> returns exactly one span for each hash seen in the whole range,
  from its first to its last sighting, however the range was sliced. Sightings are compared in whole
  milliseconds, as the queries are.
\<close>

theorem scan_reports_datasource:
  assumes "windows from to (ds_maxRange d) = Inr ws" "from < to" "finite E"
    and "in64 (from div millisecond)" "in64 (to div millisecond)"
    and "\<And>lo hi w. (lo, hi) \<in> set ws \<Longrightarrow> \<exists>rows w'. druid_sql d io (hashes_query d lo hi) w = (Inr rows, w')
        \<and> set (List.map_filter (read_hash_row tx) rows) = scan_spec E (unix_milli lo) (unix_milli hi)"
  shows "\<exists>spans w'. druid_Hashes d io tx from to w = (Inr spans, w') \<and> distinct (map sp_Hash spans)
    \<and> set spans = scan_spec E (unix_milli from) (unix_milli to)"
proof -
  have "reports (events_in E (unix_milli from) (unix_milli from)) []"
    by (simp add: reports_def events_in_def)
  with hash_windows_scan [OF assms(3,5,6) covers_windows [OF assms(1,2)] assms(4) order_refl]
  obtain spans w' where "hash_windows d io tx ws [] w = (Inr spans, w')"
    "reports (events_in E (unix_milli from) (unix_milli to)) spans" by blast
  with assms(1) reports_scan show ?thesis by (auto simp: druid_Hashes_def)
qed

text \<open>
  C29: A series is what the datasource holds: when every window's query is answered with the stored
  points of the window, in order, \<open>Series\<close> returns every stored point of the whole range, once and in
  order, however the range was sliced. The timeseries library is only assumed to accept ascending
  times and to append.
\<close>

theorem series_returns_datasource:
  assumes "windows from to (ds_maxRange d) = Inr ws" "from < to" "sorted_wrt (<) (map fst data)"
    and "in64 (from div millisecond)" "in64 (to div millisecond)" "pts (ts_empty ts) = []"
    and "\<And>xs. ascending xs \<Longrightarrow> \<exists>s. ts_new ts (map fst xs) (map snd xs) = Inr s \<and> pts s = xs"
    and "\<And>x y. ascending (pts x @ pts y) \<Longrightarrow> \<exists>s. ts_concat ts x y = Inr s \<and> pts s = pts x @ pts y"
    and "\<And>lo hi w. (lo, hi) \<in> set ws \<Longrightarrow> \<exists>rows w'. druid_sql d io (series_query d hash lo hi) w = (Inr rows, w')
        \<and> List.map_filter (read_point tx) rows = points_in data (unix_milli lo) (unix_milli hi)"
  shows "\<exists>s w'. druid_Series d io tx ts hash from to w = (Inr s, w')
    \<and> pts s = points_in data (unix_milli from) (unix_milli to)"
proof -
  have "points_in data (unix_milli from) (unix_milli from) = []"
    by (auto simp: points_in_def filter_empty_conv)
  then have "pts (ts_empty ts) = points_in data (unix_milli from) (unix_milli from)" using assms(6) by simp
  from series_windows_points [OF assms(3,5,7,8,9) covers_windows [OF assms(1,2)] assms(4) order_refl this]
  show ?thesis using assms(1) by (simp add: druid_Series_def)
qed

section \<open>Concrete datasources\<close>

text \<open>A broker that is never busy and answers a query with the text \<open>page\<close> gives it.\<close>

definition broker_io :: "(string \<Rightarrow> string) \<Rightarrow> (string \<Rightarrow> row list) \<Rightarrow> unit druid_io" where
  "broker_io page rows_of =
     \<lparr>io_marshal = Inr, io_unmarshal = (\<lambda>raw. Inr (rows_of raw)), io_badURL = (\<lambda>u. None),
      io_acquire = (\<lambda>w. (None, w)), io_release = (\<lambda>w. w), io_wait = (\<lambda>w. (None, w)),
      io_sleep = (\<lambda>t w. (None, w)),
      io_send = (\<lambda>rq w. (Inr \<lparr>rs_code = 200, rs_status = [], rs_body = (page (rq_body rq), None)\<rparr>, w))\<rparr>"

lemma broker_sql:
  "0 \<le> ds_retries d \<Longrightarrow> length (page q) \<le> ds_maxReply d \<Longrightarrow>
   druid_sql d (broker_io page rows_of) q w = (Inr (rows_of (page q)), w)"
  by (cases "nat (ds_retries d + 1)")
    (simp_all add: druid_sql_def broker_io_def druid_do_def druid_request_def read_reply_def read_limited_def Let_def)

definition minute_druid :: druidStore where
  "minute_druid = sample_druid\<lparr>ds_maxRange := minute\<rparr>"

lemma minute_windows: "windows 0 (2 * minute) minute = Inr [(0, minute), (minute, 2 * minute)]"
  by (simp add: windows_def windowCount_def windows_loop.simps time_sub_def time_add_def go_div_def
      go_mod_def maxDruidWindows_def min64_def max64_def i64_def minute_def Let_def)

definition plain_text :: text_lib where
  "plain_text = \<lparr>tl_sprint = (\<lambda>v. []), tl_parse_float = (\<lambda>s. None), tl_of_int = (\<lambda>n. F64_Fin (of_int n))\<rparr>"

lemma minute_milli: "unix_milli 0 = 0" "unix_milli minute = 60000" "unix_milli (2 * minute) = 120000"
  by (simp_all add: unix_milli_def unit_defs in64_bounds)

lemma dig_eq: "m < 10 \<Longrightarrow> n < 10 \<Longrightarrow> dig m = dig n \<longleftrightarrow> m = n"
  by (metis dig_digit(2) of_nat_eq_iff)

lemma minute_filters: "time_filter 0 minute \<noteq> time_filter minute (2 * minute)"
  by (simp add: time_filter_def minute_milli format_int_def digits_small dig_eq)

text \<open>One hash seen twice in the first minute and once in the second.\<close>

definition seen_events :: "(string \<times> int) set" where
  "seen_events = {(''m1'', 10), (''m1'', 50), (''m1'', 70000)}"

definition scan_row :: "rat \<Rightarrow> rat \<Rightarrow> row" where
  "scan_row a b = [(''metric_hash'', AString ''m1''), (''tmin'', AFloat (F64_Fin a)), (''tmax'', AFloat (F64_Fin b))]"

definition scan_io :: "unit druid_io" where
  "scan_io = broker_io (\<lambda>q. if q = hashes_query minute_druid 0 minute then ''1'' else ''2'')
     (\<lambda>raw. if raw = ''1'' then [scan_row 10 50] else [scan_row 70000 70000])"

lemma read_scan_row:
  "0 \<le> a \<Longrightarrow> in64 a \<Longrightarrow> in64 b \<Longrightarrow> 0 \<le> b \<Longrightarrow> read_hash_row tx (scan_row (of_int a) (of_int b))
     = Some \<lparr>sp_Hash = ''m1'', sp_Min = from_milli a, sp_Max = from_milli b\<rparr>"
  by (simp add: read_hash_row_def scan_row_def col_def f64_to_int_def Let_def)

lemma seen_in: "events_in seen_events 0 60000 h = (if h = ''m1'' then {10, 50} else {})"
  "events_in seen_events 60000 120000 h = (if h = ''m1'' then {70000} else {})"
  "events_in seen_events 0 120000 h = (if h = ''m1'' then {10, 50, 70000} else {})"
  by (auto simp: events_in_def seen_events_def)

lemma seen_spec: "scan_spec seen_events 0 60000 = {span_of ''m1'' {10, 50}}"
  "scan_spec seen_events 60000 120000 = {span_of ''m1'' {70000}}"
  "scan_spec seen_events 0 120000 = {span_of ''m1'' {10, 50, 70000}}"
  by (auto simp: scan_spec_def seen_in)

theorem scan_reports_datasource_witness:
  "\<exists>spans w'. druid_Hashes minute_druid scan_io plain_text 0 (2 * minute) () = (Inr spans, w')
     \<and> set spans = {\<lparr>sp_Hash = ''m1'', sp_Min = from_milli 10, sp_Max = from_milli 70000\<rparr>}"
proof -
  have w: "windows 0 (2 * minute) (ds_maxRange minute_druid) = Inr [(0, minute), (minute, 2 * minute)]"
    using minute_windows by (simp add: minute_druid_def)
  have q: "hashes_query minute_druid minute (2 * minute) \<noteq> hashes_query minute_druid 0 minute"
    using minute_filters by (auto simp: hashes_query_def)
  have d: "0 \<le> ds_retries minute_druid" "ds_maxReply minute_druid = 100"
    by (simp_all add: minute_druid_def sample_druid_def)
  have one: "read_hash_row plain_text (scan_row 10 50) = Some (span_of ''m1'' {10, 50})"
    "read_hash_row plain_text (scan_row 70000 70000) = Some (span_of ''m1'' {70000})"
    using read_scan_row [of 10 50] read_scan_row [of 70000 70000] by (simp_all add: span_of_def in64_bounds)
  have answers: "\<exists>rows w'. druid_sql minute_druid scan_io (hashes_query minute_druid lo hi) w = (Inr rows, w')
      \<and> set (List.map_filter (read_hash_row plain_text) rows) = scan_spec seen_events (unix_milli lo) (unix_milli hi)"
    if win: "(lo, hi) \<in> set [(0, minute), (minute, 2 * minute)]" for lo hi w
  proof -
    from win have "lo = 0 \<and> hi = minute \<or> lo = minute \<and> hi = 2 * minute" by auto
    then show ?thesis
      using q d by (auto simp: scan_io_def broker_sql List.map_filter_simps one minute_milli seen_spec)
  qed
  have "in64 (0 div millisecond)" "in64 (2 * minute div millisecond)" "0 < 2 * minute" "finite seen_events"
    by (simp_all add: unit_defs in64_bounds seen_events_def)
  from scan_reports_datasource [OF w this(3,4,1,2) answers, of "()"] show ?thesis
    by (simp add: minute_milli seen_spec span_of_def) blast
qed

text \<open>Series as lists of points, and two points in the two windows.\<close>

definition list_ts :: "(instant \<times> f64) list ts_lib" where
  "list_ts = \<lparr>ts_empty = [], ts_new = (\<lambda>ts vs. Inr (zip ts vs)), ts_concat = (\<lambda>a b. Inr (a @ b))\<rparr>"

definition point_row :: "rat \<Rightarrow> rat \<Rightarrow> row" where
  "point_row t v = [(''__time'', AFloat (F64_Fin t)), (''metric_value'', AFloat (F64_Fin v))]"

definition series_io :: "unit druid_io" where
  "series_io = broker_io (\<lambda>q. if q = series_query minute_druid ''m1'' 0 minute then ''1'' else ''2'')
     (\<lambda>raw. if raw = ''1'' then [point_row 0 5] else [point_row 60000 6])"

definition seen_points :: "(int \<times> f64) list" where
  "seen_points = [(0, F64_Fin 5), (60000, F64_Fin 6)]"

theorem series_returns_datasource_witness:
  "\<exists>w'. druid_Series minute_druid series_io plain_text list_ts ''m1'' 0 (2 * minute) ()
     = (Inr [(0, F64_Fin 5), (minute, F64_Fin 6)], w')"
proof -
  have w: "windows 0 (2 * minute) (ds_maxRange minute_druid) = Inr [(0, minute), (minute, 2 * minute)]"
    using minute_windows by (simp add: minute_druid_def)
  have q: "series_query minute_druid ''m1'' minute (2 * minute) \<noteq> series_query minute_druid ''m1'' 0 minute"
    using minute_filters by (auto simp: series_query_def)
  have d: "0 \<le> ds_retries minute_druid" "ds_maxReply minute_druid = 100"
    by (simp_all add: minute_druid_def sample_druid_def)
  have pt: "read_point plain_text (point_row 0 5) = Some (0, F64_Fin 5)"
    "read_point plain_text (point_row 60000 6) = Some (minute, F64_Fin 6)"
    by (simp_all add: read_point_def point_row_def col_def f64_to_int_def in64_bounds from_milli_def unit_defs)
  have parts: "points_in seen_points 0 60000 = [(0, F64_Fin 5)]" "points_in seen_points 60000 120000 = [(minute, F64_Fin 6)]"
    "points_in seen_points 0 120000 = [(0, F64_Fin 5), (minute, F64_Fin 6)]"
    by (simp_all add: points_in_def seen_points_def from_milli_def unit_defs)
  have answers: "\<exists>rows w'. druid_sql minute_druid series_io (series_query minute_druid ''m1'' lo hi) w = (Inr rows, w')
      \<and> List.map_filter (read_point plain_text) rows = points_in seen_points (unix_milli lo) (unix_milli hi)"
    if win: "(lo, hi) \<in> set [(0, minute), (minute, 2 * minute)]" for lo hi w
  proof -
    from win have "lo = 0 \<and> hi = minute \<or> lo = minute \<and> hi = 2 * minute" by auto
    then show ?thesis
      using q d by (auto simp: series_io_def broker_sql List.map_filter_simps pt minute_milli parts)
  qed
  have new: "\<exists>s. ts_new list_ts (map fst xs) (map snd xs) = Inr s \<and> id s = xs" for xs
    by (simp add: list_ts_def zip_map_fst_snd)
  have cat: "\<exists>s. ts_concat list_ts x y = Inr s \<and> id s = id x @ id y" for x y
    by (simp add: list_ts_def)
  have "in64 (0 div millisecond)" "in64 (2 * minute div millisecond)" "0 < 2 * minute"
    "sorted_wrt (<) (map fst seen_points)" "id (ts_empty list_ts) = []"
    by (simp_all add: unit_defs in64_bounds seen_points_def list_ts_def)
  from series_returns_datasource [OF w this(3,4,1,2,5) new cat answers, of "()"] show ?thesis
    by (simp add: minute_milli parts)
qed

end
