(* ===== verification/QueueProgress.thy ===== *)
theory QueueProgress imports Leases
begin

text \<open>
  Progress of the retrain queue: a due row is claimed after as many claims as its place in the queue asks
  for, whoever held it before. \<open>claim_run\<close> is a sequence of claim statements of any workers, each with the
  rows other transactions have locked at that moment, which \<open>SKIP LOCKED\<close> passes over.
\<close>

type_synonym claim_op = "instant \<times> row_key list \<times> string \<times> duration"

fun claim_run :: "int \<Rightarrow> claim_op list \<Rightarrow> pg_db \<Rightarrow> retrainClaim list list" where
  "claim_run limit [] db = []"
| "claim_run limit ((t, locked, w, l) # ops) db =
     (let (cs, db) = sql_claim t (\<lambda>pk. pk \<in> set locked) w l limit db in cs # claim_run limit ops db)"

text \<open>The rows that are to run no later than \<open>t\<close>, and those of them that can be claimed before \<open>T\<close>.\<close>

definition runs_by :: "instant \<Rightarrow> retrain_row \<Rightarrow> bool" where
  "runs_by t r = (case rt_next r of None \<Rightarrow> False | Some n \<Rightarrow> n \<le> t)"

definition waiting :: "instant \<Rightarrow> instant \<Rightarrow> pg_db \<Rightarrow> row_key set" where
  "waiting t T db = {pk. \<exists>r. row_at db pk = Some r \<and> runs_by t r
     \<and> (case rt_claimed_until r of None \<Rightarrow> True | Some u \<Rightarrow> u < T)}"

section \<open>Lemmas\<close>

lemma waiting_rows: "waiting t T db \<subseteq> rt_pk ` set (filter (runs_by t) (db_retrain db))"
  using row_at_Some [of db] by (force simp: waiting_def)

lemma finite_waiting: "finite (waiting t T db)"
  using finite_subset [OF waiting_rows] by simp

lemma card_waiting: "card (waiting t T db) \<le> length (filter (runs_by t) (db_retrain db))"
proof -
  have "card (waiting t T db) \<le> card (rt_pk ` set (filter (runs_by t) (db_retrain db)))"
    by (rule card_mono [OF _ waiting_rows]) simp
  also have "\<dots> \<le> card (set (filter (runs_by t) (db_retrain db)))" by (rule card_image_le) simp
  also have "\<dots> \<le> length (filter (runs_by t) (db_retrain db))" by (rule card_length)
  finally show ?thesis .
qed

lemma due_later: "due t0 (\<lambda>_. False) r \<Longrightarrow> t0 \<le> t \<Longrightarrow> \<not> locked (rt_pk r) \<Longrightarrow> due t locked r"
  by (auto simp: due_def split: option.splits)

lemma claim_waiting:
  assumes "T \<le> t + l"
  shows "waiting n T (snd (sql_claim t locked w l limit db)) \<subseteq> waiting n T db - taken_pk t locked limit db"
proof
  fix pk assume "pk \<in> waiting n T (snd (sql_claim t locked w l limit db))"
  then obtain r where r: "row_at db pk = Some r"
    and after: "runs_by n (if pk \<in> taken_pk t locked limit db then lease_row w (t + l) r else r)"
      "case rt_claimed_until (if pk \<in> taken_pk t locked limit db then lease_row w (t + l) r else r) of None \<Rightarrow> True | Some u \<Rightarrow> u < T"
    unfolding waiting_def row_at_claim by blast
  have "pk \<notin> taken_pk t locked limit db" using after(2) assms by (auto simp: lease_row_def)
  with r after show "pk \<in> waiting n T db - taken_pk t locked limit db" by (simp add: waiting_def)
qed

text \<open>A claim that leaves a due row behind takes \<open>limit\<close> rows that are no later.\<close>

lemma passed_over:
  assumes "db_inv db" "0 \<le> limit" "row_at db pk = Some r" "due t locked r" "pk \<notin> taken_pk t locked limit db"
    and "rt_next r = Some n" "t \<le> T"
  shows "int (card (taken_pk t locked limit db)) = limit" "taken_pk t locked limit db \<subseteq> waiting n T db"
proof -
  let ?rows = "due_rows t locked limit db"
  have r: "r \<in> set (db_retrain db)" "rt_pk r = pk" using row_at_Some [OF assms(3)] by simp_all
  with assms(5) have "r \<notin> set ?rows" by (auto simp: taken_pk_def)
  with claim_takes_earliest_due [OF assms(1,2), of t locked] r assms(4)
  have rows: "distinct (map rt_pk ?rows)" "\<forall>r \<in> set ?rows. due t locked r" "int (length ?rows) = limit"
    "\<forall>r' \<in> set ?rows. rt_next r' \<le> rt_next r" by force+
  have "taken_pk t locked limit db = set (map rt_pk ?rows)" by (simp add: taken_pk_def)
  with distinct_card [OF rows(1)] rows(3) show "int (card (taken_pk t locked limit db)) = limit" by simp
  show "taken_pk t locked limit db \<subseteq> waiting n T db"
  proof
    fix k assume "k \<in> taken_pk t locked limit db"
    then obtain r' where r': "r' \<in> set ?rows" "rt_pk r' = k" by (auto simp: taken_pk_def)
    then have "row_at db k = Some r'" using row_at_in [of db r'] set_due_rows assms(1) by blast
    with r' rows(2,4) assms(6,7) show "k \<in> waiting n T db"
      by (force simp: waiting_def runs_by_def due_def split: option.splits)
  qed
qed

lemma claimed_in_time:
  assumes "due t0 (\<lambda>_. False) r" "rt_next r = Some n" "0 < limit" "t0 \<le> T"
  shows "db_inv db \<Longrightarrow> row_at db (baseline_pk key) = Some r \<Longrightarrow>
    \<forall>(t, locked, w, l) \<in> set ops. t0 \<le> t \<and> t \<le> T \<and> T \<le> t + l \<and> baseline_pk key \<notin> set locked \<Longrightarrow>
    int (card (waiting n T db)) \<le> limit * int (length ops) \<Longrightarrow>
    \<exists>cs \<in> set (claim_run limit ops db). key \<in> rc_Key ` set cs"
proof (induction ops arbitrary: db)
  case Nil
  have "baseline_pk key \<in> waiting n T db"
    using assms Nil.prems(2) by (auto simp: waiting_def runs_by_def due_def split: option.splits)
  with Nil.prems(4) finite_waiting [of n T db] show ?case by (simp add: card_gt_0_iff)
next
  case (Cons op ops)
  obtain t locked w l where op: "op = (t, locked, w, l)" by (cases op)
  let ?lk = "\<lambda>pk. pk \<in> set locked"
  obtain cs db1 where cl: "sql_claim t ?lk w l limit db = (cs, db1)" by fastforce
  from Cons.prems(3) op have ops: "t0 \<le> t" "t \<le> T" "T \<le> t + l" "baseline_pk key \<notin> set locked" by auto
  show ?case
  proof (cases "baseline_pk key \<in> taken_pk t ?lk limit db")
    case True
    then obtain c where "c \<in> set (fst (sql_claim t ?lk w l limit db))" "baseline_pk key = baseline_pk (rc_Key c)"
      using taken_claimed by blast
    with cl op show ?thesis by (auto simp: baseline_pk_def)
  next
    case False
    have pk: "rt_pk r = baseline_pk key" using row_at_Some [OF Cons.prems(2)] by simp
    have "due t ?lk r" by (rule due_later [OF assms(1) ops(1)]) (use pk ops in simp)
    note over = passed_over [OF Cons.prems(1) less_imp_le [OF assms(3)] Cons.prems(2) this False assms(2) ops(2)]
    have db1: "db_inv db1" using sql_claim_inv [OF Cons.prems(1), of t ?lk w l limit] cl by simp
    have row: "row_at db1 (baseline_pk key) = Some r"
      using row_at_claim [of t ?lk w l limit db "baseline_pk key"] cl Cons.prems(2) False by simp
    have "card (waiting n T db1) \<le> card (waiting n T db - taken_pk t ?lk limit db)"
      using claim_waiting [OF ops(3), of n ?lk w limit db] cl finite_waiting [of n T db]
      by (intro card_mono) auto
    also have "\<dots> = card (waiting n T db) - card (taken_pk t ?lk limit db)"
      by (rule card_Diff_subset [OF finite_subset [OF over(2) finite_waiting] over(2)])
    finally have "int (card (waiting n T db1)) \<le> limit * int (length ops)"
      using Cons.prems(4) over card_mono [OF finite_waiting over(2)] by (simp add: algebra_simps)
    with Cons.IH [OF db1 row] Cons.prems(3) op cl show ?thesis by auto
  qed
qed

section \<open>Properties\<close>

text \<open>
  C7: A due row is not passed over: in a sequence of claims that are all taken within one lease, with no
  other statement writing to the queue in between, a row that is due (be it one whose worker died holding
  it, once the lease is over) and that no other transaction has locked is handed out after at most as many
  claims as its place in the queue over the limit of a claim, whoever takes them and whichever other rows
  are locked. Over longer times this does not hold of the code: rows before it whose workers keep dying
  are due again at each expiry and are taken first.
\<close>

theorem no_row_starves:
  assumes "db_inv db" "row_at db (baseline_pk key) = Some r" "due t0 (\<lambda>_. False) r" "rt_next r = Some n"
    and "0 < limit" "t0 \<le> T"
    and "\<forall>(t, locked, w, l) \<in> set ops. t0 \<le> t \<and> t \<le> T \<and> T \<le> t + l \<and> baseline_pk key \<notin> set locked"
    and "int (length (filter (runs_by n) (db_retrain db))) \<le> limit * int (length ops)"
  shows "\<exists>cs \<in> set (claim_run limit ops db). key \<in> rc_Key ` set cs"
  using claimed_in_time [OF assms(3-6,1,2,7)] assms(8) card_waiting [of n T db] by linarith

text \<open>The worker that held \<open>k1\<close> is gone; its lease ended at 100, and two rows are before or with it.\<close>

theorem no_row_starves_witness:
  "\<exists>cs \<in> set (claim_run 1 [(101, [], ''b'', hour), (102, [(''baseline'', 0, ''k3'')], ''c'', hour), (103, [], ''b'', hour)] sample_db).
     ''k1'' \<in> rc_Key ` set cs"
proof (rule no_row_starves [OF sample_db_inv])
  show "row_at sample_db (baseline_pk ''k1'') = Some (sample_row ''k1'' 10 (Some (''a'', 100)))"
    by (simp add: row_at_def baseline_pk_def sample_defs rt_pk_def)
  show "due 101 (\<lambda>_. False) (sample_row ''k1'' 10 (Some (''a'', 100)))"
    by (simp add: due_def sample_defs)
  show "rt_next (sample_row ''k1'' 10 (Some (''a'', 100))) = Some 10" by (simp add: sample_defs)
  show "(101 :: int) \<le> 103" by simp
qed (simp_all add: sample_defs runs_by_def baseline_pk_def unit_defs)

end
