(* ===== verification/Migrations.thy ===== *)
theory Migrations imports Prelude
begin

text \<open>
  The schema migrations (\<open>migrations.go\<close>). A database is the ledger
  \<open>baselines.schema_migrations\<close>, absent until the first migrator creates it, and the rest of the
  schema, on which \<open>run\<close> says what PostgreSQL makes of one migration file. A transaction holds the
  advisory lock from its first statement to its end, so it is one step on the database; what other
  migrators commit happens before it, while it waits for the lock.
\<close>

section \<open>Migration files\<close>

record migration =
  mg_Version :: string
  mg_Name :: string
  mg_SQL :: string

definition digitsOnly :: "string \<Rightarrow> bool" where
  "digitsOnly s = list_all digit_char s"

text \<open>\<open>strings.CutSuffix\<close> and \<open>strings.Cut\<close> with a one-byte separator.\<close>

definition cut_suffix :: "string \<Rightarrow> string \<Rightarrow> string option" where
  "cut_suffix suf s = (if suffix suf s then Some (take (length s - length suf) s) else None)"

definition cut_at :: "char \<Rightarrow> string \<Rightarrow> (string \<times> string) option" where
  "cut_at c s =
     (case dropWhile (\<lambda>x. x \<noteq> c) s of [] \<Rightarrow> None | _ # t \<Rightarrow> Some (takeWhile (\<lambda>x. x \<noteq> c) s, t))"

text \<open>The error carries the file name, which the source prints with \<open>%q\<close>.\<close>

definition parseMigrationName :: "string \<Rightarrow> string + string \<times> string" where
  "parseMigrationName file =
     (case cut_suffix ''.sql'' file of
        None \<Rightarrow> Inl file
      | Some base \<Rightarrow>
          (case cut_at (CHR ''_'') base of
             None \<Rightarrow> Inl file
           | Some (version, name) \<Rightarrow>
               if length version \<noteq> 4 \<or> name = [] \<or> \<not> digitsOnly version then Inl file
               else Inr (version, name)))"

record dir_entry =
  de_Name :: string
  de_IsDir :: bool
  de_content :: "go_err + string"

datatype panic = BadFileName string | Unreadable go_err

text \<open>The loop of \<open>allMigrations\<close> over the embedded directory.\<close>

fun read_entries :: "dir_entry list \<Rightarrow> panic + migration list" where
  "read_entries [] = Inr []"
| "read_entries (e # es) =
     (if de_IsDir e then read_entries es
      else case parseMigrationName (de_Name e) of
             Inl file \<Rightarrow> Inl (BadFileName file)
           | Inr (version, name) \<Rightarrow>
               (case de_content e of
                  Inl err \<Rightarrow> Inl (Unreadable err)
                | Inr raw \<Rightarrow>
                    (case read_entries es of
                       Inl p \<Rightarrow> Inl p
                     | Inr ms \<Rightarrow> Inr (\<lparr>mg_Version = version, mg_Name = name, mg_SQL = trim_space raw\<rparr> # ms))))"

text \<open>
  \<open>sort.Slice\<close> is not stable; the order of two migrations with one version is not relied on below.
\<close>

definition allMigrations :: "go_err + dir_entry list \<Rightarrow> panic + migration list" where
  "allMigrations dir =
     (case dir of
        Inl err \<Rightarrow> Inl (Unreadable err)
      | Inr entries \<Rightarrow>
          (case read_entries entries of Inl p \<Rightarrow> Inl p | Inr ms \<Rightarrow> Inr (sort_key mg_Version ms)))"

section \<open>The ledger\<close>

record 's mig_db =
  md_ledger :: "(string \<times> string) list option"
  md_schema :: 's

definition ledger_rows :: "'s mig_db \<Rightarrow> (string \<times> string) list" where
  "ledger_rows db = (case md_ledger db of None \<Rightarrow> [] | Some rows \<Rightarrow> rows)"

abbreviation versions :: "'s mig_db \<Rightarrow> string set" where
  "versions db \<equiv> fst ` set (ledger_rows db)"

definition noRows :: go_err where
  "noRows = Err ''no rows in result set''"

fun errors_is :: "go_err \<Rightarrow> go_err \<Rightarrow> bool" where
  "errors_is (Wrap s e) target = (Wrap s e = target \<or> errors_is e target)"
| "errors_is e target = (e = target)"

definition isUndefinedTable :: "go_err \<Rightarrow> bool" where
  "isUndefinedTable e = (case as_pg e of None \<Rightarrow> False | Some (code, msg) \<Rightarrow> code = ''42P01'')"

definition newline :: char where
  "newline = CHR 0x0A"

text \<open>
  The aggregate answers with one row, or an error: the connection's, or SQLSTATE 42P01 when there is no
  ledger. The order in which it lists the versions is PostgreSQL's; the code only uses their set.
\<close>

definition sql_ledger_versions :: "go_err option \<Rightarrow> 's mig_db \<Rightarrow> go_err + string" where
  "sql_ledger_versions flt db =
     (case flt of
        Some e \<Rightarrow> Inl e
      | None \<Rightarrow>
          (case md_ledger db of
             None \<Rightarrow> Inl (PgError ''ERROR'' ''42P01'' ''relation does not exist'')
           | Some rows \<Rightarrow> Inr (join_with [newline] (map fst rows))))"

definition ledgerVersions :: "go_err option \<Rightarrow> 's mig_db \<Rightarrow> go_err + string set" where
  "ledgerVersions flt db =
     (case sql_ledger_versions flt db of
        Inl e \<Rightarrow> if isUndefinedTable e \<or> errors_is e noRows then Inr {} else Inl (Wrap ''baseline store'' e)
      | Inr raw \<Rightarrow> Inr (set (filter (\<lambda>v. v \<noteq> []) (map trim_space (split_on newline raw)))))"

section \<open>One migration\<close>

text \<open>
  How the statements of one transaction end. A commit succeeds, fails without effect, or takes effect
  while its reply is lost.
\<close>

datatype commit_end = Commits | CommitFails go_err | CommitLost go_err

record tx_in =
  ti_begin :: "go_err option"
  ti_lock :: "go_err option"
  ti_ddl :: "go_err option"
  ti_probe :: "go_err option"
  ti_run :: "go_err option"
  ti_insert :: "go_err option"
  ti_commit :: commit_end

type_synonym 's runner = "string \<Rightarrow> 's \<Rightarrow> go_err + 's"

definition migrationError :: "migration \<Rightarrow> go_err \<Rightarrow> go_err" where
  "migrationError m e = Wrap (''migration '' @ mg_Version m @ ''_'' @ mg_Name m) e"

text \<open>The statements of the transaction, on the database as it sees it.\<close>

definition sql_ledger_ddl :: "'s mig_db \<Rightarrow> 's mig_db" where
  "sql_ledger_ddl db = db\<lparr>md_ledger := Some (ledger_rows db)\<rparr>"

definition sql_already_applied :: "go_err option \<Rightarrow> string \<Rightarrow> 's mig_db \<Rightarrow> go_err + int" where
  "sql_already_applied flt version db =
     (case flt of
        Some e \<Rightarrow> Inl e
      | None \<Rightarrow> if version \<in> versions db then Inr 1 else Inl noRows)"

definition sql_run :: "'s runner \<Rightarrow> go_err option \<Rightarrow> string \<Rightarrow> 's mig_db \<Rightarrow> go_err + 's mig_db" where
  "sql_run run flt sql db =
     (case flt of
        Some e \<Rightarrow> Inl e
      | None \<Rightarrow> (case run sql (md_schema db) of Inl e \<Rightarrow> Inl e | Inr s \<Rightarrow> Inr (db\<lparr>md_schema := s\<rparr>)))"

text \<open>\<open>version\<close> is UNIQUE.\<close>

definition sql_insert_ledger :: "go_err option \<Rightarrow> migration \<Rightarrow> 's mig_db \<Rightarrow> go_err + 's mig_db" where
  "sql_insert_ledger flt m db =
     (case flt of
        Some e \<Rightarrow> Inl e
      | None \<Rightarrow>
          if mg_Version m \<in> versions db
          then Inl (PgError ''ERROR'' ''23505'' ''duplicate key value violates unique constraint'')
          else Inr (db\<lparr>md_ledger := Some (ledger_rows db @ [(mg_Version m, mg_Name m)])\<rparr>))"

definition sql_commit :: "commit_end \<Rightarrow> 's mig_db \<Rightarrow> 's mig_db \<Rightarrow> go_err option \<times> 's mig_db" where
  "sql_commit c before after =
     (case c of
        Commits \<Rightarrow> (None, after)
      | CommitFails e \<Rightarrow> (Some e, before)
      | CommitLost e \<Rightarrow> (Some e, after))"

text \<open>Every early return rolls back to \<open>db\<close>.\<close>

definition applyOneMigration :: "'s runner \<Rightarrow> tx_in \<Rightarrow> migration \<Rightarrow> 's mig_db \<Rightarrow> (go_err + bool) \<times> 's mig_db" where
  "applyOneMigration run ti m db =
     (case ti_begin ti of
        Some e \<Rightarrow> (Inl (Wrap ''baseline store'' e), db)
      | None \<Rightarrow>
     (case ti_lock ti of
        Some e \<Rightarrow> (Inl (Wrap ''baseline store'' e), db)
      | None \<Rightarrow>
     (case ti_ddl ti of
        Some e \<Rightarrow> (Inl (Wrap ''baseline store'' e), db)
      | None \<Rightarrow>
          (let tx = sql_ledger_ddl db;
               fresh = (case sql_already_applied (ti_probe ti) (mg_Version m) tx of
                          Inr seen \<Rightarrow> Inr False
                        | Inl e \<Rightarrow> if errors_is e noRows then Inr True else Inl (Wrap ''baseline store'' e))
           in case fresh of
                Inl e \<Rightarrow> (Inl e, db)
              | Inr False \<Rightarrow> (Inr False, db)
              | Inr True \<Rightarrow>
                  (case sql_run run (ti_run ti) (mg_SQL m) tx of
                     Inl e \<Rightarrow> (Inl (migrationError m e), db)
                   | Inr tx \<Rightarrow>
                       (case sql_insert_ledger (ti_insert ti) m tx of
                          Inl e \<Rightarrow> (Inl (migrationError m e), db)
                        | Inr tx \<Rightarrow>
                            (case sql_commit (ti_commit ti) db tx of
                               (Some e, db) \<Rightarrow> (Inl (migrationError m e), db)
                             | (None, db) \<Rightarrow> (Inr True, db))))))))"

section \<open>All migrations\<close>

record migrationResult =
  mr_Applied :: "string list"
  mr_Pending :: "string list"
  mr_Unknown :: "string list"
  mr_Already :: int

text \<open>What the call decides from the ledger it read: the report and the pending migrations.\<close>

definition migration_plan :: "string set \<Rightarrow> migration list \<Rightarrow> migrationResult \<times> migration list" where
  "migration_plan applied ms =
     (let sorted = sort_key mg_Version ms;
          known = set (map mg_Version sorted)
      in (\<lparr>mr_Applied = [], mr_Pending = [], mr_Unknown = sorted_list_of_set (applied - known),
           mr_Already = int (length (filter (\<lambda>m. mg_Version m \<in> applied) sorted))\<rparr>,
          filter (\<lambda>m. mg_Version m \<notin> applied) sorted))"

text \<open>
  The environment of one call: how its reads and transactions end, and what other migrators commit
  before its \<open>n\<close>-th transaction takes the lock.
\<close>

record 's mig_env =
  me_read :: "go_err option"
  me_tx :: "nat \<Rightarrow> tx_in"
  me_others :: "nat \<Rightarrow> 's mig_db \<Rightarrow> 's mig_db"

fun apply_pending :: "'s runner \<Rightarrow> 's mig_env \<Rightarrow> nat \<Rightarrow> migration list \<Rightarrow> migrationResult \<Rightarrow> 's mig_db
    \<Rightarrow> (migrationResult \<times> go_err option) \<times> 's mig_db" where
  "apply_pending run env n [] res db = ((res, None), db)"
| "apply_pending run env n (m # ms) res db =
     (case applyOneMigration run (me_tx env n) m (me_others env n db) of
        (Inl e, db) \<Rightarrow> ((res, Some e), db)
      | (Inr wrote, db) \<Rightarrow>
          apply_pending run env (Suc n) ms
            (if wrote then res\<lparr>mr_Applied := mr_Applied res @ [mg_Version m]\<rparr> else res) db)"

definition no_result :: migrationResult where
  "no_result = \<lparr>mr_Applied = [], mr_Pending = [], mr_Unknown = [], mr_Already = 0\<rparr>"

definition applyMigrations :: "'s runner \<Rightarrow> 's mig_env \<Rightarrow> migration list \<Rightarrow> bool \<Rightarrow> 's mig_db
    \<Rightarrow> (migrationResult \<times> go_err option) \<times> 's mig_db" where
  "applyMigrations run env ms dryRun db =
     (case ledgerVersions (me_read env) db of
        Inl e \<Rightarrow> ((no_result, Some e), db)
      | Inr applied \<Rightarrow>
          (let (res, pending) = migration_plan applied ms in
           if dryRun then ((res\<lparr>mr_Pending := map mg_Version pending\<rparr>, None), db)
           else apply_pending run env 0 pending res db))"

section \<open>Lemmas\<close>

lemma cut_suffix_iff: "cut_suffix suf s = Some b \<longleftrightarrow> s = b @ suf"
  by (auto simp: cut_suffix_def suffix_def)

lemma cut_at_iff: "cut_at c s = Some (a, b) \<longleftrightarrow> s = a @ c # b \<and> c \<notin> set a"
proof
  assume cut: "cut_at c s = Some (a, b)"
  then obtain x where d: "dropWhile (\<lambda>x. x \<noteq> c) s = x # b" and a: "a = takeWhile (\<lambda>x. x \<noteq> c) s"
    by (auto simp: cut_at_def split: list.splits)
  then have "x = c" using hd_dropWhile [of "\<lambda>x. x \<noteq> c" s] by auto
  moreover have "s = a @ x # b" using d a by (metis takeWhile_dropWhile_id)
  moreover have "c \<notin> set a" using a by (auto dest: set_takeWhileD)
  ultimately show "s = a @ c # b \<and> c \<notin> set a" by simp
next
  assume "s = a @ c # b \<and> c \<notin> set a"
  moreover from this have "takeWhile (\<lambda>x. x \<noteq> c) (a @ c # b) = a" "dropWhile (\<lambda>x. x \<noteq> c) (a @ c # b) = c # b"
    by (auto simp: takeWhile_append dropWhile_append)
  ultimately show "cut_at c s = Some (a, b)" by (simp add: cut_at_def)
qed

text \<open>A version as the file names have it is four digits, so it survives the aggregate of the ledger.\<close>

definition version_ok :: "string \<Rightarrow> bool" where
  "version_ok v \<longleftrightarrow> length v = 4 \<and> digitsOnly v"

definition ledger_ok :: "'s mig_db \<Rightarrow> bool" where
  "ledger_ok db \<longleftrightarrow> (\<forall>v \<in> versions db. version_ok v)"

lemma digit_not_newline: "digit_char c \<Longrightarrow> c \<noteq> newline"
  by (auto simp: digit_char_def newline_def)

lemma digit_graphic: "digit_char c \<Longrightarrow> graphic c"
  by (simp add: digit_char_def graphic_def)

lemma version_ok_text: "version_ok v \<Longrightarrow> v \<noteq> [] \<and> newline \<notin> set v \<and> trim_space v = v"
  by (auto simp: version_ok_def digitsOnly_def list_all_iff digit_graphic dest: digit_not_newline intro!: trim_graphic)

lemma ledgerVersions_read:
  assumes "ledger_ok db"
  shows "ledgerVersions None db = Inr (versions db)"
proof (cases "md_ledger db")
  case None
  then show ?thesis by (simp add: ledgerVersions_def sql_ledger_versions_def isUndefinedTable_def ledger_rows_def)
next
  case (Some rows)
  let ?vs = "map fst rows"
  have ok: "\<forall>v \<in> set ?vs. v \<noteq> [] \<and> newline \<notin> set v \<and> trim_space v = v"
    using assms Some version_ok_text by (auto simp: ledger_ok_def ledger_rows_def)
  have "set (filter (\<lambda>v. v \<noteq> []) (map trim_space (split_on newline (join_with [newline] ?vs)))) = set ?vs"
  proof (cases "rows = []")
    case False
    then have "split_on newline (join_with [newline] ?vs) = ?vs" using ok by (intro split_join) auto
    moreover have "map trim_space ?vs = ?vs" using ok by (simp add: map_idI)
    ultimately show ?thesis using ok by simp
  qed simp
  with Some show ?thesis by (simp add: ledgerVersions_def sql_ledger_versions_def ledger_rows_def)
qed

lemma ledgerVersions_cases:
  assumes "ledgerVersions flt db = Inr applied" "ledger_ok db"
  shows "applied = versions db \<or> applied = {}"
proof (cases flt)
  case None
  with assms ledgerVersions_read [of db] show ?thesis by simp
next
  case (Some e)
  with assms(1) show ?thesis by (auto simp: ledgerVersions_def sql_ledger_versions_def split: if_splits)
qed

text \<open>One transaction leaves the database alone or extends it by one whole migration.\<close>

definition extended :: "'s runner \<Rightarrow> migration \<Rightarrow> 's mig_db \<Rightarrow> 's mig_db \<Rightarrow> bool" where
  "extended run m db db' \<longleftrightarrow> mg_Version m \<notin> versions db
     \<and> ledger_rows db' = ledger_rows db @ [(mg_Version m, mg_Name m)]
     \<and> run (mg_SQL m) (md_schema db) = Inr (md_schema db')"

lemma ledger_ddl_rows [simp]:
  "ledger_rows (sql_ledger_ddl db) = ledger_rows db" "md_schema (sql_ledger_ddl db) = md_schema db"
  by (simp_all add: sql_ledger_ddl_def ledger_rows_def)

lemma ledger_rows_update [simp]:
  "ledger_rows (db\<lparr>md_schema := s\<rparr>) = ledger_rows db" "ledger_rows (db\<lparr>md_ledger := Some rows\<rparr>) = rows"
  by (simp_all add: ledger_rows_def)

lemma insert_ledgerE:
  assumes "sql_insert_ledger flt m db = Inr db'"
  shows "mg_Version m \<notin> versions db" "ledger_rows db' = ledger_rows db @ [(mg_Version m, mg_Name m)]"
    "md_schema db' = md_schema db"
  using assms by (auto simp: sql_insert_ledger_def split: option.splits if_splits)

lemma run_sqlE:
  assumes "sql_run run flt sql db = Inr db'"
  shows "run sql (md_schema db) = Inr (md_schema db')" "ledger_rows db' = ledger_rows db"
  using assms by (auto simp: sql_run_def split: option.splits sum.splits)

lemma applyOne_atomic:
  assumes "applyOneMigration run ti m db = (r, db')"
  shows "db' = db \<or> extended run m db db'"
proof -
  have ext: "extended run m db tx'" if "sql_run run f (mg_SQL m) (sql_ledger_ddl db) = Inr tx"
    "sql_insert_ledger g m tx = Inr tx'" for f g tx tx'
    using run_sqlE [OF that(1)] insert_ledgerE [OF that(2)] by (simp add: extended_def)
  from assms show ?thesis
    by (auto simp: applyOneMigration_def Let_def sql_commit_def ext
        split: option.splits sum.splits bool.splits commit_end.splits if_splits)
qed

lemma applyOne_answer:
  assumes "applyOneMigration run ti m db = (Inr wrote, db')"
  shows "if wrote then extended run m db db' else db' = db \<and> mg_Version m \<in> versions db"
proof -
  have ext: "extended run m db tx'" if "sql_run run f (mg_SQL m) (sql_ledger_ddl db) = Inr tx"
    "sql_insert_ledger g m tx = Inr tx'" for f g tx tx'
    using run_sqlE [OF that(1)] insert_ledgerE [OF that(2)] by (simp add: extended_def)
  from assms show ?thesis
    by (auto simp: applyOneMigration_def Let_def sql_commit_def sql_already_applied_def ext
        split: option.splits sum.splits bool.splits commit_end.splits if_splits)
qed

lemma extended_ok: "extended run m db db' \<Longrightarrow> ledger_ok db \<Longrightarrow> version_ok (mg_Version m) \<Longrightarrow> ledger_ok db'"
  by (auto simp: extended_def ledger_ok_def)

lemma read_entries_ok:
  "read_entries es = Inr ms \<Longrightarrow> length ms = length (filter (\<lambda>e. \<not> de_IsDir e) es)
     \<and> (\<forall>m \<in> set ms. version_ok (mg_Version m))"
proof (induction es arbitrary: ms)
  case (Cons e es)
  show ?case
  proof (cases "de_IsDir e")
    case False
    with Cons.prems obtain v n raw rest where name: "parseMigrationName (de_Name e) = Inr (v, n)"
      and rest: "read_entries es = Inr rest" "ms = \<lparr>mg_Version = v, mg_Name = n, mg_SQL = trim_space raw\<rparr> # rest"
      by (auto split: sum.splits)
    from name have "version_ok v"
      by (auto simp: parseMigrationName_def version_ok_def split: option.splits if_splits)
    with Cons.IH [OF rest(1)] rest(2) False show ?thesis by simp
  qed (use Cons in simp)
qed simp

text \<open>
  The embedded migrations come sorted, one for each file; a file name that is not \<open>NNNN_name.sql\<close>
  stops the program instead of being skipped.
\<close>

lemma allMigrations_ok:
  assumes "allMigrations (Inr es) = Inr ms"
  shows "length ms = length (filter (\<lambda>e. \<not> de_IsDir e) es)"
    and "sorted (map mg_Version ms)" "\<forall>m \<in> set ms. version_ok (mg_Version m)"
proof -
  from assms obtain raw where raw: "read_entries es = Inr raw" "ms = sort_key mg_Version raw"
    by (auto simp: allMigrations_def split: sum.splits)
  with read_entries_ok [OF raw(1)] show "length ms = length (filter (\<lambda>e. \<not> de_IsDir e) es)"
    "sorted (map mg_Version ms)" "\<forall>m \<in> set ms. version_ok (mg_Version m)" by simp_all
qed

lemma digits_no_underscore: "digitsOnly v \<Longrightarrow> CHR ''_'' \<notin> set v"
  by (auto simp: digitsOnly_def list_all_iff digit_char_def)

section \<open>Properties\<close>

text \<open>
  The names of migration files: exactly \<open>NNNN_name.sql\<close> with four digits and a name is accepted,
  and it is read as that version and that name.
\<close>

theorem migration_name_read:
  "parseMigrationName file = Inr (v, n)
   \<longleftrightarrow> file = v @ ''_'' @ n @ ''.sql'' \<and> length v = 4 \<and> digitsOnly v \<and> n \<noteq> []"
proof
  assume "parseMigrationName file = Inr (v, n)"
  then obtain base where "cut_suffix ''.sql'' file = Some base" "cut_at (CHR ''_'') base = Some (v, n)"
    "length v = 4 \<and> n \<noteq> [] \<and> digitsOnly v"
    by (auto simp: parseMigrationName_def split: option.splits if_splits)
  then show "file = v @ ''_'' @ n @ ''.sql'' \<and> length v = 4 \<and> digitsOnly v \<and> n \<noteq> []"
    by (simp add: cut_suffix_iff cut_at_iff)
next
  assume f: "file = v @ ''_'' @ n @ ''.sql'' \<and> length v = 4 \<and> digitsOnly v \<and> n \<noteq> []"
  then have "cut_suffix ''.sql'' file = Some (v @ CHR ''_'' # n)" by (simp add: cut_suffix_iff)
  moreover have "cut_at (CHR ''_'') (v @ CHR ''_'' # n) = Some (v, n)"
    using f digits_no_underscore by (simp add: cut_at_iff)
  ultimately show "parseMigrationName file = Inr (v, n)" using f by (simp add: parseMigrationName_def)
qed

end
