(* ===== verification/MigrationFleet.thy ===== *)
theory MigrationFleet imports Migrations
begin

text \<open>
  Several migrators at once (a pipeline's \<open>baselines-migrate\<close>, workers that migrate at their first
  store use, older and newer binaries), as a step relation over the database and what each of them still
  has to do, and the calls of one migrator among others.
\<close>

section \<open>Migrators\<close>

text \<open>
  A migrator is idle, has read the ledger and has some migrations pending, or has ended its call. It
  may stop anywhere (its process dies, which rolls its transaction back) and start again.
\<close>

datatype migrator = Idle | Busy "migration list" | Stopped "go_err option"

type_synonym 's fleet = "'s mig_db \<times> (nat \<Rightarrow> migrator)"

text \<open>Binary \<open>i\<close> embeds the first \<open>known i\<close> of the migrations.\<close>

inductive fleet_step :: "'s runner \<Rightarrow> migration list \<Rightarrow> (nat \<Rightarrow> nat) \<Rightarrow> 's fleet \<Rightarrow> 's fleet \<Rightarrow> bool"
  for run :: "'s runner" and ms :: "migration list" and known :: "nat \<Rightarrow> nat" where
  read_ok: "\<lbrakk>procs i = Idle; ledgerVersions flt db = Inr applied\<rbrakk> \<Longrightarrow>
     fleet_step run ms known (db, procs) (db, procs(i := Busy (snd (migration_plan applied (take (known i) ms)))))"
| read_fails: "\<lbrakk>procs i = Idle; ledgerVersions flt db = Inl e\<rbrakk> \<Longrightarrow>
     fleet_step run ms known (db, procs) (db, procs(i := Stopped (Some e)))"
| tx_done: "\<lbrakk>procs i = Busy (m # rest); applyOneMigration run ti m db = (Inr wrote, db')\<rbrakk> \<Longrightarrow>
     fleet_step run ms known (db, procs) (db', procs(i := Busy rest))"
| tx_fails: "\<lbrakk>procs i = Busy (m # rest); applyOneMigration run ti m db = (Inl e, db')\<rbrakk> \<Longrightarrow>
     fleet_step run ms known (db, procs) (db', procs(i := Stopped (Some e)))"
| finished: "procs i = Busy [] \<Longrightarrow> fleet_step run ms known (db, procs) (db, procs(i := Stopped None))"
| restart: "fleet_step run ms known (db, procs) (db, procs(i := Idle))"

text \<open>The states of the database that are a prefix of the migrations, each run once and in order.\<close>

fun run_all :: "'s runner \<Rightarrow> migration list \<Rightarrow> 's \<Rightarrow> go_err + 's" where
  "run_all run [] s = Inr s"
| "run_all run (m # ms) s = (case run (mg_SQL m) s of Inl e \<Rightarrow> Inl e | Inr s \<Rightarrow> run_all run ms s)"

definition ledger_row :: "migration \<Rightarrow> string \<times> string" where
  "ledger_row m = (mg_Version m, mg_Name m)"

definition migrated :: "'s runner \<Rightarrow> migration list \<Rightarrow> 's \<Rightarrow> nat \<Rightarrow> 's mig_db \<Rightarrow> bool" where
  "migrated run ms s0 k db \<longleftrightarrow> k \<le> length ms \<and> ledger_rows db = map ledger_row (take k ms)
     \<and> run_all run (take k ms) s0 = Inr (md_schema db)"

definition migrations_ok :: "migration list \<Rightarrow> bool" where
  "migrations_ok ms \<longleftrightarrow> sorted (map mg_Version ms) \<and> distinct (map mg_Version ms)
     \<and> (\<forall>m \<in> set ms. version_ok (mg_Version m))"

section \<open>Lemmas\<close>

lemma run_all_append:
  "run_all run (xs @ ys) s = (case run_all run xs s of Inl e \<Rightarrow> Inl e | Inr t \<Rightarrow> run_all run ys t)"
  by (induction xs arbitrary: s) (auto split: sum.split)

lemma run_all_cases:
  "(\<exists>t. run_all run ms s = Inr t)
   \<or> (\<exists>as m bs t e. ms = as @ m # bs \<and> run_all run as s = Inr t \<and> run (mg_SQL m) t = Inl e)"
proof (induction ms arbitrary: s)
  case (Cons m ms)
  show ?case
  proof (cases "run (mg_SQL m) s")
    case (Inl e)
    then have "m # ms = [] @ m # ms \<and> run_all run [] s = Inr s \<and> run (mg_SQL m) s = Inl e" by simp
    then show ?thesis by blast
  next
    case (Inr t)
    from Cons.IH [of t] show ?thesis
    proof (elim disjE exE conjE)
      fix as n bs u e
      assume "ms = as @ n # bs" "run_all run as t = Inr u" "run (mg_SQL n) u = Inl e"
      with Inr have "m # ms = (m # as) @ n # bs \<and> run_all run (m # as) s = Inr u \<and> run (mg_SQL n) u = Inl e"
        by simp
      then show ?thesis by blast
    qed (simp add: Inr)
  qed
qed simp

lemma migrations_ok_take: "migrations_ok ms \<Longrightarrow> migrations_ok (take n ms)"
  by (auto simp: migrations_ok_def take_map [symmetric] sorted_wrt_take dest: in_set_takeD)

lemma migrated_versions: "migrated run ms s0 k db \<Longrightarrow> versions db = set (map mg_Version (take k ms))"
  by (simp add: migrated_def ledger_row_def image_image)

lemma migrated_ok: "migrations_ok ms \<Longrightarrow> migrated run ms s0 k db \<Longrightarrow> ledger_ok db"
  unfolding ledger_ok_def by (auto simp: migrated_versions migrations_ok_def dest: in_set_takeD)

lemma sorted_migrations: "migrations_ok ms \<Longrightarrow> sort_key mg_Version ms = ms"
  by (simp add: migrations_ok_def sort_key_id_if_sorted)

lemma nth_in_take: "distinct xs \<Longrightarrow> j < length xs \<Longrightarrow> xs ! j \<in> set (take k xs) \<longleftrightarrow> j < k"
proof -
  assume d: "distinct xs" and j: "j < length xs"
  show ?thesis
  proof
    assume "xs ! j \<in> set (take k xs)"
    then obtain i where "i < k" "i < length xs" "xs ! i = xs ! j" by (auto simp: in_set_conv_nth)
    with d j show "j < k" by (simp add: nth_eq_iff_index_eq)
  next
    assume "j < k"
    with j show "xs ! j \<in> set (take k xs)" by (auto simp: in_set_conv_nth intro!: exI [of _ j])
  qed
qed

lemma version_taken:
  assumes "migrations_ok ms" "j < length ms"
  shows "mg_Version (ms ! j) \<in> set (map mg_Version (take k ms)) \<longleftrightarrow> j < k"
  using nth_in_take [of "map mg_Version ms" j k] assms by (simp add: migrations_ok_def take_map)

lemma filter_not_taken:
  assumes "migrations_ok ms"
  shows "filter (\<lambda>m. mg_Version m \<notin> set (map mg_Version (take k ms))) (take n ms) = drop k (take n ms)"
proof -
  let ?P = "\<lambda>m. mg_Version m \<notin> set (map mg_Version (take k ms))"
  have "\<not> ?P m" if "m \<in> set (take k (take n ms))" for m
    using that by (metis image_eqI list.set_map set_take_subset_set_take subset_code(1) take_take min.cobounded1)
  then have "filter ?P (take k (take n ms)) = []" by (simp add: filter_empty_conv del: take_take)
  moreover have "filter ?P (drop k (take n ms)) = drop k (take n ms)"
  proof (rule filter_True, rule ballI)
    fix m assume "m \<in> set (drop k (take n ms))"
    then obtain i where i: "i < length (drop k (take n ms))" "m = drop k (take n ms) ! i"
      by (auto simp: in_set_conv_nth)
    from i(1) have "k + i < length ms" by (simp add: drop_take) linarith
    moreover from this i have "m = ms ! (k + i)" by (simp add: drop_take)
    ultimately show "?P m" using version_taken [OF assms, of "k + i" k] by simp
  qed
  moreover have "filter ?P (take n ms) = filter ?P (take k (take n ms)) @ filter ?P (drop k (take n ms))"
    by (metis append_take_drop_id filter_append)
  ultimately show ?thesis by simp
qed

text \<open>What a migrator still has to do is the rest of its migrations from some point it has passed.\<close>

lemma plan_pending:
  assumes "migrations_ok ms" "migrated run ms s0 k db" "ledgerVersions flt db = Inr applied"
  shows "\<exists>j \<le> k. snd (migration_plan applied (take n ms)) = drop j (take n ms)"
proof -
  have pend: "snd (migration_plan applied (take n ms)) = filter (\<lambda>m. mg_Version m \<notin> applied) (take n ms)"
    using assms(1) by (simp add: migration_plan_def Let_def sorted_migrations migrations_ok_take)
  from ledgerVersions_cases [OF assms(3) migrated_ok [OF assms(1,2)]] show ?thesis
  proof
    assume "applied = versions db"
    with pend filter_not_taken [OF assms(1), of k n] migrated_versions [OF assms(2)] show ?thesis by auto
  next
    assume "applied = {}"
    with pend show ?thesis by (intro exI [of _ 0]) simp
  qed
qed

lemma tx_prefix:
  assumes "migrations_ok ms" "migrated run ms s0 k db" "m # rest = drop j (take n ms)" "j \<le> k"
    and "applyOneMigration run ti m db = (r, db')"
  shows "\<exists>k'. k \<le> k' \<and> migrated run ms s0 k' db' \<and> (isl r \<or> j < k')"
proof -
  have j: "j < length (take n ms)" using assms(3) by (metis drop_all leI list.discI)
  then have "m = ms ! j" and len: "j < length ms" using assms(3) by (auto simp: Cons_nth_drop_Suc [symmetric])
  note in_ledger = version_taken [OF assms(1) len, of k, folded migrated_versions [OF assms(2)] this(1)]
  have next_state: "migrated run ms s0 (Suc k) db'" if "extended run m db db'" "j = k"
    using that assms(2) len \<open>m = ms ! j\<close>
    by (auto simp: migrated_def extended_def take_Suc_conv_app_nth ledger_row_def run_all_append)
  show ?thesis
  proof (cases r)
    case (Inl e)
    from applyOne_atomic [OF assms(5)] show ?thesis
    proof
      assume "extended run m db db'"
      moreover from this have "j = k" using in_ledger assms(4) by (simp add: extended_def)
      ultimately show ?thesis using next_state Inl by (intro exI [of _ "Suc k"]) simp
    qed (use assms(2) Inl in auto)
  next
    case (Inr wrote)
    with applyOne_answer [of run ti m db wrote db'] assms(5)
    have a: "if wrote then extended run m db db' else db' = db \<and> mg_Version m \<in> versions db" by simp
    show ?thesis
    proof (cases wrote)
      case True
      with a have "extended run m db db'" by simp
      moreover from this have "j = k" using in_ledger assms(4) by (simp add: extended_def)
      ultimately show ?thesis using next_state by (intro exI [of _ "Suc k"]) simp
    next
      case False
      with a in_ledger assms(2) show ?thesis by (intro exI [of _ k]) simp
    qed
  qed
qed

definition pending_from :: "migration list \<Rightarrow> nat \<Rightarrow> nat \<Rightarrow> migrator \<Rightarrow> bool" where
  "pending_from ms n k p \<longleftrightarrow> (\<forall>rest. p = Busy rest \<longrightarrow> (\<exists>j \<le> k. rest = drop j (take n ms)))"

definition fleet_inv :: "'s runner \<Rightarrow> migration list \<Rightarrow> (nat \<Rightarrow> nat) \<Rightarrow> 's \<Rightarrow> nat \<Rightarrow> 's fleet \<Rightarrow> bool" where
  "fleet_inv run ms known s0 k st \<longleftrightarrow> migrated run ms s0 k (fst st) \<and> (\<forall>i. pending_from ms (known i) k (snd st i))"

lemma pending_from_mono: "pending_from ms n k p \<Longrightarrow> k \<le> k' \<Longrightarrow> pending_from ms n k' p"
  unfolding pending_from_def using le_trans by blast

lemma pending_from_other [simp]: "pending_from ms n k Idle" "pending_from ms n k (Stopped e)"
  by (simp_all add: pending_from_def)

lemma fleet_invI:
  assumes "fleet_inv run ms known s0 k (db, procs)" "k \<le> k'" "migrated run ms s0 k' db'"
    and "pending_from ms (known i) k' p"
  shows "fleet_inv run ms known s0 k' (db', procs(i := p))"
  using assms by (auto simp: fleet_inv_def intro: pending_from_mono)

lemma fleet_step_inv:
  assumes "fleet_step run ms known st st'" "migrations_ok ms" "fleet_inv run ms known s0 k st"
  shows "\<exists>k' \<ge> k. fleet_inv run ms known s0 k' st'"
  using assms
proof (induction rule: fleet_step.induct)
  case (read_ok procs i flt db applied)
  have db: "migrated run ms s0 k db" using read_ok.prems by (simp add: fleet_inv_def)
  from plan_pending [OF read_ok.prems(1) db read_ok.hyps(2), of "known i"]
  have "pending_from ms (known i) k (Busy (snd (migration_plan applied (take (known i) ms))))"
    by (simp add: pending_from_def)
  with fleet_invI [OF read_ok.prems(2) order_refl db] show ?case by blast
next
  case (tx_done procs i m rest ti db wrote db')
  have db: "migrated run ms s0 k db" using tx_done.prems by (simp add: fleet_inv_def)
  from tx_done obtain j where j: "j \<le> k" "m # rest = drop j (take (known i) ms)"
    by (fastforce simp: fleet_inv_def pending_from_def)
  from tx_prefix [OF tx_done.prems(1) db j(2,1) tx_done.hyps(2)]
  obtain k' where k': "k \<le> k'" "migrated run ms s0 k' db'" "j < k'" by auto
  have "rest = drop (Suc j) (take (known i) ms)" using j(2) by (metis drop_Suc drop_tl list.sel(3))
  with k'(3) have "pending_from ms (known i) k' (Busy rest)" by (auto simp: pending_from_def intro!: exI [of _ "Suc j"])
  with fleet_invI [OF tx_done.prems(2) k'(1,2)] k'(1) show ?case by blast
next
  case (tx_fails procs i m rest ti db e db')
  have db: "migrated run ms s0 k db" using tx_fails.prems by (simp add: fleet_inv_def)
  from tx_fails obtain j where j: "j \<le> k" "m # rest = drop j (take (known i) ms)"
    by (fastforce simp: fleet_inv_def pending_from_def)
  from tx_prefix [OF tx_fails.prems(1) db j(2,1) tx_fails.hyps(2)]
  obtain k' where k': "k \<le> k'" "migrated run ms s0 k' db'" by auto
  with fleet_invI [OF tx_fails.prems(2) k'] show ?case by fastforce
next
  case (restart db procs i)
  then have "migrated run ms s0 k db" by (simp add: fleet_inv_def)
  with fleet_invI [OF restart(2) order_refl] show ?case by fastforce
next
  case (read_fails procs i flt db e)
  then have "migrated run ms s0 k db" by (simp add: fleet_inv_def)
  with fleet_invI [OF read_fails.prems(2) order_refl] show ?case by fastforce
next
  case (finished procs i db)
  then have "migrated run ms s0 k db" by (simp add: fleet_inv_def)
  with fleet_invI [OF finished.prems(2) order_refl] show ?case by fastforce
qed

lemma fleet_run_inv:
  assumes "(fleet_step run ms known)\<^sup>*\<^sup>* st st'" "migrations_ok ms" "fleet_inv run ms known s0 k st"
  shows "\<exists>k' \<ge> k. fleet_inv run ms known s0 k' st'"
  using assms
proof (induction rule: rtranclp_induct)
  case (step y z)
  then obtain k1 where "k \<le> k1" "fleet_inv run ms known s0 k1 y" by blast
  with fleet_step_inv [OF step(2,4)] show ?case by (meson order_trans)
qed blast

text \<open>The calls of one migrator among others that only move the database along the migrations.\<close>

definition others_migrate :: "'s runner \<Rightarrow> migration list \<Rightarrow> 's \<Rightarrow> 's mig_env \<Rightarrow> bool" where
  "others_migrate run ms s0 env \<longleftrightarrow>
     (\<forall>n k db. migrated run ms s0 k db \<longrightarrow> (\<exists>k' \<ge> k. migrated run ms s0 k' (me_others env n db)))"

lemma migrated_new_versions:
  assumes "migrations_ok ms" "migrated run ms s0 k db" "migrated run ms s0 k' db'" "k \<le> i" "i < k'"
  shows "mg_Version (ms ! i) \<in> versions db' - versions db"
proof -
  have "i < length ms" using assms(3,5) by (simp add: migrated_def)
  with assms version_taken [OF assms(1) this] migrated_versions [OF assms(2)] migrated_versions [OF assms(3)]
  show ?thesis by simp
qed

lemma migrated_versions_mono:
  assumes "migrated run ms s0 k db" "migrated run ms s0 k' db'" "k \<le> k'"
  shows "versions db \<subseteq> versions db'"
  using set_take_subset_set_take [OF assms(3), of ms] migrated_versions [OF assms(1)] migrated_versions [OF assms(2)] by auto

lemma apply_pending_prefix:
  assumes "migrations_ok ms" "others_migrate run ms s0 env"
    and "migrated run ms s0 k db" "j \<le> k" "pending = drop j ms"
    and "apply_pending run env n pending res db = ((res', err), db')"
  shows "\<exists>k' \<ge> k. migrated run ms s0 k' db' \<and> (err = None \<longrightarrow> k' = length ms)
    \<and> set (mr_Applied res') \<subseteq> set (mr_Applied res) \<union> (versions db' - versions db)"
  using assms(3-)
proof (induction pending arbitrary: n j k res db)
  case Nil
  then have "k = length ms" by (simp add: migrated_def)
  with Nil show ?case by (intro exI [of _ k]) simp
next
  case (Cons m rest)
  let ?db = "me_others env n db"
  obtain k1 where k1: "k \<le> k1" "migrated run ms s0 k1 ?db"
    using assms(2) Cons.prems(1) unfolding others_migrate_def by blast
  obtain r db2 where tx: "applyOneMigration run (me_tx env n) m ?db = (r, db2)" by fastforce
  have full: "m # rest = drop j (take (length ms) ms)" and "j \<le> k1" using Cons.prems(2,3) k1(1) by simp_all
  from tx_prefix [OF assms(1) k1(2) this tx]
  obtain k2 where k2: "k1 \<le> k2" "migrated run ms s0 k2 db2" "isl r \<or> j < k2" by blast
  show ?case
  proof (cases r)
    case (Inl e)
    with tx Cons.prems(4) k1(1) k2 show ?thesis by (intro exI [of _ k2]) auto
  next
    case (Inr wrote)
    have rest: "rest = drop (Suc j) ms" using Cons.prems(3) by (metis drop_Suc drop_tl list.sel(3))
    let ?res = "if wrote then res\<lparr>mr_Applied := mr_Applied res @ [mg_Version m]\<rparr> else res"
    have step: "apply_pending run env (Suc n) rest ?res db2 = ((res', err), db')"
      using Cons.prems(4) tx Inr by simp
    from Inr k2(3) have "Suc j \<le> k2" by simp
    from Cons.IH [OF k2(2) this rest step] obtain k' where
      k': "k2 \<le> k'" "migrated run ms s0 k' db'" "err = None \<longrightarrow> k' = length ms"
        "set (mr_Applied res') \<subseteq> set (mr_Applied ?res) \<union> (versions db' - versions db2)" by blast
    have sub: "versions db \<subseteq> versions ?db" "versions ?db \<subseteq> versions db2" "versions db2 \<subseteq> versions db'"
      by (rule migrated_versions_mono [OF Cons.prems(1) k1(2,1)], rule migrated_versions_mono [OF k1(2) k2(2,1)],
          rule migrated_versions_mono [OF k2(2) k'(2,1)])
    have "mg_Version m \<in> versions db2 - versions ?db" if wrote
      using applyOne_answer [of run "me_tx env n" m ?db wrote db2] tx Inr that by (simp add: extended_def)
    then have new: "wrote \<Longrightarrow> mg_Version m \<in> versions db' - versions db" using sub by blast
    have "set (mr_Applied ?res) \<union> (versions db' - versions db2)
        \<subseteq> set (mr_Applied res) \<union> (versions db' - versions db)"
      using new sub by (cases wrote) auto
    with k'(4) have "set (mr_Applied res') \<subseteq> set (mr_Applied res) \<union> (versions db' - versions db)" by (rule subset_trans)
    with k' k1(1) k2(1) show ?thesis by (intro exI [of _ k']) auto
  qed
qed

lemma migrate_prefix:
  assumes "migrations_ok ms" "migrated run ms s0 k db" "others_migrate run ms s0 env"
    and "applyMigrations run env ms False db = ((res, err), db')"
  shows "\<exists>k' \<ge> k. migrated run ms s0 k' db' \<and> (err = None \<longrightarrow> k' = length ms)
    \<and> set (mr_Applied res) \<subseteq> versions db' - versions db"
proof (cases "ledgerVersions (me_read env) db")
  case (Inl e)
  with assms(2,4) show ?thesis by (intro exI [of _ k]) (auto simp: applyMigrations_def no_result_def)
next
  case (Inr applied)
  obtain res0 pending where plan: "migration_plan applied ms = (res0, pending)" by fastforce
  then have start: "mr_Applied res0 = []" by (auto simp: migration_plan_def Let_def)
  from plan plan_pending [OF assms(1,2) Inr, of "length ms"]
  obtain j where j: "j \<le> k" "pending = drop j ms" by auto
  have "apply_pending run env 0 pending res0 db = ((res, err), db')"
    using assms(4) Inr plan by (simp add: applyMigrations_def)
  from apply_pending_prefix [OF assms(1,3,2) j this] start show ?thesis by simp
qed

text \<open>
  What the other migrators commit while a call waits for its turns: the versions that are new in the ledger
  when a transaction gets the lock.
\<close>

fun added_by_others :: "'s runner \<Rightarrow> 's mig_env \<Rightarrow> nat \<Rightarrow> migration list \<Rightarrow> 's mig_db \<Rightarrow> string set" where
  "added_by_others run env n [] db = {}"
| "added_by_others run env n (m # ms) db =
     (versions (me_others env n db) - versions db)
     \<union> (case applyOneMigration run (me_tx env n) m (me_others env n db) of
          (Inl e, db) \<Rightarrow> {}
        | (Inr wrote, db) \<Rightarrow> added_by_others run env (Suc n) ms db)"

definition committed_by_others :: "'s runner \<Rightarrow> 's mig_env \<Rightarrow> migration list \<Rightarrow> 's mig_db \<Rightarrow> string set" where
  "committed_by_others run env ms db =
     (case ledgerVersions (me_read env) db of
        Inl e \<Rightarrow> {}
      | Inr applied \<Rightarrow> added_by_others run env 0 (snd (migration_plan applied ms)) db)"

text \<open>An exact account of a new ledger: what was there, what is reported, and what others added.\<close>

definition accounted :: "string set \<Rightarrow> string list \<Rightarrow> string set \<Rightarrow> string set \<Rightarrow> bool" where
  "accounted old reported others new \<longleftrightarrow> new = old \<union> set reported \<union> others \<and> distinct reported
     \<and> old \<inter> set reported = {} \<and> old \<inter> others = {} \<and> set reported \<inter> others = {}"

lemma accounted_step:
  assumes "accounted new2 as others new" "old \<subseteq> seen"
    and "if wrote then new2 = insert v seen \<and> v \<notin> seen else new2 = seen"
  shows "accounted old (if wrote then v # as else as) ((seen - old) \<union> others) new"
  using assms by (cases wrote) (auto simp: accounted_def)

lemma apply_pending_accounted:
  assumes "migrations_ok ms" "others_migrate run ms s0 env"
    and "migrated run ms s0 k db" "j \<le> k" "pending = drop j ms"
    and "apply_pending run env n pending res db = ((res', None), db')"
  shows "\<exists>as. mr_Applied res' = mr_Applied res @ as
    \<and> accounted (versions db) as (added_by_others run env n pending db) (versions db')"
  using assms(3-)
proof (induction pending arbitrary: n j k res db)
  case Nil
  then show ?case by (simp add: accounted_def)
next
  case (Cons m rest)
  let ?db = "me_others env n db"
  obtain k1 where k1: "k \<le> k1" "migrated run ms s0 k1 ?db"
    using assms(2) Cons.prems(1) unfolding others_migrate_def by blast
  obtain wrote db2 where tx: "applyOneMigration run (me_tx env n) m ?db = (Inr wrote, db2)"
    using Cons.prems(4) by (auto split: prod.splits sum.splits)
  have full: "m # rest = drop j (take (length ms) ms)" and "j \<le> k1" using Cons.prems(2,3) k1(1) by simp_all
  from tx_prefix [OF assms(1) k1(2) this tx] obtain k2 where k2: "migrated run ms s0 k2 db2" "j < k2" by auto
  let ?res = "if wrote then res\<lparr>mr_Applied := mr_Applied res @ [mg_Version m]\<rparr> else res"
  have "rest = drop (Suc j) ms" using Cons.prems(3) by (metis drop_Suc drop_tl list.sel(3))
  moreover have "apply_pending run env (Suc n) rest ?res db2 = ((res', None), db')" using Cons.prems(4) tx by simp
  moreover have "Suc j \<le> k2" using k2(2) by simp
  ultimately obtain as where as: "mr_Applied res' = mr_Applied ?res @ as"
    "accounted (versions db2) as (added_by_others run env (Suc n) rest db2) (versions db')"
    using Cons.IH [OF k2(1)] by blast
  have "versions db \<subseteq> versions ?db" by (rule migrated_versions_mono [OF Cons.prems(1) k1(2,1)])
  moreover have "if wrote then versions db2 = insert (mg_Version m) (versions ?db) \<and> mg_Version m \<notin> versions ?db
      else versions db2 = versions ?db"
    using applyOne_answer [OF tx] by (auto simp: extended_def split: if_splits)
  ultimately have "accounted (versions db) (if wrote then mg_Version m # as else as)
      ((versions ?db - versions db) \<union> added_by_others run env (Suc n) rest db2) (versions db')"
    by (rule accounted_step [OF as(2)])
  with as(1) tx show ?case by (cases wrote) auto
qed

lemma migrate_accounted:
  assumes "migrations_ok ms" "migrated run ms s0 k db" "others_migrate run ms s0 env"
    and "applyMigrations run env ms False db = ((res, None), db')"
  shows "accounted (versions db) (mr_Applied res) (committed_by_others run env ms db) (versions db')"
proof -
  obtain applied where read: "ledgerVersions (me_read env) db = Inr applied"
    using assms(4) by (auto simp: applyMigrations_def split: sum.splits)
  obtain res0 pending where plan: "migration_plan applied ms = (res0, pending)" by fastforce
  then have start: "mr_Applied res0 = []" by (auto simp: migration_plan_def Let_def)
  from plan plan_pending [OF assms(1,2) read, of "length ms"]
  obtain j where j: "j \<le> k" "pending = drop j ms" by auto
  have "apply_pending run env 0 pending res0 db = ((res, None), db')"
    using assms(4) read plan by (simp add: applyMigrations_def)
  from apply_pending_accounted [OF assms(1,3,2) j this] start read plan show ?thesis
    by (simp add: committed_by_others_def)
qed

text \<open>A call with no failure and nobody else about.\<close>

definition alone :: "'s mig_env \<Rightarrow> bool" where
  "alone env \<longleftrightarrow> me_read env = None \<and> (\<forall>n db. me_others env n db = db)
     \<and> (\<forall>n. me_tx env n = \<lparr>ti_begin = None, ti_lock = None, ti_ddl = None, ti_probe = None, ti_run = None,
                ti_insert = None, ti_commit = Commits\<rparr>)"

lemma ledger_rows_Some [simp]: "ledger_rows \<lparr>md_ledger = Some rows, md_schema = s\<rparr> = rows"
  by (simp add: ledger_rows_def)

lemma versions_recorded:
  "versions (if new = [] then db else \<lparr>md_ledger = Some (ledger_rows db @ map ledger_row new), md_schema = s\<rparr>)
   = versions db \<union> set (map mg_Version new)"
  by (simp add: ledger_row_def image_Un image_image)

lemma errors_is_noRows [simp]: "errors_is noRows noRows"
  by (simp add: noRows_def)

lemma applyOne_alone:
  assumes "alone env" "mg_Version m \<notin> versions db"
  shows "applyOneMigration run (me_tx env n) m db =
    (case run (mg_SQL m) (md_schema db) of
       Inl e \<Rightarrow> (Inl (migrationError m e), db)
     | Inr s \<Rightarrow> (Inr True, \<lparr>md_ledger = Some (ledger_rows db @ [ledger_row m]), md_schema = s\<rparr>))"
  using assms
  by (simp add: alone_def applyOneMigration_def Let_def sql_already_applied_def sql_run_def sql_insert_ledger_def
      sql_commit_def ledger_row_def sql_ledger_ddl_def ledger_rows_def split: sum.split)

lemma apply_pending_alone:
  assumes "alone env" "distinct (map mg_Version (as @ bs))" "set (map mg_Version (as @ bs)) \<inter> versions db = {}"
    and "run_all run as (md_schema db) = Inr s"
    and "bs \<noteq> [] \<Longrightarrow> run (mg_SQL (hd bs)) s = Inl e"
  shows "apply_pending run env n (as @ bs) res db =
    ((res\<lparr>mr_Applied := mr_Applied res @ map mg_Version as\<rparr>,
      if bs = [] then None else Some (migrationError (hd bs) e)),
     if as = [] then db else \<lparr>md_ledger = Some (ledger_rows db @ map ledger_row as), md_schema = s\<rparr>)"
  using assms(2-)
proof (induction as arbitrary: n res db)
  case Nil
  have same: "me_others env n db = db" for n db using assms(1) by (simp add: alone_def)
  show ?case
  proof (cases bs)
    case (Cons m rest)
    with Nil applyOne_alone [OF assms(1), of m db run n] show ?thesis by (simp add: same)
  qed simp
next
  case (Cons m as)
  have same: "me_others env n db = db" for n db using assms(1) by (simp add: alone_def)
  from Cons.prems(3) obtain t where t: "run (mg_SQL m) (md_schema db) = Inr t" "run_all run as t = Inr s"
    by (auto split: sum.splits)
  let ?db = "\<lparr>md_ledger = Some (ledger_rows db @ [ledger_row m]), md_schema = t\<rparr>"
  have rows: "ledger_rows ?db = ledger_rows db @ [ledger_row m]" by (simp add: ledger_rows_def)
  have vs: "versions ?db = insert (mg_Version m) (versions db)" unfolding rows by (simp add: ledger_row_def)
  have "set (map mg_Version (as @ bs)) \<inter> versions ?db = {}" unfolding vs using Cons.prems(1,2) by auto
  with Cons.IH [of ?db "Suc n" "res\<lparr>mr_Applied := mr_Applied res @ [mg_Version m]\<rparr>"] Cons.prems t
    applyOne_alone [OF assms(1), of m db run n]
  show ?case by (auto simp: same rows)
qed

lemma plan_alone:
  assumes "migrations_ok ms" "ledger_ok db" "alone env"
  shows "applyMigrations run env ms dry db =
    (let pending = filter (\<lambda>m. mg_Version m \<notin> versions db) ms;
         res = \<lparr>mr_Applied = [], mr_Pending = (if dry then map mg_Version pending else []),
                mr_Unknown = sorted_list_of_set (versions db - set (map mg_Version ms)),
                mr_Already = int (length (filter (\<lambda>m. mg_Version m \<in> versions db) ms))\<rparr>
     in if dry then ((res, None), db) else apply_pending run env 0 pending res db)"
  using assms ledgerVersions_read [OF assms(2)]
  by (simp add: applyMigrations_def alone_def migration_plan_def Let_def sorted_migrations)

section \<open>Properties\<close>

text \<open>
  C2: Whatever the migrators do at once, and wherever they fail or die, the database is at every moment
  some prefix of the migrations: each recorded migration ran exactly once, in version order, and the
  ledger lists exactly those that ran. The prefix never shrinks.
\<close>

theorem schema_is_prefix:
  assumes "migrations_ok ms" "migrated run ms s0 k db" "\<And>i. procs i = Idle"
    and "(fleet_step run ms known)\<^sup>*\<^sup>* (db, procs) (db', procs')"
  shows "\<exists>k' \<ge> k. migrated run ms s0 k' db'"
proof -
  have "fleet_inv run ms known s0 k (db, procs)" using assms(2,3) by (simp add: fleet_inv_def)
  from fleet_run_inv [OF assms(4,1) this] show ?thesis by (auto simp: fleet_inv_def)
qed

text \<open>
  C15: A call that returns without an error leaves every migration applied, also when other migrators
  commit some of them while it waits for the lock, and it reports exactly its own share: each version of
  the new ledger was there before, or is reported once, or was committed by another migrator during the
  call, and only one of the three. A call that fails leaves a prefix, and what it reports is new.
\<close>

theorem migrate_completes:
  assumes "migrations_ok ms" "migrated run ms s0 k db" "others_migrate run ms s0 env"
    and "applyMigrations run env ms False db = ((res, err), db')"
  shows "\<exists>k' \<ge> k. migrated run ms s0 k' db' \<and> (err = None \<longrightarrow> k' = length ms)
    \<and> set (mr_Applied res) \<subseteq> versions db' - versions db
    \<and> (err = None \<longrightarrow> distinct (mr_Applied res)
         \<and> versions db' = versions db \<union> set (mr_Applied res) \<union> committed_by_others run env ms db
         \<and> committed_by_others run env ms db \<inter> (versions db \<union> set (mr_Applied res)) = {})"
proof -
  from migrate_prefix [OF assms] obtain k' where k': "k \<le> k'" "migrated run ms s0 k' db'"
    "err = None \<longrightarrow> k' = length ms" "set (mr_Applied res) \<subseteq> versions db' - versions db" by blast
  let ?old = "versions db" and ?mine = "set (mr_Applied res)" and ?theirs = "committed_by_others run env ms db"
  have "distinct (mr_Applied res) \<and> versions db' = ?old \<union> ?mine \<union> ?theirs \<and> ?theirs \<inter> (?old \<union> ?mine) = {}" if "err = None"
  proof -
    have "accounted ?old (mr_Applied res) ?theirs (versions db')" using migrate_accounted [OF assms(1-3)] assms(4) that by simp
    then have "distinct (mr_Applied res)" "versions db' = ?old \<union> ?mine \<union> ?theirs" "?old \<inter> ?theirs = {}" "?mine \<inter> ?theirs = {}"
      by (simp_all only: accounted_def)
    then show ?thesis by (simp add: Int_Un_distrib Int_commute)
  qed
  with k' show ?thesis by (intro exI [of _ k'] conjI impI) simp_all
qed

text \<open>
  C16: What a call does when nothing interferes: it runs the pending migrations in order up to the first
  that PostgreSQL refuses. Those before it stay applied and recorded, the refused one leaves neither its
  changes nor its ledger row, and the error names it.
\<close>

theorem migrate_stops_at_failure:
  assumes "migrations_ok ms" "migrated run ms s0 k db" "alone env" "drop k ms = as @ m # bs"
    and "run_all run as (md_schema db) = Inr s" "run (mg_SQL m) s = Inl e"
  shows "applyMigrations run env ms False db =
    ((\<lparr>mr_Applied = map mg_Version as, mr_Pending = [], mr_Unknown = [], mr_Already = int k\<rparr>,
      Some (migrationError m e)),
     if as = [] then db else \<lparr>md_ledger = Some (ledger_rows db @ map ledger_row as), md_schema = s\<rparr>)"
proof -
  have vs: "versions db = set (map mg_Version (take k ms))" by (rule migrated_versions [OF assms(2)])
  have pend: "filter (\<lambda>m. mg_Version m \<notin> versions db) ms = as @ m # bs"
    using filter_not_taken [OF assms(1), of k "length ms"] assms(4) by (simp add: vs)
  have fresh: "set (map mg_Version (as @ m # bs)) \<inter> versions db = {}"
    unfolding pend [symmetric] by auto
  have d: "distinct (map mg_Version (as @ m # bs))"
    using assms(1) unfolding assms(4) [symmetric] by (simp add: migrations_ok_def drop_map [symmetric])
  have "length (filter (\<lambda>m. mg_Version m \<in> versions db) ms) + length (drop k ms) = length ms"
    using sum_length_filter_compl [of "\<lambda>m. mg_Version m \<in> versions db" ms] pend assms(4) by simp
  moreover have "k \<le> length ms" using assms(2) by (simp add: migrated_def)
  ultimately have "int (length (filter (\<lambda>m. mg_Version m \<in> versions db) ms)) = int k"
    unfolding length_drop by linarith
  moreover have "versions db - set (map mg_Version ms) = {}" using vs by (auto dest: in_set_takeD)
  ultimately show ?thesis
    using plan_alone [OF assms(1) migrated_ok [OF assms(1,2)] assms(3), of run False]
      apply_pending_alone [OF assms(3) d fresh assms(5), of e 0] assms(6) pend
    by (simp add: Let_def)
qed

text \<open>
  C17: A dry run writes nothing and predicts the real run: it reports exactly the versions that a real run
  applies when it succeeds and nobody else migrates meanwhile. A second run then has nothing to do.
\<close>

theorem dry_run_predicts:
  assumes "migrations_ok ms" "ledger_ok db" "alone env"
    and "applyMigrations run env ms False db = ((res, None), db')"
  shows "\<exists>report again. applyMigrations run env ms True db = ((report, None), db)
    \<and> mr_Pending report = mr_Applied res
    \<and> applyMigrations run env ms False db' = ((again, None), db')
    \<and> mr_Applied again = [] \<and> mr_Already again = int (length ms)"
proof -
  let ?pending = "filter (\<lambda>m. mg_Version m \<notin> versions db) ms"
  note call = plan_alone [OF assms(1) _ assms(3)]
  have d: "distinct (map mg_Version ?pending)" using assms(1) by (simp add: migrations_ok_def distinct_map_filter_fst)
  have fresh: "set (map mg_Version ?pending) \<inter> versions db = {}" by auto
  have real: "apply_pending run env 0 ?pending
      \<lparr>mr_Applied = [], mr_Pending = [], mr_Unknown = sorted_list_of_set (versions db - set (map mg_Version ms)),
       mr_Already = int (length (filter (\<lambda>m. mg_Version m \<in> versions db) ms))\<rparr> db = ((res, None), db')"
    using assms(4) call [OF assms(2), of run False] by (simp add: Let_def)
  obtain s where ran: "run_all run ?pending (md_schema db) = Inr s"
    using run_all_cases [of run ?pending "md_schema db"]
  proof (elim disjE exE conjE)
    fix as m bs t e
    assume split: "?pending = as @ m # bs" "run_all run as (md_schema db) = Inr t" "run (mg_SQL m) t = Inl e"
    from apply_pending_alone [OF assms(3) d [unfolded split(1)] fresh [unfolded split(1)] split(2), of e] split(3)
      real show ?thesis unfolding split(1) by simp
  qed blast
  from apply_pending_alone [OF assms(3), of ?pending "[]" db run s undefined] d fresh ran real
  have applied: "mr_Applied res = map mg_Version ?pending"
    and db': "db' = (if ?pending = [] then db
                else \<lparr>md_ledger = Some (ledger_rows db @ map ledger_row ?pending), md_schema = s\<rparr>)" by auto
  have vs: "versions db' = versions db \<union> set (map mg_Version ?pending)"
    unfolding db' by (rule versions_recorded)
  have ok': "ledger_ok db'" using assms(1,2) by (auto simp: ledger_ok_def vs migrations_ok_def)
  have all: "\<forall>m \<in> set ms. mg_Version m \<in> versions db'" unfolding vs by auto
  then have "filter (\<lambda>m. mg_Version m \<notin> versions db') ms = []" "filter (\<lambda>m. mg_Version m \<in> versions db') ms = ms"
    by (simp_all add: filter_empty_conv)
  with call [OF ok', of run False] call [OF assms(2), of run True] applied show ?thesis by (simp add: Let_def)
qed

section \<open>A demonstration\<close>

text \<open>
  The two migrations of the repository by name, over a schema that lists the statements it ran and
  refuses one of them.
\<close>

definition demo_files :: "dir_entry list" where
  "demo_files =
     [\<lparr>de_Name = ''0002_workers.sql'', de_IsDir = False, de_content = Inr ''workers''\<rparr>,
      \<lparr>de_Name = ''0001_snapshots.sql'', de_IsDir = False, de_content = Inr ''snapshots''\<rparr>]"

definition demo_migrations :: "migration list" where
  "demo_migrations =
     [\<lparr>mg_Version = ''0001'', mg_Name = ''snapshots'', mg_SQL = ''snapshots''\<rparr>,
      \<lparr>mg_Version = ''0002'', mg_Name = ''workers'', mg_SQL = ''workers''\<rparr>]"

definition demo_run :: "string \<Rightarrow> string list runner" where
  "demo_run refused sql s = (if sql = refused then Inl (Err ''refused'') else Inr (s @ [sql]))"

definition fresh_schema :: "string list mig_db" where
  "fresh_schema = \<lparr>md_ledger = None, md_schema = []\<rparr>"

definition first_db :: "string list mig_db" where
  "first_db = \<lparr>md_ledger = Some [(''0001'', ''snapshots'')], md_schema = [''snapshots'']\<rparr>"

definition calm_tx :: tx_in where
  "calm_tx = \<lparr>ti_begin = None, ti_lock = None, ti_ddl = None, ti_probe = None, ti_run = None,
     ti_insert = None, ti_commit = Commits\<rparr>"

definition calm_mig :: "string list mig_env" where
  "calm_mig = \<lparr>me_read = None, me_tx = (\<lambda>n. calm_tx), me_others = (\<lambda>n db. db)\<rparr>"

lemma demo_migrations_read: "allMigrations (Inr demo_files) = Inr demo_migrations"
proof -
  have "parseMigrationName ''0001_snapshots.sql'' = Inr (''0001'', ''snapshots'')"
    "parseMigrationName ''0002_workers.sql'' = Inr (''0002'', ''workers'')"
    by (simp_all add: migration_name_read digitsOnly_def digit_char_def)
  then show ?thesis
    by (simp add: allMigrations_def demo_files_def demo_migrations_def trim_graphic graphic_def)
qed

lemma demo_ok: "migrations_ok demo_migrations"
  by (simp add: migrations_ok_def demo_migrations_def version_ok_def digitsOnly_def digit_char_def)

lemma demo_start: "migrated (demo_run refused) demo_migrations [] 0 fresh_schema"
  by (simp add: migrated_def fresh_schema_def ledger_rows_def)

lemma calm_alone: "alone calm_mig"
  by (simp add: alone_def calm_mig_def calm_tx_def)

text \<open>Two migrators read the empty ledger; one applies the first file, the other finds it applied.\<close>

lemma demo_race:
  "(fleet_step (demo_run []) demo_migrations (\<lambda>i. 2))\<^sup>*\<^sup>* (fresh_schema, \<lambda>i. Idle)
     (first_db, (\<lambda>i. Idle)(0 := Busy [demo_migrations ! 1], 1 := Busy [demo_migrations ! 1]))"
proof -
  let ?step = "fleet_step (demo_run []) demo_migrations (\<lambda>i. 2)"
  have read: "ledgerVersions None fresh_schema = Inr {}"
    by (simp add: ledgerVersions_def sql_ledger_versions_def fresh_schema_def isUndefinedTable_def)
  have plan: "snd (migration_plan {} (take 2 demo_migrations)) = [demo_migrations ! 0, demo_migrations ! 1]"
    using demo_ok by (simp add: migration_plan_def Let_def sorted_migrations migrations_ok_take) (simp add: demo_migrations_def)
  have tx0: "applyOneMigration (demo_run []) calm_tx (demo_migrations ! 0) fresh_schema = (Inr True, first_db)"
    by code_simp
  have tx1: "applyOneMigration (demo_run []) calm_tx (demo_migrations ! 0) first_db = (Inr False, first_db)"
    by code_simp
  let ?p0 = "(\<lambda>i. Idle)(0 := Busy [demo_migrations ! 0, demo_migrations ! 1])"
  have "?step (fresh_schema, \<lambda>i. Idle) (fresh_schema, ?p0)"
    using read_ok [where i = 0 and procs = "\<lambda>i. Idle" and known = "\<lambda>i. 2" and ms = demo_migrations, OF refl read]
    unfolding plan .
  moreover have "?step (fresh_schema, ?p0) (fresh_schema, ?p0(1 := Busy [demo_migrations ! 0, demo_migrations ! 1]))"
    using read_ok [where i = 1 and procs = ?p0 and known = "\<lambda>i. 2" and ms = demo_migrations, OF _ read]
    unfolding plan by simp
  moreover have "?step (fresh_schema, ?p0(1 := Busy [demo_migrations ! 0, demo_migrations ! 1]))
      (first_db, ?p0(1 := Busy [demo_migrations ! 0, demo_migrations ! 1], 0 := Busy [demo_migrations ! 1]))"
    by (rule tx_done [OF _ tx0]) simp
  moreover have "?step (first_db, ?p0(1 := Busy [demo_migrations ! 0, demo_migrations ! 1], 0 := Busy [demo_migrations ! 1]))
      (first_db, ?p0(1 := Busy [demo_migrations ! 0, demo_migrations ! 1], 0 := Busy [demo_migrations ! 1],
         1 := Busy [demo_migrations ! 1]))"
    by (rule tx_done [OF _ tx1]) simp
  ultimately show ?thesis by (auto simp: fun_upd_twist intro: converse_rtranclp_into_rtranclp)
qed

theorem schema_is_prefix_witness: "\<exists>k'. migrated (demo_run []) demo_migrations [] k' first_db"
  using schema_is_prefix [OF demo_ok demo_start _ demo_race] by auto

definition race_mig :: "string list mig_env" where
  "race_mig = calm_mig\<lparr>me_others := \<lambda>n db. if db = fresh_schema then first_db else db\<rparr>"

lemma race_others: "others_migrate (demo_run []) demo_migrations [] race_mig"
proof -
  have "migrated (demo_run []) demo_migrations [] 1 first_db"
    by (simp add: migrated_def first_db_def demo_migrations_def ledger_row_def demo_run_def)
  moreover have "k = 0" if "migrated (demo_run []) demo_migrations [] k fresh_schema" for k
    using that by (simp add: migrated_def fresh_schema_def ledger_rows_def demo_migrations_def)
  ultimately show ?thesis unfolding others_migrate_def race_mig_def by fastforce
qed

lemma race_call:
  "applyMigrations (demo_run []) race_mig demo_migrations False fresh_schema
   = ((\<lparr>mr_Applied = [''0002''], mr_Pending = [], mr_Unknown = [], mr_Already = 0\<rparr>, None),
      \<lparr>md_ledger = Some [(''0001'', ''snapshots''), (''0002'', ''workers'')], md_schema = [''snapshots'', ''workers'']\<rparr>)"
  by code_simp

theorem migrate_completes_witness:
  "\<exists>res db'. applyMigrations (demo_run []) race_mig demo_migrations False fresh_schema = ((res, None), db')
     \<and> mr_Applied res = [''0002''] \<and> migrated (demo_run []) demo_migrations [] 2 db'"
proof -
  have "length demo_migrations = 2" by (simp add: demo_migrations_def)
  with migrate_completes [OF demo_ok demo_start race_others race_call] race_call show ?thesis by auto
qed

theorem migrate_stops_at_failure_witness:
  "applyMigrations (demo_run ''workers'') calm_mig demo_migrations False fresh_schema =
     ((\<lparr>mr_Applied = [''0001''], mr_Pending = [], mr_Unknown = [], mr_Already = 0\<rparr>,
       Some (migrationError (demo_migrations ! 1) (Err ''refused''))), first_db)"
  using migrate_stops_at_failure [OF demo_ok demo_start calm_alone,
    of "[demo_migrations ! 0]" "demo_migrations ! 1" "[]" "''workers''" "[''snapshots'']" "Err ''refused''"]
  by (simp add: demo_migrations_def demo_run_def fresh_schema_def first_db_def ledger_rows_def ledger_row_def)

theorem dry_run_predicts_witness:
  "\<exists>report. applyMigrations (demo_run []) calm_mig demo_migrations True fresh_schema = ((report, None), fresh_schema)
     \<and> mr_Pending report = [''0001'', ''0002'']"
proof -
  have "applyMigrations (demo_run []) calm_mig demo_migrations False fresh_schema
      = ((\<lparr>mr_Applied = [''0001'', ''0002''], mr_Pending = [], mr_Unknown = [], mr_Already = 0\<rparr>, None),
         \<lparr>md_ledger = Some [(''0001'', ''snapshots''), (''0002'', ''workers'')], md_schema = [''snapshots'', ''workers'']\<rparr>)"
    by code_simp
  moreover have "ledger_ok fresh_schema" by (simp add: ledger_ok_def fresh_schema_def ledger_rows_def)
  ultimately show ?thesis using dry_run_predicts [OF demo_ok _ calm_alone] by fastforce
qed

end
