(* ===== verification/StoreStart.thy ===== *)
theory StoreStart imports PostgresStore MigrationFleet
begin

text \<open>
  The first use of a store (\<open>ensure\<close> in \<open>store_postgres.go\<close>) with the migration engine in place: the outcome
  that \<open>PostgresStore\<close> reads as an input is what \<open>applyMigrations\<close> answers on the database, and the probes
  are made on the schema it leaves. \<open>probes\<close> says how PostgreSQL answers a query on a schema.
\<close>

text \<open>Whether a call of \<open>ensure\<close> gets to the migrations.\<close>

definition migrates :: "pg_in \<Rightarrow> conn \<Rightarrow> bool" where
  "migrates i c \<longleftrightarrow> \<not> cn_ready c
     \<and> \<not> (cn_lastErr c \<noteq> None \<and> time_sub (in_clock i) (cn_lastAttempt c) < ensureRetryAfter) \<and> in_ping i = None"

definition ensure_schema :: "'s runner \<Rightarrow> 's mig_env \<Rightarrow> migration list \<Rightarrow> ('s \<Rightarrow> string \<Rightarrow> go_err option) \<Rightarrow> pg_in
    \<Rightarrow> conn \<times> 's mig_db \<Rightarrow> go_err option \<times> conn \<times> 's mig_db" where
  "ensure_schema run env ms probes i st =
     (case st of (c, db) \<Rightarrow>
        if migrates i c
        then (case applyMigrations run env ms False db of
                ((res, err), db) \<Rightarrow>
                  (case ensure (i\<lparr>in_migrate := err, in_probes := probes (md_schema db)\<rparr>) c of
                     (e, _, c) \<Rightarrow> (e, c, db)))
        else (case ensure i c of (e, _, c) \<Rightarrow> (e, c, db)))"

text \<open>The calls of one store, each with what the other migrators do meanwhile; the answers in order.\<close>

fun first_uses :: "'s runner \<Rightarrow> migration list \<Rightarrow> ('s \<Rightarrow> string \<Rightarrow> go_err option) \<Rightarrow> ('s mig_env \<times> pg_in) list
    \<Rightarrow> conn \<times> 's mig_db \<Rightarrow> go_err option list \<times> conn \<times> 's mig_db" where
  "first_uses run ms probes [] st = ([], st)"
| "first_uses run ms probes ((env, i) # calls) st =
     (case ensure_schema run env ms probes i st of
        (e, st) \<Rightarrow> (case first_uses run ms probes calls st of (es, st) \<Rightarrow> (e # es, st)))"

section \<open>Lemmas\<close>

lemma ensure_not_migrating:
  assumes "\<not> migrates i c" "ensure i c = (e, pinged, c')"
  shows "cn_ready c' = cn_ready c" "e = None \<longleftrightarrow> cn_ready c"
  using assms by (auto simp: migrates_def ensure_def Let_def eq_commute split: if_splits option.splits)

lemma ensure_migrating:
  assumes "migrates i c" "ensure (i\<lparr>in_migrate := err, in_probes := ps\<rparr>) c = (e, pinged, c')"
  shows "cn_ready c' \<longleftrightarrow> err = None \<or> probeSchema ps = None" "e = None \<longleftrightarrow> cn_ready c'"
    "e = None \<or> e = err"
  using assms by (auto simp: migrates_def ensure_def Let_def split: if_splits option.splits)

lemma ensure_schema_step:
  assumes "migrations_ok ms" "migrated run ms s0 k db" "others_migrate run ms s0 env"
    and "ensure_schema run env ms probes i (c, db) = (e, c', db')"
  shows "\<exists>k' \<ge> k. migrated run ms s0 k' db'
    \<and> (cn_ready c' \<longrightarrow> cn_ready c \<or> k' = length ms \<or> probeSchema (probes (md_schema db')) = None)
    \<and> (e = None \<longleftrightarrow> cn_ready c')"
proof (cases "migrates i c")
  case True
  obtain res err db1 where app: "applyMigrations run env ms False db = ((res, err), db1)" by (metis surj_pair)
  obtain pinged where en: "ensure (i\<lparr>in_migrate := err, in_probes := probes (md_schema db1)\<rparr>) c = (e, pinged, c')"
    and db1: "db1 = db'"
    using assms(4) True app by (auto simp: ensure_schema_def split: prod.splits)
  from migrate_prefix [OF assms(1-3) app] ensure_migrating [OF True en] db1 show ?thesis by blast
next
  case False
  then obtain pinged where en: "ensure i c = (e, pinged, c')" and "db' = db"
    using assms(4) by (auto simp: ensure_schema_def split: prod.splits)
  with assms(2) ensure_not_migrating [OF False en] show ?thesis by auto
qed

section \<open>Properties\<close>

text \<open>
  C14: A store that is ready has its schema: over any calls of a store, with outages, refused migrations and
  other migrators in between, the database stays a prefix of the migrations that only grows; a call answers
  without an error exactly when the store is ready after it; and when the last call made the store
  ready, then every migration is applied, or they failed and PostgreSQL answered the probe of the snapshots
  table and the probe of the workers table, each naming the columns of its migration. (The queue's table
  \<open>forecast.retrain\<close> is the plugin's; its presence is neither ensured nor probed.)
\<close>

theorem ready_store_has_schema:
  assumes "migrations_ok ms" "migrated run ms s0 k db" "\<forall>(env, i) \<in> set (calls @ [(env', i')]). others_migrate run ms s0 env"
    and "first_uses run ms probes calls (c, db) = (es, c1, db1)" "\<not> cn_ready c1"
    and "ensure_schema run env' ms probes i' (c1, db1) = (e, c2, db2)"
  shows "\<exists>k1 k2. k \<le> k1 \<and> k1 \<le> k2 \<and> migrated run ms s0 k1 db1 \<and> migrated run ms s0 k2 db2
    \<and> (e = None \<longleftrightarrow> cn_ready c2)
    \<and> (e = None \<longrightarrow> k2 = length ms
        \<or> probes (md_schema db2) ''SELECT id, metric_hash FROM baselines.snapshots LIMIT 1'' = None
          \<and> probes (md_schema db2) ''SELECT id, worker_id FROM baselines.workers LIMIT 1'' = None)"
proof -
  have "\<exists>k1 \<ge> k. migrated run ms s0 k1 db1" using assms(2,3,4)
  proof (induction calls arbitrary: k c db es)
    case (Cons call calls)
    obtain env i where call: "call = (env, i)" by fastforce
    obtain e0 c0 db0 where step: "ensure_schema run env ms probes i (c, db) = (e0, c0, db0)" by (rule prod_cases3)
    obtain es' where rest: "first_uses run ms probes calls (c0, db0) = (es', c1, db1)"
      using Cons.prems(3) call step by (auto split: prod.splits)
    from Cons.prems(2) call have "others_migrate run ms s0 env" by auto
    from ensure_schema_step [OF assms(1) Cons.prems(1) this step] obtain k0 where "k \<le> k0" "migrated run ms s0 k0 db0" by blast
    with Cons.IH [OF _ _ rest] Cons.prems(2) obtain k1 where "k0 \<le> k1" "migrated run ms s0 k1 db1" by auto
    with \<open>k \<le> k0\<close> show ?case by (meson order_trans)
  qed auto
  then obtain k1 where k1: "k \<le> k1" "migrated run ms s0 k1 db1" by blast
  have "others_migrate run ms s0 env'" using assms(3) by auto
  from ensure_schema_step [OF assms(1) k1(2) this assms(6)] assms(5) obtain k2 where
    "k1 \<le> k2" "migrated run ms s0 k2 db2" "e = None \<longleftrightarrow> cn_ready c2"
    "cn_ready c2 \<longrightarrow> k2 = length ms \<or> probeSchema (probes (md_schema db2)) = None" by blast
  with k1 show ?thesis unfolding probeSchema_None by blast
qed

text \<open>The database is down at the first call; at the second one the schema is migrated.\<close>

lemma calm_migrated:
  "applyMigrations (demo_run []) calm_mig demo_migrations False fresh_schema
    = ((\<lparr>mr_Applied = [''0001'', ''0002''], mr_Pending = [], mr_Unknown = [], mr_Already = 0\<rparr>, None),
       \<lparr>md_ledger = Some [(''0001'', ''snapshots''), (''0002'', ''workers'')], md_schema = [''snapshots'', ''workers'']\<rparr>)"
  by (simp add: applyMigrations_def ledgerVersions_def sql_ledger_versions_def isUndefinedTable_def errors_is_noRows
      fresh_schema_def calm_mig_def calm_tx_def demo_migrations_def demo_run_def migration_plan_def applyOneMigration_def
      sql_ledger_ddl_def sql_already_applied_def sql_run_def sql_insert_ledger_def sql_commit_def ledger_rows_def Let_def noRows_def)

theorem ready_store_has_schema_witness:
  "\<exists>db2. ensure_schema (demo_run []) calm_mig demo_migrations (\<lambda>s q. Some (Err ''absent'')) (calm_in (6 * second))
       (fst (snd (first_uses (demo_run []) demo_migrations (\<lambda>s q. Some (Err ''absent''))
          [(calm_mig, (calm_in 0)\<lparr>in_ping := Some (Err ''refused'')\<rparr>)] (st_conn (openPostgresStore sample_db), fresh_schema))),
        fresh_schema) = (None, \<lparr>cn_ready = True, cn_lastErr = None, cn_lastAttempt = 6 * second\<rparr>, db2)
     \<and> migrated (demo_run []) demo_migrations [] 2 db2"
proof -
  let ?probes = "\<lambda>(s :: string list) (q :: string). Some (Err ''absent'')"
  let ?down = "(calm_in 0)\<lparr>in_ping := Some (Err ''refused'')\<rparr>"
  let ?c1 = "\<lparr>cn_ready = False, cn_lastErr = Some (Wrap ''baseline store'' (Err ''refused'')), cn_lastAttempt = 0\<rparr>"
  have first: "first_uses (demo_run []) demo_migrations ?probes [(calm_mig, ?down)]
      (st_conn (openPostgresStore sample_db), fresh_schema)
      = ([Some (Wrap ''baseline store'' (Err ''refused''))], ?c1, fresh_schema)"
    by (simp add: ensure_schema_def migrates_def ensure_def openPostgresStore_def calm_in_def Let_def)
  obtain db2 where second: "ensure_schema (demo_run []) calm_mig demo_migrations ?probes (calm_in (6 * second)) (?c1, fresh_schema)
      = (None, \<lparr>cn_ready = True, cn_lastErr = None, cn_lastAttempt = 6 * second\<rparr>, db2)"
    by (simp add: ensure_schema_def migrates_def calm_in_def ensure_def ensureRetryAfter_def unit_defs time_sub_def
        min64_def max64_def calm_migrated)
  have calm: "\<forall>(env, i) \<in> set ([(calm_mig, ?down)] @ [(calm_mig, calm_in (6 * second))]).
      others_migrate (demo_run []) demo_migrations [] env"
    by (auto simp: others_migrate_def calm_mig_def)
  have "length demo_migrations = 2" by (simp add: demo_migrations_def)
  with ready_store_has_schema [OF demo_ok demo_start calm first _ second] first second show ?thesis by auto
qed

end
