(* ===== verification/MigrateCmd.thy ===== *)
theory MigrateCmd imports MigrationFleet GoDuration StoreUrl
begin

text \<open>
  The command \<open>baselines-migrate\<close> (\<open>migrate_cmd.go\<close>): its flags as package \<open>flag\<close> parses them, the
  DSN it resolves, the one call of \<open>applyMigrations\<close>, and what it prints. \<open>open_pool\<close> is
  \<open>pgxpool.New\<close>, which fails on a DSN it cannot parse. The timeout is the deadline of the database calls:
  past it they fail, which is an input of the call. The usage text that package \<open>flag\<close> prints itself is
  left out.
\<close>

section \<open>Flags\<close>

record flags =
  fl_dsn :: string
  fl_dryRun :: bool
  fl_timeout :: duration

definition default_flags :: flags where
  "default_flags = \<lparr>fl_dsn = [], fl_dryRun = False, fl_timeout = 60 * second\<rparr>"

datatype flag_word = NotFlag | Terminator | BadSyntax | Flag string "string option"

text \<open>A word that starts with one or two minus signs is a flag, with a value after the first equals sign.\<close>

definition flag_word_of :: "string \<Rightarrow> flag_word" where
  "flag_word_of s =
     (if length s < 2 \<or> hd s \<noteq> CHR ''-'' then NotFlag
      else if s = ''--'' then Terminator
      else let name = (if s ! 1 = CHR ''-'' then drop 2 s else drop 1 s) in
        if hd name = CHR ''-'' \<or> hd name = CHR ''='' then BadSyntax
        else case dropWhile (\<lambda>c. c \<noteq> CHR ''='') name of
               [] \<Rightarrow> Flag name None
             | _ # v \<Rightarrow> Flag (takeWhile (\<lambda>c. c \<noteq> CHR ''='') name) (Some v))"

definition parse_bool :: "string \<Rightarrow> bool option" where
  "parse_bool s =
     (if s \<in> {''1'', ''t'', ''T'', ''true'', ''TRUE'', ''True''} then Some True
      else if s \<in> {''0'', ''f'', ''F'', ''false'', ''FALSE'', ''False''} then Some False
      else None)"

text \<open>The two flags that need a value.\<close>

definition set_flag :: "string \<Rightarrow> string \<Rightarrow> flags \<Rightarrow> flags option" where
  "set_flag name v fl =
     (if name = ''dsn'' then Some (fl\<lparr>fl_dsn := v\<rparr>)
      else map_option (\<lambda>d. fl\<lparr>fl_timeout := d\<rparr>) (ParseDuration v))"

datatype flag_result = Parsed flags | HelpAsked | BadFlag

fun parse_flags :: "string list \<Rightarrow> flags \<Rightarrow> flag_result" where
  "parse_flags [] fl = Parsed fl"
| "parse_flags (s # args) fl =
     (case flag_word_of s of
        NotFlag \<Rightarrow> Parsed fl
      | Terminator \<Rightarrow> Parsed fl
      | BadSyntax \<Rightarrow> BadFlag
      | Flag name val \<Rightarrow>
          if name = ''dry-run''
          then (case (case val of None \<Rightarrow> Some True | Some v \<Rightarrow> parse_bool v) of
                  None \<Rightarrow> BadFlag
                | Some b \<Rightarrow> parse_flags args (fl\<lparr>fl_dryRun := b\<rparr>))
          else if name = ''dsn'' \<or> name = ''timeout''
          then (case val of
                  Some v \<Rightarrow> (case set_flag name v fl of None \<Rightarrow> BadFlag | Some fl \<Rightarrow> parse_flags args fl)
                | None \<Rightarrow>
                    (case args of
                       [] \<Rightarrow> BadFlag
                     | v # rest \<Rightarrow>
                         (case set_flag name v fl of None \<Rightarrow> BadFlag | Some fl \<Rightarrow> parse_flags rest fl)))
          else if name = ''help'' \<or> name = ''h'' then HelpAsked
          else BadFlag)"

section \<open>The command\<close>

record cmd_result =
  cr_code :: int
  cr_stdout :: "string list"
  cr_stderr :: "string list"

definition exits :: "int \<Rightarrow> string list \<Rightarrow> string list \<Rightarrow> cmd_result" where
  "exits code out err = \<lparr>cr_code = code, cr_stdout = out, cr_stderr = err\<rparr>"

text \<open>The map from a version to its file name; a version that is missing reads as the empty string.\<close>

definition file_name :: "migration list \<Rightarrow> string \<Rightarrow> string" where
  "file_name ms v =
     (case map_of (rev (map (\<lambda>m. (mg_Version m, mg_Version m @ ''_'' @ mg_Name m)) ms)) v of
        None \<Rightarrow> [] | Some n \<Rightarrow> n)"

definition unknown_warning :: "string list \<Rightarrow> string list" where
  "unknown_warning unknown =
     (if unknown = [] then []
      else [''warning: baselines.schema_migrations has versions this binary does not embed: ''
            @ join_with '' '' unknown @ '' (applied by a newer deployment)''])"

definition report_lines :: "migration list \<Rightarrow> migrationResult \<Rightarrow> string list" where
  "report_lines ms res =
     (if mr_Applied res \<noteq> [] then map (\<lambda>v. ''applied '' @ file_name ms v) (mr_Applied res)
      else if mr_Pending res \<noteq> [] then map (\<lambda>v. ''pending '' @ file_name ms v) (mr_Pending res)
      else [''nothing to apply ('' @ format_int (int (length ms)) @ '' known, ''
            @ format_int (mr_Already res) @ '' applied)''])"

definition no_dsn :: string where
  "no_dsn = ''baselines-migrate: no store DSN: pass --dsn or set BASELINE_STORE_URL / BASELINE_STORE_HOST''"

definition MigrateMain :: "'s runner \<Rightarrow> 's mig_env \<Rightarrow> (string \<Rightarrow> go_err option) \<Rightarrow> migration list \<Rightarrow> string list
    \<Rightarrow> (string \<Rightarrow> string) \<Rightarrow> 's mig_db \<Rightarrow> cmd_result \<times> 's mig_db" where
  "MigrateMain run env open_pool ms args get db =
     (case parse_flags args default_flags of
        HelpAsked \<Rightarrow> (exits 0 [] [], db)
      | BadFlag \<Rightarrow> (exits 1 [] [], db)
      | Parsed fl \<Rightarrow>
          (let resolved = trim_space (fl_dsn fl);
               resolved = (if resolved = [] then storeDSN get else resolved)
           in if resolved = [] then (exits 1 [] [no_dsn], db)
              else case open_pool resolved of
                     Some e \<Rightarrow> (exits 1 [] [''baselines-migrate: '' @ err_text e], db)
                   | None \<Rightarrow>
                       (case applyMigrations run env ms (fl_dryRun fl) db of
                          ((res, Some e), db) \<Rightarrow> (exits 1 [] [''baselines-migrate: '' @ err_text e], db)
                        | ((res, None), db) \<Rightarrow>
                            (exits 0 (report_lines ms res) (unknown_warning (mr_Unknown res)), db))))"

section \<open>Lemmas\<close>

lemma exits_fields [simp]: "cr_code (exits c out err) = c" "cr_stdout (exits c out err) = out"
  by (simp_all add: exits_def)

text \<open>The command either calls \<open>applyMigrations\<close> once or leaves the database alone and exits with 1.\<close>

lemma MigrateMain_cases:
  assumes "parse_flags args default_flags = Parsed fl"
    and "applyMigrations run env ms (fl_dryRun fl) db = ((res, e), db')"
  shows "(\<exists>err. MigrateMain run env open_pool ms args get db = (exits 1 [] err, db))
    \<or> MigrateMain run env open_pool ms args get db =
         (case e of None \<Rightarrow> exits 0 (report_lines ms res) (unknown_warning (mr_Unknown res))
          | Some e \<Rightarrow> exits 1 [] [''baselines-migrate: '' @ err_text e], db')"
proof -
  define dsn where "dsn = (if trim_space (fl_dsn fl) = [] then storeDSN get else trim_space (fl_dsn fl))"
  have main: "MigrateMain run env open_pool ms args get db =
      (if dsn = [] then (exits 1 [] [no_dsn], db)
       else case open_pool dsn of
              Some e \<Rightarrow> (exits 1 [] [''baselines-migrate: '' @ err_text e], db)
            | None \<Rightarrow>
                (case e of None \<Rightarrow> exits 0 (report_lines ms res) (unknown_warning (mr_Unknown res))
                 | Some e \<Rightarrow> exits 1 [] [''baselines-migrate: '' @ err_text e], db'))"
    using assms by (simp add: MigrateMain_def dsn_def [symmetric] Let_def split: option.split)
  show ?thesis
  proof (cases "dsn = [] \<or> open_pool dsn \<noteq> None")
    case True
    then show ?thesis unfolding main by auto
  next
    case False
    then show ?thesis unfolding main by simp
  qed
qed

section \<open>Properties\<close>

text \<open>
  C26: The exit code of the command: it is 0 or 1, and 1 never comes with a report. It is 0 only when help was
  asked for, or for a dry run, both of which leave the database alone (a dry run answers 0 also when
  migrations are pending), or when the call that was to migrate has left every migration applied, whatever
  other migrators do meanwhile. A flag that cannot be read gives 1 and touches nothing, and the database is
  a prefix of the migrations in every case.
\<close>

theorem migrate_exit_code:
  assumes "migrations_ok ms" "migrated run ms s0 k db" "others_migrate run ms s0 env"
    and "MigrateMain run env open_pool ms args get db = (r, db')"
  shows "\<exists>k' \<ge> k. migrated run ms s0 k' db'
    \<and> (cr_code r = 0 \<or> cr_code r = 1 \<and> cr_stdout r = [])
    \<and> (case parse_flags args default_flags of
         HelpAsked \<Rightarrow> cr_code r = 0 \<and> db' = db
       | BadFlag \<Rightarrow> cr_code r = 1 \<and> db' = db
       | Parsed fl \<Rightarrow> if fl_dryRun fl then db' = db else cr_code r = 1 \<or> k' = length ms)"
proof (cases "parse_flags args default_flags")
  case (Parsed fl)
  show ?thesis
  proof (cases "fl_dryRun fl")
    case True
    obtain res e db2 where call: "applyMigrations run env ms (fl_dryRun fl) db = ((res, e), db2)" by (metis surj_pair)
    then have "db2 = db" using True by (auto simp: applyMigrations_def split: sum.splits prod.splits)
    with MigrateMain_cases [OF Parsed call, of open_pool get] assms(2,4) Parsed True show ?thesis
      by (intro exI [of _ k]) (cases e; auto)
  next
    case False
    obtain res e db2 where call: "applyMigrations run env ms False db = ((res, e), db2)" by (metis surj_pair)
    obtain k' where k': "k \<le> k'" "migrated run ms s0 k' db2" "e = None \<longrightarrow> k' = length ms"
      using migrate_prefix [OF assms(1-3) call] by blast
    from call False have "applyMigrations run env ms (fl_dryRun fl) db = ((res, e), db2)" by simp
    from MigrateMain_cases [OF Parsed this, of open_pool get] show ?thesis
    proof (elim disjE exE)
      fix err assume "MigrateMain run env open_pool ms args get db = (exits 1 [] err, db)"
      with assms(2,4) Parsed False show ?thesis by (intro exI [of _ k]) auto
    next
      assume "MigrateMain run env open_pool ms args get db =
        (case e of None \<Rightarrow> exits 0 (report_lines ms res) (unknown_warning (mr_Unknown res))
         | Some e \<Rightarrow> exits 1 [] [''baselines-migrate: '' @ err_text e], db2)"
      with k' assms(4) Parsed False show ?thesis by (intro exI [of _ k']) (cases e; auto)
    qed
  qed
qed (use assms(2,4) in \<open>auto simp: MigrateMain_def intro: exI [of _ k]\<close>)

lemma five_digit: "digits 5 = ''5''"
  by code_simp

text \<open>The command run while another migrator applies the first file; its flags in three spellings.\<close>

theorem migrate_exit_code_witness:
  "\<exists>r db'. MigrateMain (demo_run []) race_mig (\<lambda>dsn. None) demo_migrations
       [''--dsn'', ''db'', ''-dry-run=false'', ''--timeout=5s''] (\<lambda>n. []) fresh_schema = (r, db')
     \<and> cr_code r = 0 \<and> migrated (demo_run []) demo_migrations [] 2 db'"
proof -
  let ?args = "[''--dsn'', ''db'', ''-dry-run=false'', ''--timeout=5s'']"
  have five: "ParseDuration ''5s'' = Some (5 * second)"
    using ParseDuration_whole [of "''s''" 1000000000 5] five_digit by (simp add: unit_of_def bytes_def second_def)
  have fl: "parse_flags ?args default_flags = Parsed \<lparr>fl_dsn = ''db'', fl_dryRun = False, fl_timeout = 5 * second\<rparr>"
    by (simp add: flag_word_of_def parse_bool_def set_flag_def five default_flags_def)
  obtain r db' where run: "MigrateMain (demo_run []) race_mig (\<lambda>dsn. None) demo_migrations ?args (\<lambda>n. []) fresh_schema = (r, db')"
    by fastforce
  have "cr_code (fst (MigrateMain (demo_run []) race_mig (\<lambda>dsn. None) demo_migrations ?args (\<lambda>n. []) fresh_schema)) = 0"
    unfolding MigrateMain_def fl by (simp add: race_call trim_graphic graphic_def)
  then have "cr_code r = 0" unfolding run by simp
  moreover have "length demo_migrations = 2" by (simp add: demo_migrations_def)
  ultimately show ?thesis
    using migrate_exit_code [OF demo_ok demo_start race_others run] run fl by auto
qed

end
