(* ===== verification/Spec2Isabelle.thy ===== *)
theory Spec2Isabelle imports Shutdown Publication DruidScan QueueProgress StoreStart MigrateCmd
begin

text \<open>
  A verification development for timeseries-baselines, a worker that reads a Druid metrics table, fits a
  seasonal baseline to every ready metric hash and publishes one lead point per hash to Kafka. Workers share
  the table by rendezvous hashing of the hash; with a PostgreSQL store they share the models, the retrain
  queue and, if asked to, the set of peers as well. A second binary applies the schema migrations.

  How the parts interact. The start reads and validates the environment and wires the clients to a
  publisher. A tick of the loop asks for the peers, scans Druid (at most once per TTL), keeps the spans this
  worker owns and that are ready, and then, with a store: announces itself, retires what is no longer alive,
  sweeps old models, schedules its keys, claims due rows of the queue, refits them and finishes each claim;
  at the end it publishes from the cached models. Without a store it fits every owned hash on each
  tick. Shutdown gives back the claims that are still held and closes the clients.

  \<^bold>\<open>Which theory models what\<close>

  \<^item> \<open>Prelude\<close>: Go's 64-bit integers with wrap-around (\<open>i64\<close>), durations and instants in nanoseconds
  with \<open>Time.Sub\<close> saturating, the parts of packages \<open>strings\<close> and \<open>strconv\<close> that are used, errors as values,
  association-list rows.
  \<^item> \<open>Shard\<close>, \<open>HostIdentity\<close>: \<open>shard.go\<close>. The pair hash on 64-bit words, \<open>Owner\<close>, \<open>Owns\<close>,
  \<open>normalizePeers\<close>; \<open>ShardID\<close> over a description of the host's interfaces.
  \<^item> \<open>Membership\<close>: \<open>membership.go\<close>. A peer source with its last good set, and its lookups.
  \<^item> \<open>Config\<close>, \<open>Settings\<close>, \<open>GoDuration\<close>, \<open>StoreUrl\<close>: \<open>config.go\<close> (the struct, \<open>Validate\<close>, \<open>normalized\<close>,
  leases and back-off; reading the environment), \<open>time.ParseDuration\<close>, and \<open>storedsn.go\<close> with the
  percent-encoding of \<open>net/url\<close>.
  \<^item> \<open>Windows\<close>, \<open>GoTime\<close>, \<open>Druid\<close>, \<open>DruidClient\<close>, \<open>DruidScan\<close>: \<open>druid.go\<close>. Slicing, the queries, the
  retry loop, the reading of replies and times, \<open>Series\<close> and \<open>Hashes\<close>. \<open>DruidClient\<close> counts what one
  statement costs, \<open>DruidScan\<close> holds the abstract datasource and the refinement.
  \<^item> \<open>RequestLimits\<close>, \<open>DruidPace\<close>: \<open>limits.go\<close> and \<open>sleepCtx\<close>; the reader with its limits in place,
  in a world with a clock.
  \<^item> \<open>Kafka\<close>: \<open>kafka.go\<close>. The message, its record key, \<open>Publish\<close>; \<open>newKafkaSink\<close> is in \<open>Startup\<close>.
  \<^item> \<open>Spans\<close>, \<open>Schedule\<close>, \<open>Worker\<close>, \<open>Retrain\<close>, \<open>Emit\<close>, \<open>Tick\<close>: \<open>publisher.go\<close> and \<open>schedule.go\<close>. The
  publisher's state is the record \<open>publisher\<close>; each method takes the environment, the state and the world
  and returns both changed.
  \<^item> \<open>TrainPool\<close>, \<open>PoolTick\<close>, \<open>PoolRuns\<close>: the training pool of \<open>retrain\<close> with its goroutines interleaved, a step at
  a time, and the tick and the loop of \<open>Run\<close> on it. \<open>Tick\<close> trains one claim after the other, so that it
  can be computed; each of its runs is one of these (\<open>retrain_is_run\<close>, \<open>runTick_is_run\<close>, \<open>Run_is_run\<close>).
  \<^item> \<open>StoreModel\<close>, \<open>Leases\<close>, \<open>QueueProgress\<close>, \<open>PostgresStore\<close>, \<open>StoreFleet\<close>, \<open>StoreStart\<close>: \<open>store.go\<close> and
  \<open>store_postgres.go\<close>. The tables and every SQL statement on them; the queue as leases, and its progress;
  \<open>ensure\<close> and the methods of \<open>postgresStore\<close>; any number of stores on one database; \<open>ensure\<close> with the
  migrations it runs.
  \<^item> \<open>Migrations\<close>, \<open>MigrationFleet\<close>, \<open>MigrateCmd\<close>: \<open>migrations.go\<close>, the interleaving of migrators, and
  \<open>migrate_cmd.go\<close>.
  \<^item> \<open>EnvLaws\<close>, \<open>LeaseView\<close>, \<open>World\<close>, \<open>FleetWorld\<close>, \<open>Scenarios\<close>: laws of a tick proved once from the contracts
  of the calls it makes, and the concrete environment they are discharged for; the environment in which
  everybody else is a store of the fleet; concrete workers and feeds for the witnesses.
  \<^item> \<open>CalmStore\<close>, \<open>ClaimWork\<close>, \<open>Publication\<close>: a stretch of calls in which the store answers and nobody else
  touches one key; the row of a worked claim on it; the message each ready hash is owed, and \<open>emit\<close> against it.
  \<^item> \<open>Startup\<close>, \<open>Shutdown\<close>: \<open>cmd/baselines/main.go\<close>, \<open>NewPublisher\<close>, \<open>newKafkaSink\<close>; the release of the claims,
  \<open>Close\<close>, and the process from its environment to its exit.

  \<^bold>\<open>Interfaces\<close>

  \<open>rendezvous\<close> (a choice that is the best by score; interpreted by \<open>pairHash\<close> and \<open>Owner\<close>), \<open>peer_view\<close> (a
  state that keeps its invariant under lookups; by \<open>peers\<close>), \<open>lease_queue\<close> (what claim, extend, finish and
  the other statements promise about who holds a row; by the SQL statements), \<open>env_rel\<close> and its extensions
  \<open>env_pub\<close>, \<open>sink_log\<close> and \<open>lease_view\<close> (what the calls of a tick leave alone; by the environment of
  \<open>World\<close>).

  \<^bold>\<open>What is shown\<close>

  \<^item> Ownership: \<open>Owner\<close> is the maximum of the pair hash with ties broken by name, so the workers of one peer
  set partition the ready hashes, and only hashes of the peer that comes or goes move.
  \<^item> The queue: over every interleaving of statements a lease ends early only when its key is retired, two claims
  never overlap, a late finish changes nothing; over every run in which no reply to the worker is lost, and at
  every moment of the interleaved training pool, it holds in memory every row that is leased to it, and a
  shutdown while the store answers hands them all back, up to the end of the process; in claims within one lease,
  with no other write in between, a due row that nobody locks is handed out after boundedly many; what a
  worked claim leaves in its row, for each way the training can end; the pool comes to its end and never exceeds its limit.
  \<^item> Publishing: which messages a tick can send at all, and, while the context lives and the sink accepts, exactly the
  message each ready hash's cached model owes, whatever the other hashes have.
  \<^item> The reader: the windows cover the range exactly once; \<open>Hashes\<close> and \<open>Series\<close> return what the datasource
  holds, however the range is sliced; hashes stay inside their literal; which replies are retried and which
  are rows, and the cost of the retry loop; the rate of requests over any sequence of statements; the number of requests in flight.
  \<^item> The store: its tables keep their constraints under every call of every worker; a model that was put is
  read back; retirement, sweep and throttled reconnection; a store that becomes ready has run
  its migrations or had both of its probe queries answered.
  \<^item> Migrations: the database is always a prefix of the migrations, each run once and in order; a failure
  leaves nothing behind; a dry run predicts the real one; an error-free call accounts for every version it found,
  ran or lost to another migrator; the exit code of the command.
  \<^item> Configuration: every setting reaches its field (a table of the names, fields and defaults) or refuses the whole
  configuration, credentials survive the DSN, and a worker that starts runs a configuration with the bounds and
  relations that \<open>Validate\<close> and \<open>normalized\<close> establish, a derived \<open>SCAN_RANGE\<close> excepted.
  \<^item> The process: it fails before anything is opened, or runs until it is cancelled, releases its claims and
  closes the pool and the writer once each.

  \<^bold>\<open>Conventions and bounds\<close>

  A Go \<open>int\<close> or \<open>time.Duration\<close> is an \<open>int\<close> with \<open>i64\<close> written where it can overflow; hashes are
  64-bit words; a string is its list of bytes. Loops are recursions on the list they range over, or have a
  termination proof (\<open>windows_loop\<close>, \<open>parse_terms\<close>, \<open>trim_front\<close>); \<open>windows_run\<close> is the loop of \<open>windows\<close>
  without its guard, for which not returning is a value. The retry loop of the reader counts down
  from \<open>retries + 1\<close>, which is exactly how often the code runs it; the loop of \<open>Run\<close> consumes the list of the
  events its \<open>select\<close> receives and ends at the first cancellation. Nothing else needs a bound.

  The environment of the worker is a record of functions on a world. In \<open>World\<close> each call reads the next
  entry of a stream of inputs, so a statement over all streams covers every answer, failure and clock, and the
  other clients of the database act before every call; in \<open>FleetWorld\<close> these are calls of other stores, and
  what the properties ask of them is proved of every such call. A statement of the store succeeds, fails without
  effect, or takes effect while its reply is lost; the last is excluded only where a property says so
  (a worker cannot hold a lease it never heard of: such a row waits for its expiry). \<open>in_migrate\<close> of the
  store's inputs is the outcome of \<open>applyMigrations\<close>; \<open>StoreStart\<close> puts the engine of \<open>Migrations\<close> in its place,
  and the tables of \<open>StoreModel\<close> are those of the current schema.

  Third-party code is a parameter: the forecasting and time-series libraries, the snapshot codec, JSON, the
  HTTP and Kafka clients, the connection pool, the cron parser and the zone database, \<open>url.Parse\<close>, and
  PostgreSQL's execution of a migration file. SQL statements are translated from their text.

  \<^bold>\<open>Not modelled\<close>

  Log lines (the flags that throttle them are), the delivery of signals (a signal is the event that ends the
  context), the inside of the pool and its settings, the usage text of package \<open>flag\<close>, and the text of
  floating-point numbers.
  \<open>sort.Slice\<close> is not stable, which nothing relies on: the versions of the embedded files are distinct.
\<close>

end
